(* ===== verification/Prelude.thy ===== *)
theory Prelude
  imports Main "HOL-Library.Word" "HOL-Library.Char_ord" "HOL-Library.List_Lexorder"
    "HOL-Library.Multiset"
begin

text \<open>
  Shared vocabulary of the kproxy development.

  \<^item> Go's sized integers are words of the same width; a signed comparison of the source is
    written on \<^term>\<open>sint\<close>.  A Go \<open>int\<close> that holds a length, an offset or a count is a
    natural number (all of them are bounded by the size of a buffer held in memory).
  \<^item> A byte slice is a list of 8-bit words.  A Go string is an arbitrary byte sequence; it is a
    \<^typ>\<open>string\<close> here, and the conversions \<open>string(b)\<close> and \<open>append(dst, s...)\<close> of the
    source are \<open>string_of_bytes\<close> and \<open>bytes_of_string\<close>, inverse to each other.
  \<^item> Comparison of strings is the lexicographic order on bytes, as in Go.
  \<^item> A slice expression \<open>b[lo:hi]\<close> that is out of range panics in Go; \<open>goslice\<close> makes the
    panic a value, so that its absence can be proved.
\<close>

unbundle bit_operations_syntax

type_synonym byte = "8 word"
type_synonym bytes = "8 word list"
type_synonym int8 = "8 word"
type_synonym int16 = "16 word"
type_synonym int32 = "32 word"
type_synonym int64 = "64 word"
type_synonym uint32 = "32 word"

named_theorems app_simps \<open>an appender only extends its destination\<close>
named_theorems rt_intros \<open>a reader inverts an appender\<close>
named_theorems safe_intros \<open>a reader stays inside its buffer and does not panic\<close>
named_theorems yields_intros \<open>what a reader returns is well formed\<close>
named_theorems yields_steps \<open>the same, for the first reader of a sequence\<close>

section \<open>Strings and bytes\<close>

definition byte_of_char :: "char \<Rightarrow> byte" where
  "byte_of_char c = of_nat (of_char c)"

definition char_of_byte :: "byte \<Rightarrow> char" where
  "char_of_byte b = char_of (unat b)"

definition bytes_of_string :: "string \<Rightarrow> bytes" where
  "bytes_of_string s = map byte_of_char s"

definition string_of_bytes :: "bytes \<Rightarrow> string" where
  "string_of_bytes b = map char_of_byte b"

lemma unat_byte_of_char: "unat (byte_of_char c) = of_char c"
proof -
  have "of_char c < (256 :: nat)" by (rule nat_of_char_less_256)
  then show ?thesis by (simp add: byte_of_char_def unat_of_nat)
qed

lemma char_of_byte_of_char [simp]: "char_of_byte (byte_of_char c) = c"
  by (simp add: char_of_byte_def unat_byte_of_char)

lemma byte_of_char_of_byte [simp]: "byte_of_char (char_of_byte b) = b"
proof -
  have "unat b < 256" using unsigned_less [of b, where ?'a = nat] by simp
  then show ?thesis by (simp add: byte_of_char_def char_of_byte_def)
qed

lemma string_of_bytes_of_string [simp]: "string_of_bytes (bytes_of_string s) = s"
  by (simp add: string_of_bytes_def bytes_of_string_def comp_def)

lemma bytes_of_string_of_bytes [simp]: "bytes_of_string (string_of_bytes b) = b"
  by (simp add: string_of_bytes_def bytes_of_string_def comp_def)

lemma length_bytes_of_string [simp]: "length (bytes_of_string s) = length s"
  by (simp add: bytes_of_string_def)

lemma length_string_of_bytes [simp]: "length (string_of_bytes b) = length b"
  by (simp add: string_of_bytes_def)

lemma bytes_of_string_Nil [simp]: "bytes_of_string [] = []"
  by (simp add: bytes_of_string_def)

section \<open>Slice expressions\<close>

text \<open>The errors of package kwire, and the runtime panic of a slice expression out of range.\<close>

datatype kerr = ErrTruncated | ErrMalformed | SlicePanic

definition goslice :: "bytes \<Rightarrow> nat \<Rightarrow> nat \<Rightarrow> kerr + bytes" where
  "goslice b lo hi =
     (if lo \<le> hi \<and> hi \<le> length b then Inr (take (hi - lo) (drop lo b)) else Inl SlicePanic)"

lemma goslice_ok: "lo \<le> hi \<Longrightarrow> hi \<le> length b \<Longrightarrow> goslice b lo hi = Inr (take (hi - lo) (drop lo b))"
  by (simp add: goslice_def)

section \<open>Generic lemmas\<close>

lemma foldl_append_only:
  assumes "\<And>dst x. app dst x = dst @ app [] x"
  shows "foldl app dst xs = dst @ concat (map (app []) xs)"
proof (induction xs arbitrary: dst)
  case Nil
  then show ?case by simp
next
  case (Cons x xs)
  have "foldl app dst (x # xs) = app dst x @ concat (map (app []) xs)"
    using Cons.IH by simp
  then show ?case by (subst (asm) assms) simp
qed

lemma length_concat_ge:
  assumes "\<And>x. x \<in> set xs \<Longrightarrow> f x \<noteq> []"
  shows "length xs \<le> length (concat (map f xs))"
  using assms
proof (induction xs)
  case (Cons x xs)
  then have "1 \<le> length (f x)" by (cases "f x") auto
  with Cons show ?case by simp
qed simp

lemma sint_of_nat_small:
  assumes "n < 2 ^ (LENGTH('a::len) - 1)"
  shows "sint (of_nat n :: 'a word) = int n"
proof -
  have "take_bit (LENGTH('a) - 1) (int n) = int n"
    using assms by (simp add: take_bit_int_eq_self_iff)
  moreover from this have "\<not> bit (int n) (LENGTH('a) - 1)"
    by (metis bit_take_bit_iff less_irrefl)
  ultimately show ?thesis
    by (simp add: signed_of_nat signed_take_bit_eq_if_positive)
qed

text \<open>A loop keeps what its body keeps.\<close>

lemma foldl_inv:
  assumes "P s" "\<And>s x. x \<in> set xs \<Longrightarrow> P s \<Longrightarrow> P (f s x)"
  shows "P (foldl f s xs)"
  using assms by (induction xs arbitrary: s) auto

text \<open>A transition system with an invariant: what the start state has and every step keeps, every
  reachable state has.\<close>

locale step_system =
  fixes step :: "'s \<Rightarrow> 's \<Rightarrow> bool"
    and init :: 's
    and inv :: "'s \<Rightarrow> bool"
  assumes inv_init: "inv init"
    and inv_step: "step s s' \<Longrightarrow> inv s \<Longrightarrow> inv s'"
begin

lemma reachable: "step\<^sup>*\<^sup>* init s \<Longrightarrow> inv s"
  by (induction rule: rtranclp_induct) (auto intro: inv_init inv_step)

lemma stays: "step\<^sup>*\<^sup>* s s' \<Longrightarrow> inv s \<Longrightarrow> inv s'"
  by (induction rule: rtranclp_induct) (auto intro: inv_step)

end

end
