(* ===== verification/Cursors.thy ===== *)
theory Cursors
  imports Prelude
begin

text \<open>
  The cursor of \<open>internal/kwire/primitives.go\<close>, the shape of every decoder written over it, and
  the contracts the codecs of the package share.

  A decoder is a function from a cursor to an error or a value with the advanced cursor.  The
  source leaves the cursor advanced on an error too, but no caller looks at a cursor after an
  error: every decoder owns its cursor and returns at the first error.  \<open>bnd\<close> is that
  early-return sequencing.

  The locales state the contracts: \<open>append_only\<close> (an appender extends its destination and
  does not look at it), \<open>safe_reader\<close> (a reader never panics, never leaves its buffer, never
  moves backwards) and \<open>wire_codec\<close> (a reader inverts an appender on the values that fit, and
  returns only such values).  Their lemmas lift a codec of one element to the loops of the source.
\<close>

section \<open>The cursor\<close>

record Cursor =
  buf :: bytes
  off :: nat

definition NewCursor :: "bytes \<Rightarrow> Cursor" where
  "NewCursor b = \<lparr>buf = b, off = 0\<rparr>"

definition Remaining :: "Cursor \<Rightarrow> nat" where
  "Remaining c = length (buf c) - off c"

definition Offset :: "Cursor \<Rightarrow> nat" where
  "Offset c = off c"

definition Bytes :: "Cursor \<Rightarrow> bytes" where
  "Bytes c = buf c"

section \<open>Decoders\<close>

type_synonym 'a reader = "Cursor \<Rightarrow> kerr + 'a \<times> Cursor"

definition ret :: "'a \<Rightarrow> 'a reader" where
  "ret v c = Inr (v, c)"

definition fail :: "kerr \<Rightarrow> 'a reader" where
  "fail e c = Inl e"

definition bnd :: "'a reader \<Rightarrow> ('a \<Rightarrow> 'b reader) \<Rightarrow> 'b reader" where
  "bnd m f c = (case m c of Inl e \<Rightarrow> Inl e | Inr (v, c') \<Rightarrow> f v c')"

definition run :: "'a reader \<Rightarrow> bytes \<Rightarrow> kerr + 'a" where
  "run m body = (case m (NewCursor body) of Inl e \<Rightarrow> Inl e | Inr (v, c') \<Rightarrow> Inr v)"

text \<open>A field that is on the wire only under a condition, with the value it has otherwise.\<close>

definition optF :: "bool \<Rightarrow> 'a reader \<Rightarrow> 'a \<Rightarrow> 'a reader" where
  "optF b m d = (if b then m else ret d)"

text \<open>The loop \<open>for i := range n \<dots> out[i] = x\<close>.\<close>

fun decodeN :: "nat \<Rightarrow> 'a reader \<Rightarrow> 'a list reader" where
  "decodeN 0 m = ret []"
| "decodeN (Suc n) m = bnd m (\<lambda>x. bnd (decodeN n m) (\<lambda>xs. ret (x # xs)))"

section \<open>Contracts\<close>

definition wf_cursor :: "Cursor \<Rightarrow> bool" where
  "wf_cursor c \<longleftrightarrow> off c \<le> length (buf c)"

definition safe :: "'a reader \<Rightarrow> bool" where
  "safe m \<longleftrightarrow> (\<forall>c. wf_cursor c \<longrightarrow>
     (case m c of Inl e \<Rightarrow> e \<noteq> SlicePanic
      | Inr (v, c') \<Rightarrow> buf c' = buf c \<and> off c \<le> off c' \<and> wf_cursor c'))"

definition yields :: "'a reader \<Rightarrow> ('a \<Rightarrow> bool) \<Rightarrow> bool" where
  "yields m P \<longleftrightarrow> (\<forall>c v c'. m c = Inr (v, c') \<longrightarrow> P v)"

definition reads_at :: "'a reader \<Rightarrow> bytes \<Rightarrow> 'a \<Rightarrow> bytes \<Rightarrow> bool" where
  "reads_at m xs v suf \<longleftrightarrow>
     (\<forall>pre. m \<lparr>buf = pre @ xs @ suf, off = length pre\<rparr>
        = Inr (v, \<lparr>buf = pre @ xs @ suf, off = length pre + length xs\<rparr>))"

lemma safeD:
  "safe m \<Longrightarrow> wf_cursor c \<Longrightarrow> m c = Inr (v, c') \<Longrightarrow> buf c' = buf c \<and> off c \<le> off c' \<and> wf_cursor c'"
  unfolding safe_def by (drule spec [where x = c]) simp

lemma safe_no_panic:
  assumes "safe m" and "wf_cursor c"
  shows "m c \<noteq> Inl SlicePanic"
proof
  assume r: "m c = Inl SlicePanic"
  from assms have "case m c of Inl e \<Rightarrow> e \<noteq> SlicePanic
      | Inr (v, c') \<Rightarrow> buf c' = buf c \<and> off c \<le> off c' \<and> wf_cursor c'"
    unfolding safe_def by blast
  then show False unfolding r by simp
qed

lemma safeI:
  assumes "\<And>c e. wf_cursor c \<Longrightarrow> m c = Inl e \<Longrightarrow> e \<noteq> SlicePanic"
    and "\<And>c v c'. wf_cursor c \<Longrightarrow> m c = Inr (v, c') \<Longrightarrow>
      buf c' = buf c \<and> off c \<le> off c' \<and> wf_cursor c'"
  shows "safe m"
  unfolding safe_def
proof (intro allI impI)
  fix c assume c: "wf_cursor c"
  show "case m c of Inl e \<Rightarrow> e \<noteq> SlicePanic
      | Inr (v, c') \<Rightarrow> buf c' = buf c \<and> off c \<le> off c' \<and> wf_cursor c'"
  proof (cases "m c")
    case (Inl e)
    with assms(1) [OF c Inl] show ?thesis by simp
  next
    case (Inr p)
    obtain v c' where p: "p = (v, c')" by (cases p)
    with assms(2) [OF c, of v c'] Inr show ?thesis by simp
  qed
qed

lemma safe_ret [safe_intros]: "safe (ret v)"
  by (rule safeI) (auto simp: ret_def)

lemma safe_fail [safe_intros]: "e \<noteq> SlicePanic \<Longrightarrow> safe (fail e)"
  by (rule safeI) (auto simp: fail_def)

lemma safe_bnd [safe_intros]:
  assumes m: "safe m" and f: "\<And>v. safe (f v)"
  shows "safe (bnd m f)"
proof (rule safeI)
  fix c e assume c: "wf_cursor c" and r: "bnd m f c = Inl e"
  show "e \<noteq> SlicePanic"
  proof (cases "m c")
    case (Inl x)
    with r safe_no_panic [OF m c] show ?thesis by (auto simp: bnd_def)
  next
    case (Inr p)
    obtain v c' where p: "p = (v, c')" by (cases p)
    with Inr have "wf_cursor c'" using safeD [OF m c] by blast
    moreover from r Inr p have "f v c' = Inl e" by (simp add: bnd_def)
    ultimately show ?thesis using safe_no_panic [OF f] by metis
  qed
next
  fix c w c'' assume c: "wf_cursor c" and r: "bnd m f c = Inr (w, c'')"
  then obtain v c' where mc: "m c = Inr (v, c')" and fc: "f v c' = Inr (w, c'')"
    by (auto simp: bnd_def split: sum.splits)
  from safeD [OF m c mc] have 1: "buf c' = buf c \<and> off c \<le> off c' \<and> wf_cursor c'" .
  with safeD [OF f _ fc] show "buf c'' = buf c \<and> off c \<le> off c'' \<and> wf_cursor c''" by auto
qed

lemma safe_if [safe_intros]:
  "(b \<Longrightarrow> safe m) \<Longrightarrow> (\<not> b \<Longrightarrow> safe n) \<Longrightarrow> safe (if b then m else n)"
  by simp

lemma safe_optF [safe_intros]: "(b \<Longrightarrow> safe m) \<Longrightarrow> safe (optF b m d)"
  by (simp add: optF_def safe_ret)

lemma safe_decodeN [safe_intros]: "safe m \<Longrightarrow> safe (decodeN n m)"
  by (induction n) (auto intro: safe_intros)

lemma safe_run: "safe m \<Longrightarrow> run m body \<noteq> Inl SlicePanic"
  using safe_no_panic [of m "NewCursor body"]
  by (auto simp: run_def NewCursor_def wf_cursor_def split: sum.splits)

lemma yieldsI: "(\<And>c v c'. m c = Inr (v, c') \<Longrightarrow> P v) \<Longrightarrow> yields m P"
  by (auto simp: yields_def)

lemma yieldsD: "yields m P \<Longrightarrow> m c = Inr (v, c') \<Longrightarrow> P v"
  by (auto simp: yields_def)

lemma yields_ret [yields_intros]: "P v \<Longrightarrow> yields (ret v) P"
  by (simp add: yields_def ret_def)

lemma yields_fail [yields_intros]: "yields (fail e) P"
  by (simp add: yields_def fail_def)

lemma yields_bnd [yields_intros]:
  "yields m P \<Longrightarrow> (\<And>v. P v \<Longrightarrow> yields (f v) Q) \<Longrightarrow> yields (bnd m f) Q"
  unfolding yields_def bnd_def by (fastforce split: sum.splits)

lemma yields_if [yields_intros]:
  "(b \<Longrightarrow> yields m P) \<Longrightarrow> (\<not> b \<Longrightarrow> yields n P) \<Longrightarrow> yields (if b then m else n) P"
  by simp

lemma yields_optF [yields_intros]:
  "yields m P \<Longrightarrow> yields (optF b m d) (\<lambda>v. if b then P v else v = d)"
  by (auto simp: optF_def yields_def ret_def)

lemma yields_mono: "yields m P \<Longrightarrow> (\<And>v. P v \<Longrightarrow> Q v) \<Longrightarrow> yields m Q"
  by (auto simp: yields_def)

lemma yields_run: "yields m P \<Longrightarrow> run m body = Inr v \<Longrightarrow> P v"
  by (auto simp: run_def yields_def split: sum.splits)

lemma yields_decodeN [yields_intros]:
  "yields m P \<Longrightarrow> yields (decodeN n m) (\<lambda>xs. length xs = n \<and> list_all P xs)"
proof (induction n)
  case 0
  then show ?case by (simp add: yields_def ret_def)
next
  case (Suc n)
  from Suc show ?case by (auto intro!: yields_intros)
qed

lemma reads_at_ret [rt_intros]: "reads_at (ret v) [] v suf"
  by (simp add: reads_at_def ret_def)

lemma reads_at_bnd:
  assumes m: "reads_at m xs v (ys @ suf)" and f: "reads_at (f v) ys w suf"
  shows "reads_at (bnd m f) (xs @ ys) w suf"
  unfolding reads_at_def
proof
  fix pre
  from m have "m \<lparr>buf = pre @ xs @ ys @ suf, off = length pre\<rparr>
      = Inr (v, \<lparr>buf = pre @ xs @ ys @ suf, off = length pre + length xs\<rparr>)"
    by (simp add: reads_at_def)
  moreover from f have "f v \<lparr>buf = (pre @ xs) @ ys @ suf, off = length (pre @ xs)\<rparr>
      = Inr (w, \<lparr>buf = (pre @ xs) @ ys @ suf, off = length (pre @ xs) + length ys\<rparr>)"
    unfolding reads_at_def by (rule spec)
  ultimately show "bnd m f \<lparr>buf = pre @ (xs @ ys) @ suf, off = length pre\<rparr>
      = Inr (w, \<lparr>buf = pre @ (xs @ ys) @ suf, off = length pre + length (xs @ ys)\<rparr>)"
    by (simp add: bnd_def add.assoc)
qed

lemma reads_at_bnd_ret:
  assumes "reads_at m xs v suf" and "w = g v"
  shows "reads_at (bnd m (\<lambda>x. ret (g x))) xs w suf"
  using reads_at_bnd [of m xs v "[]" suf "\<lambda>x. ret (g x)" w] assms
  by (simp add: reads_at_ret)

lemma reads_at_if [rt_intros]:
  "(b \<Longrightarrow> reads_at m xs v suf) \<Longrightarrow> (\<not> b \<Longrightarrow> reads_at n ys v suf) \<Longrightarrow>
   reads_at (if b then m else n) (if b then xs else ys) v suf"
  by simp

lemma reads_at_optF [rt_intros]:
  "(b \<Longrightarrow> reads_at m xs v suf) \<Longrightarrow> (\<not> b \<Longrightarrow> v = d) \<Longrightarrow>
   reads_at (optF b m d) (if b then xs else []) v suf"
  by (simp add: optF_def reads_at_ret)

lemma reads_at_run: "reads_at m xs v [] \<Longrightarrow> run m xs = Inr v"
  unfolding reads_at_def run_def NewCursor_def by (drule spec [of _ "[]"]) simp

section \<open>The contracts as locales\<close>

locale append_only =
  fixes app :: "bytes \<Rightarrow> 'a \<Rightarrow> bytes"
  assumes app_append: "app dst x = dst @ app [] x"
begin

definition enc :: "'a \<Rightarrow> bytes" where
  "enc x = app [] x"

lemma app_enc: "app dst x = dst @ enc x"
  by (simp add: enc_def app_append [of dst])

lemma foldl_app: "foldl app dst xs = dst @ concat (map enc xs)"
proof -
  have "app [] = enc" by (rule ext) (simp add: enc_def)
  then show ?thesis using foldl_append_only [of app dst xs] app_append by simp
qed

end

locale safe_reader =
  fixes rd :: "'a reader"
  assumes rd_safe: "safe rd"
begin

lemma no_panic: "run rd body \<noteq> Inl SlicePanic"
  by (rule safe_run [OF rd_safe])

lemma stays_inside:
  "wf_cursor c \<Longrightarrow> rd c = Inr (v, c') \<Longrightarrow> buf c' = buf c \<and> off c \<le> off c' \<and> wf_cursor c'"
  by (rule safeD [OF rd_safe])

lemma loop_safe: "safe (decodeN n rd)"
  by (rule safe_decodeN [OF rd_safe])

end

locale wire_codec = append_only app + safe_reader rd
  for app :: "bytes \<Rightarrow> 'a \<Rightarrow> bytes" and rd :: "'a reader" +
  fixes ok :: "'a \<Rightarrow> bool"
  assumes rd_inverts: "ok v \<Longrightarrow> reads_at rd (app [] v) v suf"
    and rd_yields: "yields rd ok"
begin

lemma rd_enc: "ok v \<Longrightarrow> reads_at rd (enc v) v suf"
  using rd_inverts by (simp add: enc_def)

lemma roundtrip: "ok v \<Longrightarrow> run rd (app [] v) = Inr v"
  by (rule reads_at_run [OF rd_inverts])

lemma roundtrip_trailing:
  assumes "ok v"
  shows "run rd (app [] v @ suf) = Inr v"
  using rd_inverts [OF assms, of suf] unfolding reads_at_def run_def NewCursor_def
  by (drule_tac x = "[]" in spec) simp

text \<open>What a reader accepts is well formed, and writing it again and reading that gives it back.\<close>

lemma transcode: "run rd body = Inr v \<Longrightarrow> ok v \<and> run rd (app [] v @ suf) = Inr v"
  using yields_run [OF rd_yields] roundtrip_trailing by blast

text \<open>Two encodings that fit are never prefixes of one another unless they are equal.\<close>

lemma enc_prefix_free:
  assumes "ok v" "ok w" "enc v @ xs = enc w @ ys"
  shows "v = w \<and> xs = ys"
proof -
  have "rd \<lparr>buf = enc v @ xs, off = 0\<rparr> = Inr (v, \<lparr>buf = enc v @ xs, off = length (enc v)\<rparr>)"
    using rd_enc [OF assms(1), of xs] unfolding reads_at_def by (drule_tac x = "[]" in spec) simp
  moreover have "rd \<lparr>buf = enc w @ ys, off = 0\<rparr> = Inr (w, \<lparr>buf = enc w @ ys, off = length (enc w)\<rparr>)"
    using rd_enc [OF assms(2), of ys] unfolding reads_at_def by (drule_tac x = "[]" in spec) simp
  ultimately have "v = w" using assms(3) by simp
  with assms(3) show ?thesis by simp
qed

lemma enc_inj: "ok v \<Longrightarrow> ok w \<Longrightarrow> enc v = enc w \<Longrightarrow> v = w"
  using enc_prefix_free [of v w "[]" "[]"] by simp

lemma rd_loop:
  "list_all ok vs \<Longrightarrow> reads_at (decodeN (length vs) rd) (concat (map enc vs)) vs suf"
proof (induction vs)
  case Nil
  show ?case by (simp add: reads_at_ret)
next
  case (Cons v vs)
  have "reads_at (bnd (decodeN (length vs) rd) (\<lambda>xs. ret (v # xs))) (concat (map enc vs)) (v # vs) suf"
    using Cons by (intro reads_at_bnd_ret [where v = vs]) auto
  moreover have "reads_at rd (enc v) v (concat (map enc vs) @ suf)"
    using Cons.prems by (intro rd_enc) simp
  ultimately show ?case by (auto intro: reads_at_bnd)
qed

lemma loop_yields: "yields (decodeN n rd) (\<lambda>xs. length xs = n \<and> list_all ok xs)"
  by (rule yields_decodeN [OF rd_yields])

end

end
