(* ===== verification/Primitives.thy ===== *)
theory Primitives
  imports Cursors
begin

text \<open>
  The primitive readers and appenders of \<open>internal/kwire/primitives.go\<close>, one definition per
  function, with their interpretation as \<open>wire_codec\<close>s.  \<open>takeN\<close> is the step the
  length-prefixed readers share (bound check, slice, advance), and the definitions that take
  \<open>flex\<close> name the inline choice \<open>if flex \<dots> else \<dots>\<close> that every codec of the package makes
  between the compact and the classic encoding.
\<close>

section \<open>Readers\<close>

definition Skip :: "int \<Rightarrow> unit reader" where
  "Skip n c =
     (if n < 0 \<or> int (off c) + n > int (length (buf c)) then Inl ErrTruncated
      else Inr ((), c\<lparr>off := off c + nat n\<rparr>))"

definition takeN :: "nat \<Rightarrow> bytes reader" where
  "takeN n c =
     (if off c + n > length (buf c) then Inl ErrTruncated
      else case goslice (buf c) (off c) (off c + n) of
             Inl e \<Rightarrow> Inl e
           | Inr b \<Rightarrow> Inr (b, c\<lparr>off := off c + n\<rparr>))"

text \<open>\<open>encoding/binary.BigEndian\<close>: reading from a slice that is too short panics.\<close>

fun Uint16 :: "bytes \<Rightarrow> kerr + 16 word" where
  "Uint16 (b0 # b1 # _) = Inr (ucast b1 OR push_bit 8 (ucast b0))"
| "Uint16 _ = Inl SlicePanic"

fun Uint32 :: "bytes \<Rightarrow> kerr + 32 word" where
  "Uint32 (b0 # b1 # b2 # b3 # _) =
     Inr (ucast b3 OR push_bit 8 (ucast b2) OR push_bit 16 (ucast b1) OR push_bit 24 (ucast b0))"
| "Uint32 _ = Inl SlicePanic"

fun Uint64 :: "bytes \<Rightarrow> kerr + 64 word" where
  "Uint64 (b0 # b1 # b2 # b3 # b4 # b5 # b6 # b7 # _) =
     Inr (ucast b7 OR push_bit 8 (ucast b6) OR push_bit 16 (ucast b5) OR push_bit 24 (ucast b4) OR
          push_bit 32 (ucast b3) OR push_bit 40 (ucast b2) OR push_bit 48 (ucast b1) OR
          push_bit 56 (ucast b0))"
| "Uint64 _ = Inl SlicePanic"

definition ReadInt8 :: "int8 reader" where
  "ReadInt8 c =
     (if off c + 1 > length (buf c) then Inl ErrTruncated
      else case drop (off c) (buf c) of
             [] \<Rightarrow> Inl SlicePanic
           | b # _ \<Rightarrow> Inr (b, c\<lparr>off := off c + 1\<rparr>))"

definition ReadInt16 :: "int16 reader" where
  "ReadInt16 c =
     (if off c + 2 > length (buf c) then Inl ErrTruncated
      else case Uint16 (drop (off c) (buf c)) of
             Inl e \<Rightarrow> Inl e
           | Inr v \<Rightarrow> Inr (v, c\<lparr>off := off c + 2\<rparr>))"

definition ReadInt32 :: "int32 reader" where
  "ReadInt32 c =
     (if off c + 4 > length (buf c) then Inl ErrTruncated
      else case Uint32 (drop (off c) (buf c)) of
             Inl e \<Rightarrow> Inl e
           | Inr v \<Rightarrow> Inr (v, c\<lparr>off := off c + 4\<rparr>))"

definition ReadInt64 :: "int64 reader" where
  "ReadInt64 c =
     (if off c + 8 > length (buf c) then Inl ErrTruncated
      else case Uint64 (drop (off c) (buf c)) of
             Inl e \<Rightarrow> Inl e
           | Inr v \<Rightarrow> Inr (v, c\<lparr>off := off c + 8\<rparr>))"

definition ReadString :: "string reader" where
  "ReadString =
     bnd ReadInt16 (\<lambda>n.
       if sint n < 0 then fail ErrMalformed
       else bnd (takeN (nat (sint n))) (\<lambda>b. ret (string_of_bytes b)))"

definition ReadNullableString :: "(string \<times> bool) reader" where
  "ReadNullableString =
     bnd ReadInt16 (\<lambda>n.
       if sint n < 0 then ret ('''', True)
       else bnd (takeN (nat (sint n))) (\<lambda>b. ret (string_of_bytes b, False)))"

definition ReadBytes :: "bytes reader" where
  "ReadBytes =
     bnd ReadInt32 (\<lambda>n.
       if sint n < 0 then fail ErrMalformed else takeN (nat (sint n)))"

definition ReadNullableBytes :: "(bytes \<times> bool) reader" where
  "ReadNullableBytes =
     bnd ReadInt32 (\<lambda>n.
       if sint n < 0 then ret ([], True)
       else bnd (takeN (nat (sint n))) (\<lambda>b. ret (b, False)))"

fun uvarintLoop :: "nat \<Rightarrow> uint32 \<Rightarrow> nat \<Rightarrow> uint32 reader" where
  "uvarintLoop 0 v shift c = Inl ErrMalformed"
| "uvarintLoop (Suc k) v shift c =
     (if off c \<ge> length (buf c) then Inl ErrTruncated
      else case drop (off c) (buf c) of
             [] \<Rightarrow> Inl SlicePanic
           | b # _ \<Rightarrow>
               (let c' = c\<lparr>off := off c + 1\<rparr>;
                    v' = v OR push_bit shift (ucast (b AND 0x7f))
                in if b AND 0x80 = 0 then Inr (v', c') else uvarintLoop k v' (shift + 7) c'))"

definition ReadUvarint :: "uint32 reader" where
  "ReadUvarint = uvarintLoop 5 0 0"

definition ReadCompactString :: "string reader" where
  "ReadCompactString =
     bnd ReadUvarint (\<lambda>n.
       if n = 0 then fail ErrMalformed
       else bnd (takeN (unat n - 1)) (\<lambda>b. ret (string_of_bytes b)))"

definition ReadCompactNullableString :: "(string \<times> bool) reader" where
  "ReadCompactNullableString =
     bnd ReadUvarint (\<lambda>n.
       if n = 0 then ret ('''', True)
       else bnd (takeN (unat n - 1)) (\<lambda>b. ret (string_of_bytes b, False)))"

definition ReadCompactBytes :: "bytes reader" where
  "ReadCompactBytes =
     bnd ReadUvarint (\<lambda>n. if n = 0 then fail ErrMalformed else takeN (unat n - 1))"

definition ReadCompactNullableBytes :: "(bytes \<times> bool) reader" where
  "ReadCompactNullableBytes =
     bnd ReadUvarint (\<lambda>n.
       if n = 0 then ret ([], True)
       else bnd (takeN (unat n - 1)) (\<lambda>b. ret (b, False)))"

definition ReadArrayLen :: "(nat \<times> bool) reader" where
  "ReadArrayLen =
     bnd ReadInt32 (\<lambda>v.
       if sint v < 0 then ret (0, True)
       else (\<lambda>c. if nat (sint v) > Remaining c then Inl ErrTruncated
                 else Inr ((nat (sint v), False), c)))"

definition ReadCompactArrayLen :: "(nat \<times> bool) reader" where
  "ReadCompactArrayLen =
     bnd ReadUvarint (\<lambda>v.
       if v = 0 then ret (0, True)
       else (\<lambda>c. if unat v - 1 > Remaining c then Inl ErrTruncated
                 else Inr ((unat v - 1, False), c)))"

fun skipTags :: "nat \<Rightarrow> unit reader" where
  "skipTags 0 = ret ()"
| "skipTags (Suc n) =
     bnd ReadUvarint (\<lambda>tag. bnd ReadUvarint (\<lambda>sz. bnd (Skip (uint sz)) (\<lambda>u. skipTags n)))"

definition SkipTaggedFields :: "unit reader" where
  "SkipTaggedFields = bnd ReadUvarint (\<lambda>n. skipTags (unat n))"

section \<open>Appenders\<close>

definition AppendInt8 :: "bytes \<Rightarrow> int8 \<Rightarrow> bytes" where
  "AppendInt8 dst v = dst @ [v]"

definition AppendInt16 :: "bytes \<Rightarrow> int16 \<Rightarrow> bytes" where
  "AppendInt16 dst v = dst @ [ucast (drop_bit 8 v), ucast v]"

definition AppendInt32 :: "bytes \<Rightarrow> int32 \<Rightarrow> bytes" where
  "AppendInt32 dst v =
     dst @ [ucast (drop_bit 24 v), ucast (drop_bit 16 v), ucast (drop_bit 8 v), ucast v]"

definition AppendInt64 :: "bytes \<Rightarrow> int64 \<Rightarrow> bytes" where
  "AppendInt64 dst v =
     dst @ [ucast (drop_bit 56 v), ucast (drop_bit 48 v), ucast (drop_bit 40 v),
            ucast (drop_bit 32 v), ucast (drop_bit 24 v), ucast (drop_bit 16 v),
            ucast (drop_bit 8 v), ucast v]"

lemma drop_bit_7_less: "0x80 \<le> (v :: uint32) \<Longrightarrow> unat (drop_bit 7 v) < unat v"
  by (simp add: drop_bit_eq_div word_le_nat_alt unat_div)

function AppendUvarint :: "bytes \<Rightarrow> uint32 \<Rightarrow> bytes" where
  "AppendUvarint dst v =
     (if v \<ge> 0x80 then AppendUvarint (dst @ [ucast v OR 0x80]) (drop_bit 7 v)
      else dst @ [ucast v])"
  by pat_completeness auto

termination
  by (relation "measure (\<lambda>(dst, v). unat v)") (auto intro: drop_bit_7_less)

declare AppendUvarint.simps [simp del]

definition AppendString :: "bytes \<Rightarrow> string \<Rightarrow> bytes" where
  "AppendString dst s = AppendInt16 dst (of_nat (length s)) @ bytes_of_string s"

definition AppendNullableString :: "bytes \<Rightarrow> string \<Rightarrow> bool \<Rightarrow> bytes" where
  "AppendNullableString dst s isNull =
     (if isNull then AppendInt16 dst (-1) else AppendString dst s)"

definition AppendBytes :: "bytes \<Rightarrow> bytes \<Rightarrow> bytes" where
  "AppendBytes dst b = AppendInt32 dst (of_nat (length b)) @ b"

definition AppendNullableBytes :: "bytes \<Rightarrow> bytes \<Rightarrow> bool \<Rightarrow> bytes" where
  "AppendNullableBytes dst b isNull = (if isNull then AppendInt32 dst (-1) else AppendBytes dst b)"

definition AppendCompactString :: "bytes \<Rightarrow> string \<Rightarrow> bytes" where
  "AppendCompactString dst s = AppendUvarint dst (of_nat (length s + 1)) @ bytes_of_string s"

definition AppendCompactNullableString :: "bytes \<Rightarrow> string \<Rightarrow> bool \<Rightarrow> bytes" where
  "AppendCompactNullableString dst s isNull =
     (if isNull then AppendUvarint dst 0 else AppendCompactString dst s)"

definition AppendCompactBytes :: "bytes \<Rightarrow> bytes \<Rightarrow> bytes" where
  "AppendCompactBytes dst b = AppendUvarint dst (of_nat (length b + 1)) @ b"

definition AppendCompactNullableBytes :: "bytes \<Rightarrow> bytes \<Rightarrow> bool \<Rightarrow> bytes" where
  "AppendCompactNullableBytes dst b isNull =
     (if isNull then AppendUvarint dst 0 else AppendCompactBytes dst b)"

definition AppendArrayLen :: "bytes \<Rightarrow> nat \<Rightarrow> bool \<Rightarrow> bytes" where
  "AppendArrayLen dst n isNull = (if isNull then AppendInt32 dst (-1) else AppendInt32 dst (of_nat n))"

definition AppendCompactArrayLen :: "bytes \<Rightarrow> nat \<Rightarrow> bool \<Rightarrow> bytes" where
  "AppendCompactArrayLen dst n isNull =
     (if isNull then AppendUvarint dst 0 else AppendUvarint dst (of_nat (n + 1)))"

definition AppendEmptyTaggedFields :: "bytes \<Rightarrow> bytes" where
  "AppendEmptyTaggedFields dst = dst @ [0x00]"

section \<open>The choice between compact and classic encoding\<close>

definition readStr :: "bool \<Rightarrow> string reader" where
  "readStr flex = (if flex then ReadCompactString else ReadString)"

definition appendStr :: "bytes \<Rightarrow> string \<Rightarrow> bool \<Rightarrow> bytes" where
  "appendStr dst s flex = (if flex then AppendCompactString dst s else AppendString dst s)"

definition readNStr :: "bool \<Rightarrow> (string \<times> bool) reader" where
  "readNStr flex = (if flex then ReadCompactNullableString else ReadNullableString)"

definition appendNStr :: "bytes \<Rightarrow> string \<Rightarrow> bool \<Rightarrow> bool \<Rightarrow> bytes" where
  "appendNStr dst s isNull flex =
     (if flex then AppendCompactNullableString dst s isNull else AppendNullableString dst s isNull)"

definition readBts :: "bool \<Rightarrow> bytes reader" where
  "readBts flex = (if flex then ReadCompactBytes else ReadBytes)"

definition appendBts :: "bytes \<Rightarrow> bytes \<Rightarrow> bool \<Rightarrow> bytes" where
  "appendBts dst b flex = (if flex then AppendCompactBytes dst b else AppendBytes dst b)"

definition readNBts :: "bool \<Rightarrow> (bytes \<times> bool) reader" where
  "readNBts flex = (if flex then ReadCompactNullableBytes else ReadNullableBytes)"

definition appendNBts :: "bytes \<Rightarrow> bytes \<Rightarrow> bool \<Rightarrow> bool \<Rightarrow> bytes" where
  "appendNBts dst b isNull flex =
     (if flex then AppendCompactNullableBytes dst b isNull else AppendNullableBytes dst b isNull)"

definition skipTagsIf :: "bool \<Rightarrow> unit reader" where
  "skipTagsIf flex = (if flex then SkipTaggedFields else ret ())"

definition appendTagsIf :: "bytes \<Rightarrow> bool \<Rightarrow> bytes" where
  "appendTagsIf dst flex = (if flex then AppendEmptyTaggedFields dst else dst)"

text \<open>\<open>readArrLen\<close> and \<open>appendArrLen\<close> of \<open>metadata.go\<close>; the codecs of the other files inline them.\<close>

definition readArrLen :: "bool \<Rightarrow> nat reader" where
  "readArrLen flex =
     (if flex then bnd ReadCompactArrayLen (\<lambda>(n, isNull). ret n)
      else bnd ReadArrayLen (\<lambda>(n, isNull). ret n))"

definition appendArrLen :: "bytes \<Rightarrow> nat \<Rightarrow> bool \<Rightarrow> bytes" where
  "appendArrLen dst n flex =
     (if flex then AppendCompactArrayLen dst n False else AppendArrayLen dst n False)"

text \<open>An array: its length, then its elements in a loop.\<close>

definition decodeArr :: "bool \<Rightarrow> 'a reader \<Rightarrow> 'a list reader" where
  "decodeArr flex rd = bnd (readArrLen flex) (\<lambda>n. decodeN n rd)"

definition appendArr :: "bool \<Rightarrow> (bytes \<Rightarrow> 'a \<Rightarrow> bytes) \<Rightarrow> bytes \<Rightarrow> 'a list \<Rightarrow> bytes" where
  "appendArr flex app dst xs = foldl app (appendArrLen dst (length xs) flex) xs"

text \<open>What fits: the values on which the length prefixes do not wrap around.\<close>

definition strOk :: "bool \<Rightarrow> string \<Rightarrow> bool" where
  "strOk flex s \<longleftrightarrow> (if flex then length s + 1 < 2 ^ 32 else length s < 2 ^ 15)"

definition nstrOk :: "bool \<Rightarrow> string \<times> bool \<Rightarrow> bool" where
  "nstrOk flex p \<longleftrightarrow> (if snd p then fst p = '''' else strOk flex (fst p))"

definition btsOk :: "bool \<Rightarrow> bytes \<Rightarrow> bool" where
  "btsOk flex b \<longleftrightarrow> (if flex then length b + 1 < 2 ^ 32 else length b < 2 ^ 31)"

definition nbtsOk :: "bool \<Rightarrow> bytes \<times> bool \<Rightarrow> bool" where
  "nbtsOk flex p \<longleftrightarrow> (if snd p then fst p = [] else btsOk flex (fst p))"

definition arrOk :: "bool \<Rightarrow> nat \<Rightarrow> bool" where
  "arrOk flex n \<longleftrightarrow> (if flex then n + 1 < 2 ^ 32 else n < 2 ^ 31)"

lemmas fits_defs = strOk_def nstrOk_def btsOk_def nbtsOk_def arrOk_def

section \<open>Fixed-width integers\<close>

lemma list_2: "2 \<le> length xs \<Longrightarrow> \<exists>a b r. xs = a # b # r"
  by (auto simp: Suc_le_length_iff numeral_eq_Suc)

lemma list_4: "4 \<le> length xs \<Longrightarrow> \<exists>a b c d r. xs = a # b # c # d # r"
  by (auto simp: Suc_le_length_iff numeral_eq_Suc)

lemma list_8: "8 \<le> length xs \<Longrightarrow> \<exists>a b c d e f g h r. xs = a # b # c # d # e # f # g # h # r"
  by (auto simp: Suc_le_length_iff numeral_eq_Suc)

lemma Uint16_safe: "2 \<le> length xs \<Longrightarrow> \<exists>v. Uint16 xs = Inr v"
  using list_2 by fastforce

lemma Uint32_safe: "4 \<le> length xs \<Longrightarrow> \<exists>v. Uint32 xs = Inr v"
  using list_4 by fastforce

lemma Uint64_safe: "8 \<le> length xs \<Longrightarrow> \<exists>v. Uint64 xs = Inr v"
  using list_8 by fastforce

text \<open>Putting one more byte above the low \<open>k\<close> bits of a word.\<close>

lemma join_step:
  "take_bit k v OR push_bit k (ucast (ucast (drop_bit k v) :: byte)) = take_bit (k + 8) v"
  for v :: "'a::len word"
proof (rule bit_word_eqI)
  fix n assume n: "n < LENGTH('a)"
  show "bit (take_bit k v OR push_bit k (ucast (ucast (drop_bit k v) :: byte))) n
      = bit (take_bit (k + 8) v) n"
  proof (cases "n < k")
    case True
    then show ?thesis by (simp add: bit_simps)
  next
    case False
    then have "n = k + (n - k)" by simp
    then obtain m where m: "n = k + m" by blast
    with n show ?thesis by (auto simp: bit_simps)
  qed
qed

lemma ucast_ucast_byte: "ucast (ucast v :: byte) = take_bit 8 v" for v :: "'a::len word"
  by (rule bit_word_eqI) (auto simp: bit_simps)

lemma join16: "ucast (ucast v :: byte) OR push_bit 8 (ucast (ucast (drop_bit 8 v) :: byte)) = (v :: int16)"
  using join_step [of 8 v] by (simp add: ucast_ucast_byte [of v] take_bit_word_eq_self)

lemma join32:
  "ucast (ucast v :: byte) OR push_bit 8 (ucast (ucast (drop_bit 8 v) :: byte)) OR
   push_bit 16 (ucast (ucast (drop_bit 16 v) :: byte)) OR
   push_bit 24 (ucast (ucast (drop_bit 24 v) :: byte)) = (v :: int32)"
  using join_step [of 8 v] join_step [of 16 v] join_step [of 24 v]
  by (simp add: ucast_ucast_byte [of v] take_bit_word_eq_self or.assoc [symmetric])

lemma join64:
  "ucast (ucast v :: byte) OR push_bit 8 (ucast (ucast (drop_bit 8 v) :: byte)) OR
   push_bit 16 (ucast (ucast (drop_bit 16 v) :: byte)) OR
   push_bit 24 (ucast (ucast (drop_bit 24 v) :: byte)) OR
   push_bit 32 (ucast (ucast (drop_bit 32 v) :: byte)) OR
   push_bit 40 (ucast (ucast (drop_bit 40 v) :: byte)) OR
   push_bit 48 (ucast (ucast (drop_bit 48 v) :: byte)) OR
   push_bit 56 (ucast (ucast (drop_bit 56 v) :: byte)) = (v :: int64)"
  using join_step [of 8 v] join_step [of 16 v] join_step [of 24 v] join_step [of 32 v]
    join_step [of 40 v] join_step [of 48 v] join_step [of 56 v]
  by (simp add: ucast_ucast_byte [of v] take_bit_word_eq_self or.assoc [symmetric])

lemma safe_ReadInt8 [safe_intros]: "safe ReadInt8"
  by (rule safeI) (auto simp: ReadInt8_def wf_cursor_def split: if_splits list.splits)

lemma safe_ReadInt16 [safe_intros]: "safe ReadInt16"
proof (rule safeI)
  fix c e assume r: "ReadInt16 c = Inl e"
  have "off c + 2 \<le> length (buf c) \<Longrightarrow> 2 \<le> length (drop (off c) (buf c))" by simp
  with r Uint16_safe show "e \<noteq> SlicePanic"
    by (fastforce simp: ReadInt16_def split: if_splits)
qed (auto simp: ReadInt16_def wf_cursor_def split: if_splits sum.splits)

lemma safe_ReadInt32 [safe_intros]: "safe ReadInt32"
proof (rule safeI)
  fix c e assume r: "ReadInt32 c = Inl e"
  have "off c + 4 \<le> length (buf c) \<Longrightarrow> 4 \<le> length (drop (off c) (buf c))" by simp
  with r Uint32_safe show "e \<noteq> SlicePanic"
    by (fastforce simp: ReadInt32_def split: if_splits)
qed (auto simp: ReadInt32_def wf_cursor_def split: if_splits sum.splits)

lemma safe_ReadInt64 [safe_intros]: "safe ReadInt64"
proof (rule safeI)
  fix c e assume r: "ReadInt64 c = Inl e"
  have "off c + 8 \<le> length (buf c) \<Longrightarrow> 8 \<le> length (drop (off c) (buf c))" by simp
  with r Uint64_safe show "e \<noteq> SlicePanic"
    by (fastforce simp: ReadInt64_def split: if_splits)
qed (auto simp: ReadInt64_def wf_cursor_def split: if_splits sum.splits)

lemma yields_True: "yields m (\<lambda>_. True)"
  by (simp add: yields_def)

lemma yields_any: "(\<And>v. yields (f v) Q) \<Longrightarrow> yields (bnd m f) Q"
  by (rule yields_bnd [OF yields_True])

interpretation i8: wire_codec AppendInt8 ReadInt8 "\<lambda>_. True"
  by unfold_locales
    (auto simp: AppendInt8_def ReadInt8_def reads_at_def yields_True safe_ReadInt8)

interpretation i16: wire_codec AppendInt16 ReadInt16 "\<lambda>_. True"
  by unfold_locales
    (auto simp: AppendInt16_def ReadInt16_def reads_at_def yields_True safe_ReadInt16 join16)

interpretation i32: wire_codec AppendInt32 ReadInt32 "\<lambda>_. True"
  by unfold_locales
    (auto simp: AppendInt32_def ReadInt32_def reads_at_def yields_True safe_ReadInt32 join32)

interpretation i64: wire_codec AppendInt64 ReadInt64 "\<lambda>_. True"
  by unfold_locales
    (auto simp: AppendInt64_def ReadInt64_def reads_at_def yields_True safe_ReadInt64 join64)

definition encI8 :: "int8 \<Rightarrow> bytes" where "encI8 v = AppendInt8 [] v"
definition encI16 :: "int16 \<Rightarrow> bytes" where "encI16 v = AppendInt16 [] v"
definition encI32 :: "int32 \<Rightarrow> bytes" where "encI32 v = AppendInt32 [] v"
definition encI64 :: "int64 \<Rightarrow> bytes" where "encI64 v = AppendInt64 [] v"

lemma int_codecs [app_simps]:
  "AppendInt8 dst a = dst @ encI8 a" "AppendInt16 dst b = dst @ encI16 b"
  "AppendInt32 dst c = dst @ encI32 c" "AppendInt64 dst d = dst @ encI64 d"
  by (simp_all add: encI8_def encI16_def encI32_def encI64_def
      AppendInt8_def AppendInt16_def AppendInt32_def AppendInt64_def)

lemma int_reads [rt_intros]:
  "reads_at ReadInt8 (encI8 a) a suf" "reads_at ReadInt16 (encI16 b) b suf"
  "reads_at ReadInt32 (encI32 c) c suf" "reads_at ReadInt64 (encI64 d) d suf"
  using i8.rd_inverts i16.rd_inverts i32.rd_inverts i64.rd_inverts
  by (simp_all add: encI8_def encI16_def encI32_def encI64_def)

lemma int_enc_nonempty [simp]: "encI8 a \<noteq> []" "encI16 b \<noteq> []" "encI32 c \<noteq> []" "encI64 d \<noteq> []"
  by (simp_all add: encI8_def encI16_def encI32_def encI64_def
      AppendInt8_def AppendInt16_def AppendInt32_def AppendInt64_def)

section \<open>Length-delimited data\<close>

lemma safe_takeN [safe_intros]: "safe (takeN n)"
  by (rule safeI) (auto simp: takeN_def goslice_def wf_cursor_def split: if_splits)

lemma safe_Skip [safe_intros]: "safe (Skip n)"
  by (rule safeI) (auto simp: Skip_def wf_cursor_def split: if_splits)

lemma reads_takeN [rt_intros]: "n = length xs \<Longrightarrow> reads_at (takeN n) xs xs suf"
  by (simp add: reads_at_def takeN_def goslice_def)

lemma yields_takeN [yields_intros]: "yields (takeN n) (\<lambda>b. length b = n)"
  by (rule yieldsI) (auto simp: takeN_def goslice_def split: if_splits)

section \<open>Unsigned varints\<close>

lemma safe_uvarintLoop: "safe (uvarintLoop k v sh)"
proof (induction k arbitrary: v sh)
  case 0
  show ?case by (rule safeI) auto
next
  case (Suc k)
  show ?case
  proof (rule safeI)
    fix c e assume c: "wf_cursor c" and r: "uvarintLoop (Suc k) v sh c = Inl e"
    show "e \<noteq> SlicePanic"
    proof (cases "drop (off c) (buf c)")
      case Nil
      with r show ?thesis by (auto split: if_splits)
    next
      case (Cons b bs)
      then have "wf_cursor (c\<lparr>off := off c + 1\<rparr>)"
        using c by (auto simp: wf_cursor_def) (metis drop_all list.discI not_less_eq_eq)
      from safe_no_panic [OF Suc.IH this] r Cons show ?thesis
        by (auto simp: Let_def split: if_splits)
    qed
  next
    fix c w c' assume c: "wf_cursor c" and r: "uvarintLoop (Suc k) v sh c = Inr (w, c')"
    then obtain b bs where b: "drop (off c) (buf c) = b # bs" and "off c < length (buf c)"
      by (auto split: if_splits list.splits)
    then have w: "wf_cursor (c\<lparr>off := off c + 1\<rparr>)" by (simp add: wf_cursor_def)
    show "buf c' = buf c \<and> off c \<le> off c' \<and> wf_cursor c'"
    proof (cases "b AND 0x80 = 0")
      case True
      with r b w \<open>off c < length (buf c)\<close> show ?thesis by auto
    next
      case False
      with r b \<open>off c < length (buf c)\<close>
      have "uvarintLoop k (v OR push_bit sh (ucast (b AND 0x7f))) (sh + 7) (c\<lparr>off := off c + 1\<rparr>) = Inr (w, c')"
        by (simp add: Let_def)
      from safeD [OF Suc.IH w this] show ?thesis by auto
    qed
  qed
qed

lemma safe_ReadUvarint [safe_intros]: "safe ReadUvarint"
  by (simp add: ReadUvarint_def safe_uvarintLoop)

text \<open>The bytes \<open>AppendUvarint\<close> adds, without the destination.\<close>

function encUvarint :: "uint32 \<Rightarrow> bytes" where
  "encUvarint v = (if v \<ge> 0x80 then (ucast v OR 0x80) # encUvarint (drop_bit 7 v) else [ucast v])"
  by pat_completeness auto
termination
  by (relation "measure unat") (auto intro: drop_bit_7_less)

declare encUvarint.simps [simp del]

lemma AppendUvarint_enc [app_simps]: "AppendUvarint dst v = dst @ encUvarint v"
proof (induction dst v rule: AppendUvarint.induct)
  case (1 dst v)
  then show ?case
    by (auto simp: AppendUvarint.simps [of dst v] encUvarint.simps [of v])
qed

lemma and_0x80: "(b :: byte) AND 0x80 = 0 \<longleftrightarrow> \<not> bit b 7"
  using and_exp_eq_0_iff_not_bit [of b 7] by simp

lemma and_0x7f: "(b :: byte) AND 0x7f = take_bit 7 b"
  by (simp add: take_bit_eq_mask mask_eq_exp_minus_1)

lemma bit_0x80: "bit (0x80 :: byte) n \<longleftrightarrow> n = 7"
  using bit_exp_iff [of 7 n, where ?'a = byte] by auto

lemma small_take_bit: "(w :: uint32) < 0x80 \<Longrightarrow> take_bit 7 w = w"
  by (rule unsigned_word_eqI [where ?'a = int])
    (simp add: unsigned_take_bit_eq take_bit_int_eq_self_iff word_less_def)

lemma continuation_byte:
  "bit (ucast (w :: uint32) OR 0x80 :: byte) 7"
  "take_bit 7 (ucast w OR 0x80 :: byte) = take_bit 7 (ucast w)"
  by (simp add: bit_simps bit_0x80) (rule bit_word_eqI, auto simp: bit_simps bit_0x80)

lemma final_byte:
  assumes "(w :: uint32) < 0x80"
  shows "\<not> bit (ucast w :: byte) 7" and "ucast (take_bit 7 (ucast w :: byte)) = w"
proof -
  from assms have w: "take_bit 7 w = w" by (rule small_take_bit)
  then have b: "bit w n \<longleftrightarrow> n < 7 \<and> bit w n" for n by (metis bit_take_bit_iff)
  from b [of 7] show "\<not> bit (ucast w :: byte) 7" by (simp add: bit_simps)
  show "ucast (take_bit 7 (ucast w :: byte)) = w"
  proof (rule bit_word_eqI)
    fix n
    have "bit w n \<Longrightarrow> n < 7" using b [of n] by blast
    then show "bit (ucast (take_bit 7 (ucast w :: byte)) :: uint32) n = bit w n"
      by (auto simp: bit_simps)
  qed
qed

lemma glue_7: "push_bit sh (ucast (take_bit 7 (ucast (w :: uint32) :: byte))) OR push_bit (sh + 7) (drop_bit 7 w) = push_bit sh w"
proof -
  have "ucast (take_bit 7 (ucast w :: byte)) OR push_bit 7 (drop_bit 7 w) = w"
  proof (rule bit_word_eqI)
    fix n assume "n < LENGTH(32)"
    then show "bit (ucast (take_bit 7 (ucast w :: byte)) OR push_bit 7 (drop_bit 7 w)) n = bit w n"
      by (cases "n < 7") (auto simp: bit_simps)
  qed
  then have "push_bit sh (ucast (take_bit 7 (ucast w :: byte)) OR push_bit 7 (drop_bit 7 w)) = push_bit sh w"
    by simp
  then show ?thesis by (simp add: push_bit_or add.commute)
qed

lemma reads_uvarintLoop:
  "unat w < 2 ^ (7 * k) \<Longrightarrow> 0 < k \<Longrightarrow>
   reads_at (uvarintLoop k v sh) (encUvarint w) (v OR push_bit sh w) suf"
proof (induction k arbitrary: v sh w)
  case 0
  then show ?case by simp
next
  case (Suc k)
  show ?case
  proof (cases "w \<ge> 0x80")
    case False
    then have "w < 0x80" by simp
    from final_byte [OF this] False show ?thesis
      by (simp add: reads_at_def encUvarint.simps [of w] Let_def and_0x80 and_0x7f)
  next
    case True
    let ?b = "ucast w OR 0x80 :: byte"
    let ?v = "v OR push_bit sh (ucast (take_bit 7 (ucast w :: byte)))"
    have "unat (drop_bit 7 w) = unat w div 2 ^ 7"
      by (simp add: drop_bit_eq_div unat_div)
    also have "\<dots> < 2 ^ (7 * k)"
      using Suc.prems(1) by (simp add: power_add div_less_iff_less_mult)
    finally have small: "unat (drop_bit 7 w) < 2 ^ (7 * k)" .
    have "0 < k"
      using True Suc.prems(1) by (cases k) (auto simp: word_le_nat_alt)
    from Suc.IH [OF small this, of ?v "sh + 7"]
    have ih: "reads_at (uvarintLoop k ?v (sh + 7)) (encUvarint (drop_bit 7 w)) (v OR push_bit sh w) suf"
      by (simp add: or.assoc glue_7)
    show ?thesis
      unfolding reads_at_def
    proof
      fix pre
      from ih have "uvarintLoop k ?v (sh + 7) \<lparr>buf = (pre @ [?b]) @ encUvarint (drop_bit 7 w) @ suf, off = length (pre @ [?b])\<rparr>
        = Inr (v OR push_bit sh w, \<lparr>buf = (pre @ [?b]) @ encUvarint (drop_bit 7 w) @ suf, off = length (pre @ [?b]) + length (encUvarint (drop_bit 7 w))\<rparr>)"
        unfolding reads_at_def by (rule spec)
      with True show "uvarintLoop (Suc k) v sh \<lparr>buf = pre @ encUvarint w @ suf, off = length pre\<rparr>
        = Inr (v OR push_bit sh w, \<lparr>buf = pre @ encUvarint w @ suf, off = length pre + length (encUvarint w)\<rparr>)"
        by (simp add: encUvarint.simps [of w] Let_def and_0x80 and_0x7f continuation_byte)
    qed
  qed
qed

lemma reads_ReadUvarint [rt_intros]: "reads_at ReadUvarint (encUvarint w) w suf"
proof -
  have "unat w < 2 ^ LENGTH(32)" by (rule unsigned_less)
  also have "\<dots> \<le> (2 :: nat) ^ (7 * 5)" by simp
  finally show ?thesis
    using reads_uvarintLoop [of w 5 0 0 suf] by (simp add: ReadUvarint_def)
qed

lemma enc0: "encUvarint 0 = [0]"
  by (simp add: encUvarint.simps)

lemma encUvarint_nonempty: "encUvarint v \<noteq> []"
  by (subst encUvarint.simps) simp

interpretation uvarint: wire_codec AppendUvarint ReadUvarint "\<lambda>_. True"
  by unfold_locales
    (auto simp: AppendUvarint_enc reads_ReadUvarint yields_True safe_ReadUvarint)

section \<open>Strings and byte strings\<close>

lemma uint_of_len: "n + 1 < 2 ^ 32 \<Longrightarrow> unat (of_nat (n + 1) :: uint32) = n + 1"
  by (simp add: unat_of_nat del: of_nat_Suc of_nat_add)

lemma of_len_nonzero: "n + 1 < 2 ^ 32 \<Longrightarrow> (of_nat (n + 1) :: uint32) \<noteq> 0"
  using uint_of_len by fastforce

lemma sint16_len: "n < 2 ^ 15 \<Longrightarrow> sint (of_nat n :: int16) = int n"
  by (rule sint_of_nat_small) simp

lemma sint32_len: "n < 2 ^ 31 \<Longrightarrow> sint (of_nat n :: int32) = int n"
  by (rule sint_of_nat_small) simp

text \<open>A length prefix followed by that many bytes.\<close>

lemma reads_prefixed:
  assumes "reads_at m xs n (ys @ suf)" and "f n = bnd (takeN (length ys)) (\<lambda>b. ret (g b))"
  shows "reads_at (bnd m f) (xs @ ys) (g ys) suf"
  by (rule reads_at_bnd [OF assms(1)]) (auto simp: assms(2) intro: reads_at_bnd_ret rt_intros)

lemma bnd_ret [simp]: "bnd m ret = m"
  by (rule ext) (auto simp: bnd_def ret_def split: sum.splits prod.splits)

lemma reads_ReadString: "length s < 2 ^ 15 \<Longrightarrow> reads_at ReadString (AppendString [] s) s suf"
  using reads_prefixed [of ReadInt16 "AppendInt16 [] (of_nat (length s))" "of_nat (length s)" "bytes_of_string s" suf _ string_of_bytes]
    i16.rd_inverts [OF TrueI]
  by (simp add: ReadString_def AppendString_def sint16_len)

lemma reads_ReadCompactString:
  "length s + 1 < 2 ^ 32 \<Longrightarrow> reads_at ReadCompactString (AppendCompactString [] s) s suf"
  using reads_prefixed [of ReadUvarint "AppendUvarint [] (of_nat (length s + 1))" "of_nat (length s + 1)" "bytes_of_string s" suf _ string_of_bytes]
    uvarint.rd_inverts [OF TrueI] of_len_nonzero [of "length s"] uint_of_len [of "length s"]
  by (simp add: ReadCompactString_def AppendCompactString_def del: of_nat_Suc of_nat_add)

lemma reads_ReadBytes: "length b < 2 ^ 31 \<Longrightarrow> reads_at ReadBytes (AppendBytes [] b) b suf"
  using reads_prefixed [of ReadInt32 "AppendInt32 [] (of_nat (length b))" "of_nat (length b)" b suf _ "\<lambda>b. b"]
    i32.rd_inverts [OF TrueI]
  by (simp add: ReadBytes_def AppendBytes_def sint32_len)

lemma reads_ReadCompactBytes:
  "length b + 1 < 2 ^ 32 \<Longrightarrow> reads_at ReadCompactBytes (AppendCompactBytes [] b) b suf"
  using reads_prefixed [of ReadUvarint "AppendUvarint [] (of_nat (length b + 1))" "of_nat (length b + 1)" b suf _ "\<lambda>b. b"]
    uvarint.rd_inverts [OF TrueI] of_len_nonzero [of "length b"] uint_of_len [of "length b"]
  by (simp add: ReadCompactBytes_def AppendCompactBytes_def del: of_nat_Suc of_nat_add)

text \<open>The null marker: the reader stops after the length prefix.\<close>

lemma reads_null:
  assumes "reads_at m xs n suf" and "f n = ret v"
  shows "reads_at (bnd m f) xs v suf"
  using reads_at_bnd [of m xs n "[]" suf f v] assms by (simp add: reads_at_ret)

lemma reads_ReadNullableString:
  assumes "nstrOk False (s, isNull)"
  shows "reads_at ReadNullableString (AppendNullableString [] s isNull) (s, isNull) suf"
proof (cases isNull)
  case True
  with assms show ?thesis
    unfolding ReadNullableString_def AppendNullableString_def nstrOk_def nbtsOk_def
    by (auto intro: reads_null i16.rd_inverts [OF TrueI])
next
  case False
  with assms show ?thesis
    using reads_prefixed [of ReadInt16 "AppendInt16 [] (of_nat (length s))" "of_nat (length s)" "bytes_of_string s" suf _ "\<lambda>b. (string_of_bytes b, False)"]
      i16.rd_inverts [OF TrueI]
    by (simp add: ReadNullableString_def AppendNullableString_def AppendString_def nstrOk_def strOk_def sint16_len)
qed

lemma reads_ReadCompactNullableString:
  assumes "nstrOk True (s, isNull)"
  shows "reads_at ReadCompactNullableString (AppendCompactNullableString [] s isNull) (s, isNull) suf"
proof (cases isNull)
  case True
  with assms show ?thesis
    unfolding ReadCompactNullableString_def AppendCompactNullableString_def nstrOk_def nbtsOk_def
    by (auto intro: reads_null uvarint.rd_inverts [OF TrueI])
next
  case False
  with assms show ?thesis
    using reads_prefixed [of ReadUvarint "AppendUvarint [] (of_nat (length s + 1))" "of_nat (length s + 1)" "bytes_of_string s" suf _ "\<lambda>b. (string_of_bytes b, False)"]
      uvarint.rd_inverts [OF TrueI]
      of_len_nonzero [of "length s"] uint_of_len [of "length s"]
    by (simp add: ReadCompactNullableString_def AppendCompactNullableString_def
        AppendCompactString_def nstrOk_def strOk_def del: of_nat_Suc of_nat_add)
qed

lemma reads_ReadNullableBytes:
  assumes "nbtsOk False (b, isNull)"
  shows "reads_at ReadNullableBytes (AppendNullableBytes [] b isNull) (b, isNull) suf"
proof (cases isNull)
  case True
  with assms show ?thesis
    unfolding ReadNullableBytes_def AppendNullableBytes_def nstrOk_def nbtsOk_def
    by (auto intro: reads_null i32.rd_inverts [OF TrueI])
next
  case False
  with assms show ?thesis
    using reads_prefixed [of ReadInt32 "AppendInt32 [] (of_nat (length b))" "of_nat (length b)" b suf _ "\<lambda>b. (b, False)"]
      i32.rd_inverts [OF TrueI]
    by (simp add: ReadNullableBytes_def AppendNullableBytes_def AppendBytes_def nbtsOk_def btsOk_def sint32_len)
qed

lemma reads_ReadCompactNullableBytes:
  assumes "nbtsOk True (b, isNull)"
  shows "reads_at ReadCompactNullableBytes (AppendCompactNullableBytes [] b isNull) (b, isNull) suf"
proof (cases isNull)
  case True
  with assms show ?thesis
    unfolding ReadCompactNullableBytes_def AppendCompactNullableBytes_def nstrOk_def nbtsOk_def
    by (auto intro: reads_null uvarint.rd_inverts [OF TrueI])
next
  case False
  with assms show ?thesis
    using reads_prefixed [of ReadUvarint "AppendUvarint [] (of_nat (length b + 1))" "of_nat (length b + 1)" b suf _ "\<lambda>b. (b, False)"]
      uvarint.rd_inverts [OF TrueI]
      of_len_nonzero [of "length b"] uint_of_len [of "length b"]
    by (simp add: ReadCompactNullableBytes_def AppendCompactNullableBytes_def
        AppendCompactBytes_def nbtsOk_def btsOk_def del: of_nat_Suc of_nat_add)
qed

text \<open>Bounds on a decoded length, from the width of its prefix.\<close>

lemma nat_sint16: "0 \<le> sint (n :: int16) \<Longrightarrow> nat (sint n) < 2 ^ 15"
  using sint_lt [of n] by (simp add: nat_less_iff)

lemma nat_sint32: "0 \<le> sint (n :: int32) \<Longrightarrow> nat (sint n) < 2 ^ 31"
  using sint_lt [of n] by (simp add: nat_less_iff)

lemma unat_uint32: "(n :: uint32) \<noteq> 0 \<Longrightarrow> unat n - 1 + 1 < 2 ^ 32"
  using unsigned_less [of n, where ?'a = nat] unat_eq_zero [of n] by (simp add: Suc_diff_Suc)

lemmas prefixed_bounds = nat_sint16 nat_sint32 unat_uint32

interpretation str: wire_codec "\<lambda>dst s. appendStr dst s flex" "readStr flex" "strOk flex" for flex
proof unfold_locales
  show "appendStr dst x flex = dst @ appendStr [] x flex" for dst x
    by (simp add: appendStr_def AppendCompactString_def AppendString_def AppendUvarint_enc AppendInt16_def)
  show "safe (readStr flex)"
    unfolding readStr_def ReadString_def ReadCompactString_def by (intro safe_intros) simp_all
  show "strOk flex v \<Longrightarrow> reads_at (readStr flex) (appendStr [] v flex) v suf" for v suf
    by (cases flex) (simp_all add: readStr_def appendStr_def strOk_def reads_ReadString reads_ReadCompactString)
  show "yields (readStr flex) (strOk flex)"
    unfolding readStr_def ReadString_def ReadCompactString_def
    by (intro yields_if yields_any yields_fail yields_bnd [OF yields_takeN] yields_ret)
      (use prefixed_bounds in \<open>auto simp: strOk_def\<close>)
qed

interpretation nstr: wire_codec "\<lambda>dst p. appendNStr dst (fst p) (snd p) flex" "readNStr flex" "nstrOk flex"
  for flex
proof unfold_locales
  show "appendNStr dst (fst x) (snd x) flex = dst @ appendNStr [] (fst x) (snd x) flex" for dst x
    by (simp add: appendNStr_def AppendCompactNullableString_def AppendNullableString_def
        AppendCompactString_def AppendString_def AppendUvarint_enc AppendInt16_def)
  show "safe (readNStr flex)"
    unfolding readNStr_def ReadNullableString_def ReadCompactNullableString_def
    by (intro safe_intros)
  show "nstrOk flex v \<Longrightarrow> reads_at (readNStr flex) (appendNStr [] (fst v) (snd v) flex) v suf" for v suf
    using reads_ReadNullableString [of "fst v" "snd v"] reads_ReadCompactNullableString [of "fst v" "snd v"]
    by (cases flex) (simp_all add: readNStr_def appendNStr_def)
  show "yields (readNStr flex) (nstrOk flex)"
    unfolding readNStr_def ReadNullableString_def ReadCompactNullableString_def
    by (intro yields_if yields_any yields_fail yields_bnd [OF yields_takeN] yields_ret)
      (use prefixed_bounds in \<open>auto simp: nstrOk_def strOk_def\<close>)
qed

interpretation bts: wire_codec "\<lambda>dst b. appendBts dst b flex" "readBts flex" "btsOk flex" for flex
proof unfold_locales
  show "appendBts dst x flex = dst @ appendBts [] x flex" for dst x
    by (simp add: appendBts_def AppendCompactBytes_def AppendBytes_def AppendUvarint_enc AppendInt32_def)
  show "safe (readBts flex)"
    unfolding readBts_def ReadBytes_def ReadCompactBytes_def by (intro safe_intros) simp_all
  show "btsOk flex v \<Longrightarrow> reads_at (readBts flex) (appendBts [] v flex) v suf" for v suf
    by (cases flex) (simp_all add: readBts_def appendBts_def btsOk_def reads_ReadBytes reads_ReadCompactBytes)
  show "yields (readBts flex) (btsOk flex)"
    unfolding readBts_def ReadBytes_def ReadCompactBytes_def
    by (intro yields_if yields_any yields_fail yields_mono [OF yields_takeN])
      (use prefixed_bounds in \<open>auto simp: btsOk_def\<close>)
qed

interpretation nbts: wire_codec "\<lambda>dst p. appendNBts dst (fst p) (snd p) flex" "readNBts flex" "nbtsOk flex"
  for flex
proof unfold_locales
  show "appendNBts dst (fst x) (snd x) flex = dst @ appendNBts [] (fst x) (snd x) flex" for dst x
    by (simp add: appendNBts_def AppendCompactNullableBytes_def AppendNullableBytes_def
        AppendCompactBytes_def AppendBytes_def AppendUvarint_enc AppendInt32_def)
  show "safe (readNBts flex)"
    unfolding readNBts_def ReadNullableBytes_def ReadCompactNullableBytes_def
    by (intro safe_intros)
  show "nbtsOk flex v \<Longrightarrow> reads_at (readNBts flex) (appendNBts [] (fst v) (snd v) flex) v suf" for v suf
    using reads_ReadNullableBytes [of "fst v" "snd v"] reads_ReadCompactNullableBytes [of "fst v" "snd v"]
    by (cases flex) (simp_all add: readNBts_def appendNBts_def)
  show "yields (readNBts flex) (nbtsOk flex)"
    unfolding readNBts_def ReadNullableBytes_def ReadCompactNullableBytes_def
    by (intro yields_if yields_any yields_fail yields_bnd [OF yields_takeN] yields_ret)
      (use prefixed_bounds in \<open>auto simp: nbtsOk_def btsOk_def\<close>)
qed

definition encStr :: "bool \<Rightarrow> string \<Rightarrow> bytes" where
  "encStr flex s = appendStr [] s flex"

definition encNStr :: "bool \<Rightarrow> string \<times> bool \<Rightarrow> bytes" where
  "encNStr flex p = appendNStr [] (fst p) (snd p) flex"

definition encBts :: "bool \<Rightarrow> bytes \<Rightarrow> bytes" where
  "encBts flex b = appendBts [] b flex"

definition encNBts :: "bool \<Rightarrow> bytes \<times> bool \<Rightarrow> bytes" where
  "encNBts flex p = appendNBts [] (fst p) (snd p) flex"

lemma text_codecs [app_simps]:
  "appendStr dst s flex = dst @ encStr flex s"
  "appendNStr dst s n flex = dst @ encNStr flex (s, n)"
  "appendBts dst b flex = dst @ encBts flex b"
  "appendNBts dst b n flex = dst @ encNBts flex (b, n)"
  using str.app_append [of dst s] nstr.app_append [of dst "(s, n)"]
    bts.app_append [of dst b] nbts.app_append [of dst "(b, n)"]
  by (simp_all add: encStr_def encNStr_def encBts_def encNBts_def)

lemma text_reads [rt_intros]:
  "strOk flex s \<Longrightarrow> reads_at (readStr flex) (encStr flex s) s suf"
  "nstrOk flex p \<Longrightarrow> reads_at (readNStr flex) (encNStr flex p) p suf"
  "btsOk flex b \<Longrightarrow> reads_at (readBts flex) (encBts flex b) b suf"
  "nbtsOk flex q \<Longrightarrow> reads_at (readNBts flex) (encNBts flex q) q suf"
  using str.rd_inverts nstr.rd_inverts bts.rd_inverts nbts.rd_inverts
  by (simp_all add: encStr_def encNStr_def encBts_def encNBts_def)

lemmas text_yields [yields_steps] =
  yields_bnd [OF str.rd_yields] yields_bnd [OF nstr.rd_yields]
  yields_bnd [OF bts.rd_yields] yields_bnd [OF nbts.rd_yields]
  yields_bnd [OF yields_optF [OF str.rd_yields]] yields_bnd [OF yields_optF [OF nstr.rd_yields]]

section \<open>Tagged fields\<close>

lemma safe_skipTags [safe_intros]: "safe (skipTags n)"
  by (induction n) (auto intro: safe_intros)

lemma safe_SkipTaggedFields [safe_intros]: "safe SkipTaggedFields"
  unfolding SkipTaggedFields_def by (intro safe_intros)

definition encTags :: "bool \<Rightarrow> bytes" where
  "encTags flex = (if flex then [0] else [])"

lemma appendTagsIf_enc [app_simps]: "appendTagsIf dst flex = dst @ encTags flex"
  by (simp add: appendTagsIf_def AppendEmptyTaggedFields_def encTags_def)

lemma safe_skipTagsIf [safe_intros]: "safe (skipTagsIf flex)"
  unfolding skipTagsIf_def by (intro safe_intros)

lemma reads_SkipTaggedFields: "reads_at SkipTaggedFields [0] () suf"
  unfolding SkipTaggedFields_def
  by (rule reads_null [where n = 0]) (use reads_ReadUvarint [of 0] enc0 in auto)

lemma reads_skipTagsIf [rt_intros]: "reads_at (skipTagsIf flex) (encTags flex) () suf"
  by (simp add: skipTagsIf_def encTags_def reads_SkipTaggedFields reads_at_ret)

section \<open>Arrays\<close>

lemma safe_readArrLen [safe_intros]: "safe (readArrLen flex)"
proof -
  have bounded: "safe (\<lambda>c. if n > Remaining c then Inl ErrTruncated else Inr ((n, False), c))" for n
    by (rule safeI) (auto split: if_splits)
  show ?thesis
    unfolding readArrLen_def ReadArrayLen_def ReadCompactArrayLen_def
    by (intro safe_intros bounded) (auto intro: safe_intros split: prod.split)
qed

lemma safe_decodeArr [safe_intros]: "safe rd \<Longrightarrow> safe (decodeArr flex rd)"
  unfolding decodeArr_def by (intro safe_intros)

definition encArrLen :: "bool \<Rightarrow> nat \<Rightarrow> bytes" where
  "encArrLen flex n = appendArrLen [] n flex"

lemma appendArrLen_enc: "appendArrLen dst n flex = dst @ encArrLen flex n"
  by (simp add: encArrLen_def appendArrLen_def AppendCompactArrayLen_def AppendArrayLen_def
      AppendUvarint_enc AppendInt32_def)

lemma reads_readArrLen:
  assumes "arrOk flex n" and "n \<le> length suf"
  shows "reads_at (readArrLen flex) (encArrLen flex n) n suf"
proof (cases flex)
  case True
  with assms have len: "unat (of_nat (Suc n) :: uint32) = Suc n" and nz: "(of_nat (Suc n) :: uint32) \<noteq> 0"
    using uint_of_len [of n] of_len_nonzero [of n] by (auto simp: arrOk_def simp del: of_nat_Suc)
  have "reads_at (\<lambda>c. if n > Remaining c then Inl ErrTruncated else Inr ((n, False), c)) [] (n, False) suf"
    using assms(2) by (simp add: reads_at_def Remaining_def)
  then have "reads_at ReadCompactArrayLen (encUvarint (of_nat (Suc n)) @ []) (n, False) suf"
    unfolding ReadCompactArrayLen_def
    by (intro reads_at_bnd [where v = "of_nat (Suc n)"]) (simp_all add: len nz reads_ReadUvarint del: of_nat_Suc of_nat_add cong: if_cong)
  with True show ?thesis
    using reads_null [of ReadCompactArrayLen _ "(n, False)" suf "\<lambda>(n, isNull). ret n" n]
    by (simp add: readArrLen_def encArrLen_def appendArrLen_def AppendCompactArrayLen_def AppendUvarint_enc)
next
  case False
  with assms have len: "sint (of_nat n :: int32) = int n"
    using sint32_len by (auto simp: arrOk_def)
  have "reads_at (\<lambda>c. if n > Remaining c then Inl ErrTruncated else Inr ((n, False), c)) [] (n, False) suf"
    using assms(2) by (simp add: reads_at_def Remaining_def)
  then have "reads_at ReadArrayLen (AppendInt32 [] (of_nat n) @ []) (n, False) suf"
    unfolding ReadArrayLen_def
    by (intro reads_at_bnd [where v = "of_nat n"]) (simp_all add: len i32.rd_inverts [OF TrueI] cong: if_cong)
  with False show ?thesis
    using reads_null [of ReadArrayLen _ "(n, False)" suf "\<lambda>(n, isNull). ret n" n]
    by (simp add: readArrLen_def encArrLen_def appendArrLen_def AppendArrayLen_def)
qed

text \<open>
  The length that comes back is bounded by the bytes that are left, so a hostile length never
  makes the caller allocate more elements than the frame has bytes.
\<close>

lemma readArrLen_bounded: "readArrLen flex c = Inr (n, c') \<Longrightarrow> n \<le> Remaining c'"
  by (auto simp: readArrLen_def ReadArrayLen_def ReadCompactArrayLen_def bnd_def ret_def
      split: sum.splits if_splits prod.splits)

lemma yields_readArrLen: "yields (readArrLen flex) (arrOk flex)"
proof (rule yieldsI)
  fix c n c' assume r: "readArrLen flex c = Inr (n, c')"
  show "arrOk flex n"
  proof (cases flex)
    case True
    then obtain v where "n = 0 \<or> (v :: uint32) \<noteq> 0 \<and> n = unat v - 1"
      using r by (auto simp: readArrLen_def ReadCompactArrayLen_def bnd_def ret_def
          split: sum.splits if_splits prod.splits)
    with True show ?thesis using unat_uint32 [of v] by (auto simp: arrOk_def)
  next
    case False
    then obtain v where "n = 0 \<or> 0 \<le> sint (v :: int32) \<and> n = nat (sint v)"
      using r by (auto simp: readArrLen_def ReadArrayLen_def bnd_def ret_def not_less
          split: sum.splits if_splits prod.splits)
    with False show ?thesis using nat_sint32 [of v] by (auto simp: arrOk_def)
  qed
qed

definition encArr :: "bool \<Rightarrow> ('a \<Rightarrow> bytes) \<Rightarrow> 'a list \<Rightarrow> bytes" where
  "encArr flex enc xs = encArrLen flex (length xs) @ concat (map enc xs)"

text \<open>An element of an array takes at least one byte: then the bound above never rejects a good array.\<close>

locale wire_elem = wire_codec +
  assumes app_nonempty: "app [] v \<noteq> []"
begin

lemma arr_app: "appendArr flex app dst xs = dst @ encArr flex enc xs"
  by (simp add: appendArr_def encArr_def foldl_app appendArrLen_enc)

lemma arr_rd:
  assumes "list_all ok vs" and "arrOk flex (length vs)"
  shows "reads_at (decodeArr flex rd) (encArr flex enc vs) vs suf"
proof -
  have "length vs \<le> length (concat (map enc vs))"
    using app_nonempty by (intro length_concat_ge) (simp add: enc_def)
  then show ?thesis
    unfolding decodeArr_def encArr_def
    by (intro reads_at_bnd [where v = "length vs"] reads_readArrLen assms rd_loop) simp
qed

lemma arr_yields: "yields (decodeArr flex rd) (\<lambda>xs. list_all ok xs \<and> arrOk flex (length xs))"
  unfolding decodeArr_def
  by (rule yields_bnd [OF yields_readArrLen]) (rule yields_mono [OF loop_yields], simp)

end

section \<open>Facts the codecs share\<close>

interpretation i32e: wire_elem AppendInt32 ReadInt32 "\<lambda>_. True"
  by unfold_locales (simp add: AppendInt32_def)

lemma list_all_True: "list_all (\<lambda>_. True) xs"
  by (simp add: list_all_iff)

lemma i32_enc: "i32.enc = encI32"
  by (rule ext) (simp add: i32.enc_def encI32_def)

lemma safe_text [safe_intros]:
  "safe (readStr flex)" "safe (readNStr flex)" "safe (readBts flex)" "safe (readNBts flex)"
  by (rule str.rd_safe nstr.rd_safe bts.rd_safe nbts.rd_safe)+

lemma append_if: "(if b then dst @ xs else dst) = dst @ (if b then xs else [])"
  by simp

lemma append_if_else: "(if b then dst @ xs else dst @ ys) = dst @ (if b then xs else ys)"
  by simp

lemmas enc_ifs = Let_def append_if append_if_else

lemma encStr_nonempty [simp]: "encStr flex s \<noteq> []"
  by (simp add: encStr_def appendStr_def AppendCompactString_def AppendString_def AppendUvarint_enc
      AppendInt16_def encUvarint_nonempty)

text \<open>The last resort for a field gated by a version: it is the default when it is absent.\<close>

lemmas optF_yields = yields_bnd [OF yields_optF [OF yields_True]]

lemma decodeArr_length:
  assumes "decodeArr flex rd c = Inr (xs, c')" "safe rd" "wf_cursor c"
  shows "length xs \<le> Remaining c"
proof -
  from assms(1) obtain n c1 where n: "readArrLen flex c = Inr (n, c1)" and d: "decodeN n rd c1 = Inr (xs, c')"
    by (auto simp: decodeArr_def bnd_def split: sum.splits)
  have "yields (decodeN n rd) (\<lambda>xs. length xs = n \<and> list_all (\<lambda>_. True) xs)"
    by (rule yields_decodeN [OF yields_True])
  with d have "length xs = n" by (auto dest: yieldsD)
  moreover have "buf c1 = buf c \<and> off c \<le> off c1"
    using safeD [OF safe_readArrLen assms(3) n] by simp
  ultimately show ?thesis using readArrLen_bounded [OF n] by (auto simp: Remaining_def)
qed

lemma encUvarint_length: "unat v < 2 ^ (7 * k) \<Longrightarrow> 0 < k \<Longrightarrow> length (encUvarint v) \<le> k"
proof (induction k arbitrary: v)
  case (Suc k)
  show ?case
  proof (cases "v < 0x80")
    case True
    then have "\<not> 0x80 \<le> v" by (simp add: linorder_not_le)
    then show ?thesis by (subst encUvarint.simps) simp
  next
    case False
    have "128 \<le> unat v" using False by (simp add: word_less_nat_alt)
    moreover have d: "unat (drop_bit 7 v) = unat v div 128"
      by (simp add: drop_bit_eq_div unat_div)
    ultimately have "0 < k" using Suc.prems(1) by (cases k) auto
    moreover have "unat (drop_bit 7 v) < 2 ^ (7 * k)"
      using Suc.prems(1) unfolding d by (simp add: power_add less_mult_imp_div_less mult.commute)
    ultimately have "length (encUvarint (drop_bit 7 v)) \<le> k" using Suc.IH by blast
    then show ?thesis using False by (subst encUvarint.simps) simp
  qed
qed simp

section \<open>Properties\<close>

text \<open>
  An unsigned varint decodes to the value that was appended, whatever follows it, and its
  encoding takes at most the five bytes that the reader accepts.
\<close>

theorem uvarint_roundtrip:
  "run ReadUvarint (AppendUvarint [] v @ suf) = Inr v \<and> length (AppendUvarint [] v) \<le> 5"
proof -
  have "unat v < 2 ^ 35" using unsigned_less [of v, where ?'a = nat] by simp
  then have "length (encUvarint v) \<le> 5" using encUvarint_length [of v 5] by simp
  then show ?thesis using uvarint.roundtrip_trailing [of v suf] by (simp add: AppendUvarint_enc)
qed

text \<open>
  An array that a decoder returns never has more elements than the bytes that were left
  when its length prefix was read, so a hostile length cannot make the decoder allocate more
  than the size of the frame.
\<close>

theorem array_allocation_bounded:
  assumes "decodeArr flex rd c = Inr (xs, c')" "safe rd" "wf_cursor c"
  shows "length xs \<le> Remaining c"
  using decodeArr_length [OF assms] .

theorem array_allocation_bounded_witness:
  "decodeArr False ReadInt32 (NewCursor [0,0,0,1, 0,0,0,7]) = Inr ([7], \<lparr>buf = [0,0,0,1, 0,0,0,7], off = 8\<rparr>) \<and>
   length [7 :: int32] \<le> Remaining (NewCursor [0,0,0,1, 0,0,0,7])"
proof -
  have d: "decodeArr False ReadInt32 (NewCursor [0,0,0,1, 0,0,0,7])
      = Inr ([7], \<lparr>buf = [0,0,0,1, 0,0,0,7], off = 8\<rparr>)" by code_simp
  moreover have "wf_cursor (NewCursor [0,0,0,1, 0,0,0,7])" by (simp add: wf_cursor_def NewCursor_def)
  ultimately show ?thesis using array_allocation_bounded [OF d safe_ReadInt32] by blast
qed

end
