(* ===== verification/Headers.thy ===== *)
theory Headers
  imports Primitives
begin

text \<open>
  \<open>internal/kwire/apikey.go\<close> and \<open>internal/kwire/header.go\<close>: the tables that say from which
  version an API uses flexible headers, and the request and response headers.
\<close>

section \<open>API keys\<close>

definition APIProduce :: int16 where "APIProduce = 0"
definition APIFetch :: int16 where "APIFetch = 1"
definition APIListOffsets :: int16 where "APIListOffsets = 2"
definition APIMetadata :: int16 where "APIMetadata = 3"
definition APIOffsetCommit :: int16 where "APIOffsetCommit = 8"
definition APIOffsetFetch :: int16 where "APIOffsetFetch = 9"
definition APIFindCoordinator :: int16 where "APIFindCoordinator = 10"
definition APIJoinGroup :: int16 where "APIJoinGroup = 11"
definition APIHeartbeat :: int16 where "APIHeartbeat = 12"
definition APILeaveGroup :: int16 where "APILeaveGroup = 13"
definition APISyncGroup :: int16 where "APISyncGroup = 14"
definition APIDescribeGroups :: int16 where "APIDescribeGroups = 15"
definition APIListGroups :: int16 where "APIListGroups = 16"
definition APISaslHandshake :: int16 where "APISaslHandshake = 17"
definition APIApiVersions :: int16 where "APIApiVersions = 18"
definition APISaslAuthenticate :: int16 where "APISaslAuthenticate = 36"

lemmas api_key_defs = APIProduce_def APIFetch_def APIListOffsets_def APIMetadata_def
  APIOffsetCommit_def APIOffsetFetch_def APIFindCoordinator_def APIJoinGroup_def APIHeartbeat_def
  APILeaveGroup_def APISyncGroup_def APIDescribeGroups_def APIListGroups_def APISaslHandshake_def
  APIApiVersions_def APISaslAuthenticate_def

definition flexAtRequest :: "int16 \<rightharpoonup> int16" where
  "flexAtRequest = map_of
     [(APIProduce, 9), (APIFetch, 12), (APIListOffsets, 6), (APIMetadata, 9), (APIOffsetCommit, 8),
      (APIOffsetFetch, 6), (APIFindCoordinator, 3), (APIJoinGroup, 6), (APIHeartbeat, 4),
      (APILeaveGroup, 4), (APISyncGroup, 4), (APIDescribeGroups, 5), (APIListGroups, 3),
      (APISaslHandshake, -1), (APIApiVersions, 3), (APISaslAuthenticate, 2)]"

definition flexAtResponse :: "int16 \<rightharpoonup> int16" where
  "flexAtResponse = map_of
     [(APIProduce, 9), (APIFetch, 12), (APIListOffsets, 6), (APIMetadata, 9), (APIOffsetCommit, 8),
      (APIOffsetFetch, 6), (APIFindCoordinator, 3), (APIJoinGroup, 6), (APIHeartbeat, 4),
      (APILeaveGroup, 4), (APISyncGroup, 4), (APIDescribeGroups, 5), (APIListGroups, 3),
      (APISaslHandshake, -1), (APIApiVersions, -1), (APISaslAuthenticate, 2)]"

definition IsFlexibleRequest :: "int16 \<Rightarrow> int16 \<Rightarrow> bool" where
  "IsFlexibleRequest apiKey version =
     (case flexAtRequest apiKey of
        Some minVer \<Rightarrow> (if sint minVer \<ge> 0 then sint version \<ge> sint minVer else False)
      | None \<Rightarrow> False)"

definition IsFlexibleResponse :: "int16 \<Rightarrow> int16 \<Rightarrow> bool" where
  "IsFlexibleResponse apiKey version =
     (case flexAtResponse apiKey of
        Some minVer \<Rightarrow> (if sint minVer \<ge> 0 then sint version \<ge> sint minVer else False)
      | None \<Rightarrow> False)"

lemmas flexible_defs = IsFlexibleRequest_def IsFlexibleResponse_def flexAtRequest_def flexAtResponse_def
  api_key_defs

section \<open>Request and response headers\<close>

record RequestHeader =
  APIKey :: int16
  APIVersion :: int16
  CorrelID :: int32
  ClientID :: string
  ClientNull :: bool
  HeaderSize :: nat

definition DecodeRequestHeader :: "bytes \<Rightarrow> kerr + RequestHeader" where
  "DecodeRequestHeader body =
     run (bnd ReadInt16 (\<lambda>apiKey.
          bnd ReadInt16 (\<lambda>apiVersion.
          bnd ReadInt32 (\<lambda>correlID.
          bnd ReadNullableString (\<lambda>(s, isNull).
          bnd (skipTagsIf (IsFlexibleRequest apiKey apiVersion)) (\<lambda>u.
          (\<lambda>c. Inr (\<lparr>APIKey = apiKey, APIVersion = apiVersion, CorrelID = correlID,
                     ClientID = s, ClientNull = isNull, HeaderSize = Offset c\<rparr>, c)))))))) body"

definition AppendRequestHeader :: "bytes \<Rightarrow> RequestHeader \<Rightarrow> bytes" where
  "AppendRequestHeader dst h =
     (let dst = AppendInt16 dst (APIKey h);
          dst = AppendInt16 dst (APIVersion h);
          dst = AppendInt32 dst (CorrelID h);
          dst = AppendNullableString dst (ClientID h) (ClientNull h)
      in appendTagsIf dst (IsFlexibleRequest (APIKey h) (APIVersion h)))"

record ResponseHeader =
  RespCorrelID :: int32
  RespHeaderSize :: nat

definition DecodeResponseHeader :: "bytes \<Rightarrow> int16 \<Rightarrow> int16 \<Rightarrow> kerr + ResponseHeader" where
  "DecodeResponseHeader body apiKey apiVersion =
     run (bnd ReadInt32 (\<lambda>correlID.
          bnd (skipTagsIf (IsFlexibleResponse apiKey apiVersion)) (\<lambda>u.
          (\<lambda>c. Inr (\<lparr>RespCorrelID = correlID, RespHeaderSize = Offset c\<rparr>, c))))) body"

definition AppendResponseHeader :: "bytes \<Rightarrow> int16 \<Rightarrow> int16 \<Rightarrow> int32 \<Rightarrow> bytes" where
  "AppendResponseHeader dst apiKey apiVersion correlID =
     appendTagsIf (AppendInt32 dst correlID) (IsFlexibleResponse apiKey apiVersion)"

definition PeekResponseCorrelID :: "bytes \<Rightarrow> kerr + int32" where
  "PeekResponseCorrelID body = run ReadInt32 body"

definition PeekRequestKeyVersion :: "bytes \<Rightarrow> kerr + int16 \<times> int16" where
  "PeekRequestKeyVersion body =
     run (bnd ReadInt16 (\<lambda>apiKey. bnd ReadInt16 (\<lambda>apiVersion. ret (apiKey, apiVersion)))) body"

section \<open>Header lemmas\<close>

lemma safe_view [safe_intros]: "safe (\<lambda>c. Inr (g c, c))"
  by (rule safeI) auto

lemma safe_ReadNullableString [safe_intros]: "safe ReadNullableString"
  using nstr.rd_safe [of False] by (simp add: readNStr_def)

lemma case_prod_bnd: "bnd m (\<lambda>(a, b). f a b) = bnd m (\<lambda>p. f (fst p) (snd p))"
  by (simp add: case_prod_beta')

lemma DecodeRequestHeader_no_panic: "DecodeRequestHeader body \<noteq> Inl SlicePanic"
  unfolding DecodeRequestHeader_def case_prod_bnd
  by (rule safe_run) (intro safe_intros)

lemma DecodeResponseHeader_no_panic: "DecodeResponseHeader body k v \<noteq> Inl SlicePanic"
  unfolding DecodeResponseHeader_def
  by (rule safe_run) (intro safe_intros)

text \<open>
  The bytes of a request header, and what decoding a frame that starts with them returns: the
  header size is the length of those bytes, so the payload starts right behind them.
\<close>

definition encRequestHeader :: "RequestHeader \<Rightarrow> bytes" where
  "encRequestHeader h = AppendRequestHeader [] h"

lemma AppendRequestHeader_enc: "AppendRequestHeader dst h = dst @ encRequestHeader h"
  by (simp add: encRequestHeader_def AppendRequestHeader_def Let_def AppendInt16_def AppendInt32_def
      AppendNullableString_def AppendString_def appendTagsIf_enc)

definition headerOk :: "RequestHeader \<Rightarrow> bool" where
  "headerOk h \<longleftrightarrow> nstrOk False (ClientID h, ClientNull h) \<and> HeaderSize h = length (encRequestHeader h)"

text \<open>Reading at the start of a buffer, when the reader inspects its absolute offset.\<close>

lemma run_bnd:
  "reads_at m xs v suf \<Longrightarrow>
   run (bnd m f) (xs @ suf)
     = (case f v \<lparr>buf = xs @ suf, off = length xs\<rparr> of Inl e \<Rightarrow> Inl e | Inr (w, c') \<Rightarrow> Inr w)"
  unfolding reads_at_def run_def NewCursor_def bnd_def by (drule spec [of _ "[]"]) simp

lemma bnd_at:
  "reads_at m xs v suf \<Longrightarrow> bnd m f \<lparr>buf = pre @ xs @ suf, off = length pre\<rparr>
     = f v \<lparr>buf = pre @ xs @ suf, off = length (pre @ xs)\<rparr>"
  unfolding reads_at_def bnd_def by (drule spec [of _ pre]) simp

lemma DecodeRequestHeader_append:
  assumes "nstrOk False (ClientID h, ClientNull h)"
  shows "DecodeRequestHeader (encRequestHeader h @ payload)
    = Inr (h\<lparr>HeaderSize := length (encRequestHeader h)\<rparr>)"
proof -
  define k where "k = AppendInt16 [] (APIKey h)"
  define v where "v = AppendInt16 [] (APIVersion h)"
  define i where "i = AppendInt32 [] (CorrelID h)"
  define s where "s = AppendNullableString [] (ClientID h) (ClientNull h)"
  define t where "t = encTags (IsFlexibleRequest (APIKey h) (APIVersion h))"
  have enc: "encRequestHeader h = k @ v @ i @ s @ t"
    by (simp add: encRequestHeader_def AppendRequestHeader_def Let_def k_def v_def i_def s_def t_def
        AppendInt16_def AppendInt32_def AppendNullableString_def AppendString_def appendTagsIf_enc)
  note steps = i16.rd_inverts [OF TrueI, of "APIKey h", folded k_def]
    i16.rd_inverts [OF TrueI, of "APIVersion h", folded v_def]
    i32.rd_inverts [OF TrueI, of "CorrelID h", folded i_def]
    reads_ReadNullableString [OF assms, folded s_def]
    reads_skipTagsIf [of "IsFlexibleRequest (APIKey h) (APIVersion h)", folded t_def]
  have "DecodeRequestHeader (k @ v @ i @ s @ t @ payload)
      = Inr (h\<lparr>HeaderSize := length (k @ v @ i @ s @ t)\<rparr>)"
    unfolding DecodeRequestHeader_def
    by (simp add: run_bnd [OF steps(1)] bnd_at [OF steps(2)]
        bnd_at [OF steps(3), of _ "k @ v", simplified] bnd_at [OF steps(4), of _ "k @ v @ i", simplified]
        bnd_at [OF steps(5), of _ "k @ v @ i @ s", simplified] Offset_def)
  then show ?thesis by (simp add: enc)
qed

lemma DecodeResponseHeader_append:
  "DecodeResponseHeader (AppendResponseHeader [] apiKey ver cid @ payload) apiKey ver
    = Inr \<lparr>RespCorrelID = cid, RespHeaderSize = length (AppendResponseHeader [] apiKey ver cid)\<rparr>"
proof -
  define i where "i = AppendInt32 [] cid"
  define t where "t = encTags (IsFlexibleResponse apiKey ver)"
  have enc: "AppendResponseHeader [] apiKey ver cid = i @ t"
    by (simp add: AppendResponseHeader_def i_def t_def appendTagsIf_enc)
  note steps = i32.rd_inverts [OF TrueI, of cid, folded i_def]
    reads_skipTagsIf [of "IsFlexibleResponse apiKey ver", folded t_def]
  have "DecodeResponseHeader (i @ t @ payload) apiKey ver
      = Inr \<lparr>RespCorrelID = cid, RespHeaderSize = length (i @ t)\<rparr>"
    unfolding DecodeResponseHeader_def
    by (simp add: run_bnd [OF steps(1)] bnd_at [OF steps(2)] Offset_def)
  then show ?thesis by (simp add: enc)
qed

section \<open>A header is read from its own bytes\<close>

text \<open>A reader that looks at nothing but the bytes it consumes: it returns the same from those bytes,
  wherever they stand and whatever follows.\<close>

definition own_bytes :: "'a reader \<Rightarrow> bool" where
  "own_bytes m \<longleftrightarrow> (\<forall>c v c'. wf_cursor c \<longrightarrow> m c = Inr (v, c') \<longrightarrow>
     buf c' = buf c \<and> off c \<le> off c' \<and> off c' \<le> length (buf c) \<and>
     (\<forall>suf. reads_at m (take (off c' - off c) (drop (off c) (buf c))) v suf))"

lemma own_bytesI:
  assumes "\<And>c v c'. wf_cursor c \<Longrightarrow> m c = Inr (v, c') \<Longrightarrow>
    \<exists>n. c' = c\<lparr>off := off c + n\<rparr> \<and> off c + n \<le> length (buf c) \<and> (\<forall>suf. reads_at m (take n (drop (off c) (buf c))) v suf)"
  shows "own_bytes m"
  unfolding own_bytes_def using assms by fastforce

lemma own_bytesD:
  assumes "own_bytes m" "wf_cursor c" "m c = Inr (v, c')"
  shows "buf c' = buf c" "off c \<le> off c'" "off c' \<le> length (buf c)"
    and "reads_at m (take (off c' - off c) (drop (off c) (buf c))) v suf"
  using assms unfolding own_bytes_def by blast+

lemma own_ret: "own_bytes (ret v)"
  by (rule own_bytesI) (auto simp: ret_def reads_at_def wf_cursor_def intro!: exI [of _ 0])

lemma own_bnd:
  assumes m: "own_bytes m" and f: "\<And>v. own_bytes (f v)"
  shows "own_bytes (bnd m f)"
  unfolding own_bytes_def
proof (intro allI impI)
  fix c w c'' assume c: "wf_cursor c" and r: "bnd m f c = Inr (w, c'')"
  then obtain v c' where mc: "m c = Inr (v, c')" and fc: "f v c' = Inr (w, c'')"
    by (auto simp: bnd_def split: sum.splits)
  let ?xs = "take (off c' - off c) (drop (off c) (buf c))" and ?ys = "take (off c'' - off c') (drop (off c') (buf c))"
  note 1 = own_bytesD [OF m c mc]
  have "wf_cursor c'" using 1(1,3) by (simp add: wf_cursor_def)
  note 2 = own_bytesD [OF f this fc, unfolded 1(1)]
  obtain i j where "off c' = off c + i" "off c'' = off c' + j"
    using 1(2) 2(2) by (metis le_iff_add)
  then have "take (off c'' - off c) (drop (off c) (buf c)) = ?xs @ ?ys"
    using take_add [of i j "drop (off c) (buf c)"] by (simp add: add.commute [of "off c"])
  moreover have "reads_at (bnd m f) (?xs @ ?ys) w suf" for suf
    by (rule reads_at_bnd) (rule 1(4), rule 2(4))
  ultimately show "buf c'' = buf c \<and> off c \<le> off c'' \<and> off c'' \<le> length (buf c) \<and>
      (\<forall>suf. reads_at (bnd m f) (take (off c'' - off c) (drop (off c) (buf c))) w suf)"
    using 1(2) 2(1,2,3) by simp
qed

lemma own_if: "own_bytes m \<Longrightarrow> own_bytes n \<Longrightarrow> own_bytes (if b then m else n)"
  by simp

lemma own_int16: "own_bytes ReadInt16"
proof (rule own_bytesI)
  fix c v c' assume c: "ReadInt16 c = Inr (v, c')"
  then have "2 \<le> length (drop (off c) (buf c))"
    by (auto simp: ReadInt16_def split: if_splits)
  then obtain a b rest where d: "drop (off c) (buf c) = a # b # rest"
    using list_2 by blast
  with c show "\<exists>n. c' = c\<lparr>off := off c + n\<rparr> \<and> off c + n \<le> length (buf c) \<and>
      (\<forall>suf. reads_at ReadInt16 (take n (drop (off c) (buf c))) v suf)"
    by (intro exI [of _ 2]) (auto simp: ReadInt16_def reads_at_def split: if_splits)
qed

lemma own_int32: "own_bytes ReadInt32"
proof (rule own_bytesI)
  fix c v c' assume c: "ReadInt32 c = Inr (v, c')"
  then have "4 \<le> length (drop (off c) (buf c))"
    by (auto simp: ReadInt32_def split: if_splits)
  then obtain x y z w rest where d: "drop (off c) (buf c) = x # y # z # w # rest"
    using list_4 by blast
  with c show "\<exists>n. c' = c\<lparr>off := off c + n\<rparr> \<and> off c + n \<le> length (buf c) \<and>
      (\<forall>suf. reads_at ReadInt32 (take n (drop (off c) (buf c))) v suf)"
    by (intro exI [of _ 4]) (auto simp: ReadInt32_def reads_at_def numeral_eq_Suc split: if_splits)
qed

lemma own_takeN: "own_bytes (takeN n)"
  by (rule own_bytesI, rule exI [of _ n]) (auto simp: takeN_def goslice_def reads_at_def split: if_splits)

lemma own_skip: "own_bytes (Skip n)"
  by (rule own_bytesI, rule exI [of _ "nat n"]) (auto simp: Skip_def reads_at_def split: if_splits)

lemma own_uvarintLoop: "own_bytes (uvarintLoop k v shift)"
proof (induction k arbitrary: v shift)
  case 0
  show ?case by (rule own_bytesI) simp
next
  case (Suc k)
  have eq: "uvarintLoop (Suc k) v shift = bnd (takeN 1) (\<lambda>bs.
      let v' = v OR push_bit shift (ucast (hd bs AND 0x7f)) in
      if hd bs AND 0x80 = 0 then ret v' else uvarintLoop k v' (shift + 7))"
  proof
    fix c :: Cursor
    show "uvarintLoop (Suc k) v shift c = bnd (takeN 1) (\<lambda>bs.
      let v' = v OR push_bit shift (ucast (hd bs AND 0x7f)) in
      if hd bs AND 0x80 = 0 then ret v' else uvarintLoop k v' (shift + 7)) c"
      by (cases "drop (off c) (buf c)") (auto simp: bnd_def takeN_def goslice_def ret_def Let_def)
  qed
  show ?case unfolding eq Let_def by (intro own_bnd own_takeN own_if own_ret Suc)
qed

lemma own_header:
  "own_bytes (skipTagsIf b)" "own_bytes ReadNullableString"
proof -
  have "own_bytes ReadUvarint" by (simp add: ReadUvarint_def own_uvarintLoop)
  moreover from this have "own_bytes (skipTags n)" for n
    by (induction n) (auto intro!: own_ret own_bnd own_skip)
  ultimately show "own_bytes (skipTagsIf b)"
    by (auto simp: skipTagsIf_def SkipTaggedFields_def intro!: own_ret own_bnd)
  show "own_bytes ReadNullableString"
    unfolding ReadNullableString_def by (intro own_bnd own_if own_ret own_int16 own_takeN)
qed

text \<open>A request keeps its header when the body behind it is replaced.\<close>

lemma DecodeRequestHeader_splice:
  assumes "DecodeRequestHeader body = Inr h"
  shows "DecodeRequestHeader (take (HeaderSize h) body @ req) = Inr h"
proof -
  define m where "m = bnd ReadInt16 (\<lambda>k. bnd ReadInt16 (\<lambda>v. bnd ReadInt32 (\<lambda>i.
     bnd ReadNullableString (\<lambda>sn. bnd (skipTagsIf (IsFlexibleRequest k v)) (\<lambda>u. ret (k, v, i, sn))))))"
  define mk where "mk = (\<lambda>(k, v, i, s, n) sz. \<lparr>APIKey = k, APIVersion = v, CorrelID = i, ClientID = s, ClientNull = n,
     HeaderSize = sz\<rparr>)"
  have eq: "DecodeRequestHeader b = run (bnd m (\<lambda>t c. Inr (mk t (Offset c), c))) b" for b
    by (simp add: DecodeRequestHeader_def m_def mk_def bnd_def ret_def run_def case_prod_unfold split: sum.split)
  have own: "own_bytes m"
    unfolding m_def by (intro own_bnd own_int16 own_int32 own_header own_ret)
  obtain t c where t: "m (NewCursor body) = Inr (t, c)" "h = mk t (off c)"
    using assms unfolding eq by (auto simp: run_def bnd_def Offset_def split: sum.splits)
  have wf: "wf_cursor (NewCursor body)" by (simp add: wf_cursor_def NewCursor_def)
  have "reads_at m (take (off c) body) t req"
    using own_bytesD(4) [OF own wf t(1)] by (simp add: NewCursor_def)
  moreover have "off c \<le> length body" "HeaderSize h = off c"
    using own_bytesD(3) [OF own wf t(1)] t(2) by (simp_all add: NewCursor_def mk_def case_prod_unfold)
  ultimately show ?thesis
    unfolding eq reads_at_def
    by (auto simp: run_def bnd_def NewCursor_def Offset_def t(2) min_def dest!: spec [of _ "[]"])
qed

section \<open>Properties\<close>

definition sampleHeader :: RequestHeader where
  "sampleHeader = \<lparr>APIKey = 3, APIVersion = 12, CorrelID = 42, ClientID = ''cli'', ClientNull = False,
     HeaderSize = 0\<rparr>"

text \<open>
  C23: decoding a frame that starts with an appended request header gives the header back, with
  \<open>HeaderSize\<close> exactly the number of bytes written, so the payload starts behind it; decoding one
  that starts with an appended response header gives the correlation id and the header's size back,
  for every API key and version, ApiVersions (whose response header never has tagged fields)
  included, and peeking at it gives the same correlation id.
\<close>

theorem headers_roundtrip:
  "(nstrOk False (ClientID h, ClientNull h) \<longrightarrow>
      DecodeRequestHeader (AppendRequestHeader [] h @ payload) = Inr (h\<lparr>HeaderSize := length (AppendRequestHeader [] h)\<rparr>)) \<and>
   DecodeResponseHeader (AppendResponseHeader [] apiKey ver cid @ payload) apiKey ver
     = Inr \<lparr>RespCorrelID = cid, RespHeaderSize = length (AppendResponseHeader [] apiKey ver cid)\<rparr> \<and>
   PeekResponseCorrelID (AppendResponseHeader [] apiKey ver cid @ payload) = Inr cid"
  using DecodeRequestHeader_append [of h payload] DecodeResponseHeader_append
    i32.roundtrip_trailing [of cid "encTags (IsFlexibleResponse apiKey ver) @ payload"]
  by (simp add: encRequestHeader_def PeekResponseCorrelID_def AppendResponseHeader_def appendTagsIf_enc)

theorem headers_roundtrip_witness:
  "DecodeRequestHeader (AppendRequestHeader [] sampleHeader @ [1, 2]) = Inr (sampleHeader\<lparr>HeaderSize := 14\<rparr>)"
proof -
  have "nstrOk False (ClientID sampleHeader, ClientNull sampleHeader)"
    by (simp add: sampleHeader_def fits_defs)
  moreover have "length (AppendRequestHeader [] sampleHeader) = 14" by code_simp
  ultimately show ?thesis using headers_roundtrip [of sampleHeader "[1, 2]"] by simp
qed

end
