(* ===== verification/MetadataCodec.thy ===== *)
theory MetadataCodec
  imports Headers
begin

text \<open>
  \<open>internal/kwire/metadata.go\<close>: the Metadata response of versions 0 to 12.  Every structure has
  its decoder, its appender and its well-formedness predicate (what fits the length prefixes, and
  fields that the version does not carry at the value the decoder leaves in them).  The
  interpretations at the end make each pair a \<open>wire_codec\<close>.
\<close>

section \<open>Data\<close>

record MetadataBroker =
  mbNodeID :: int32
  mbHost :: string
  mbPort :: int32
  mbRack :: string
  mbRackNull :: bool

record MetadataPartition =
  mpErrorCode :: int16
  mpPartitionIndex :: int32
  mpLeaderID :: int32
  mpLeaderEpoch :: int32
  mpReplicaNodes :: "int32 list"
  mpIsrNodes :: "int32 list"
  mpOfflineReplicas :: "int32 list"

record MetadataTopic =
  mtErrorCode :: int16
  mtName :: string
  mtNameNull :: bool
  mtTopicID :: bytes
  mtIsInternal :: bool
  mtPartitions :: "MetadataPartition list"
  mtAuthorizedOperations :: int32

record MetadataResponse =
  mrVersion :: int16
  mrThrottleTimeMs :: int32
  mrBrokers :: "MetadataBroker list"
  mrClusterID :: string
  mrClusterIDNull :: bool
  mrControllerID :: int32
  mrTopics :: "MetadataTopic list"
  mrClusterAuthorizedOperations :: int32

section \<open>Decoders\<close>

definition decodeInt32Array :: "bool \<Rightarrow> int32 list reader" where
  "decodeInt32Array flex = decodeArr flex ReadInt32"

definition decodeMetadataBroker :: "int16 \<Rightarrow> bool \<Rightarrow> MetadataBroker reader" where
  "decodeMetadataBroker version flex =
     bnd ReadInt32 (\<lambda>id.
     bnd (readStr flex) (\<lambda>host.
     bnd ReadInt32 (\<lambda>port.
     bnd (optF (sint version \<ge> 1) (readNStr flex) ('''', False)) (\<lambda>rack.
     bnd (skipTagsIf flex) (\<lambda>u.
     ret \<lparr>mbNodeID = id, mbHost = host, mbPort = port, mbRack = fst rack, mbRackNull = snd rack\<rparr>)))))"

definition decodeMetadataPartition :: "int16 \<Rightarrow> bool \<Rightarrow> MetadataPartition reader" where
  "decodeMetadataPartition version flex =
     bnd ReadInt16 (\<lambda>ec.
     bnd ReadInt32 (\<lambda>idx.
     bnd ReadInt32 (\<lambda>leader.
     bnd (optF (sint version \<ge> 7) ReadInt32 (-1)) (\<lambda>epoch.
     bnd (decodeInt32Array flex) (\<lambda>replicas.
     bnd (decodeInt32Array flex) (\<lambda>isr.
     bnd (optF (sint version \<ge> 5) (decodeInt32Array flex) []) (\<lambda>offline.
     bnd (skipTagsIf flex) (\<lambda>u.
     ret \<lparr>mpErrorCode = ec, mpPartitionIndex = idx, mpLeaderID = leader, mpLeaderEpoch = epoch,
          mpReplicaNodes = replicas, mpIsrNodes = isr, mpOfflineReplicas = offline\<rparr>))))))))"

text \<open>
  The topic id is copied out of the buffer: \<open>Remaining < 16\<close> is checked, then
  \<open>Bytes()[Offset() : Offset()+16]\<close> is sliced and \<open>Skip(16)\<close> advances.
\<close>

definition readTopicID :: "bytes reader" where
  "readTopicID c =
     (if Remaining c < 16 then Inl ErrTruncated
      else case goslice (Bytes c) (Offset c) (Offset c + 16) of
             Inl e \<Rightarrow> Inl e
           | Inr raw \<Rightarrow> bnd (Skip 16) (\<lambda>u. ret raw) c)"

definition zeroTopicID :: bytes where
  "zeroTopicID = replicate 16 0"

definition readTopicName :: "int16 \<Rightarrow> bool \<Rightarrow> (string \<times> bool) reader" where
  "readTopicName version flex =
     (if sint version \<ge> 12 then readNStr flex
      else bnd (readStr flex) (\<lambda>s. ret (s, False)))"

definition decodeMetadataTopic :: "int16 \<Rightarrow> bool \<Rightarrow> MetadataTopic reader" where
  "decodeMetadataTopic version flex =
     bnd ReadInt16 (\<lambda>ec.
     bnd (readTopicName version flex) (\<lambda>name.
     bnd (optF (sint version \<ge> 10) readTopicID zeroTopicID) (\<lambda>tid.
     bnd (optF (sint version \<ge> 1) (bnd ReadInt8 (\<lambda>b. ret (b \<noteq> 0))) False) (\<lambda>internal.
     bnd (decodeArr flex (decodeMetadataPartition version flex)) (\<lambda>parts.
     bnd (optF (sint version \<ge> 8) ReadInt32 0) (\<lambda>ops.
     bnd (skipTagsIf flex) (\<lambda>u.
     ret \<lparr>mtErrorCode = ec, mtName = fst name, mtNameNull = snd name, mtTopicID = tid,
          mtIsInternal = internal, mtPartitions = parts, mtAuthorizedOperations = ops\<rparr>)))))))"

definition decodeMetadataBody :: "int16 \<Rightarrow> MetadataResponse reader" where
  "decodeMetadataBody version =
     (let flex = IsFlexibleResponse APIMetadata version in
      bnd (optF (sint version \<ge> 3) ReadInt32 0) (\<lambda>throttle.
      bnd (decodeArr flex (decodeMetadataBroker version flex)) (\<lambda>brokers.
      bnd (optF (sint version \<ge> 2) (readNStr flex) ('''', False)) (\<lambda>cluster.
      bnd (optF (sint version \<ge> 1) ReadInt32 (-1)) (\<lambda>ctrl.
      bnd (decodeArr flex (decodeMetadataTopic version flex)) (\<lambda>topics.
      bnd (optF (sint version \<ge> 8 \<and> sint version \<le> 10) ReadInt32 0) (\<lambda>ops.
      bnd (skipTagsIf flex) (\<lambda>u.
      ret \<lparr>mrVersion = version, mrThrottleTimeMs = throttle, mrBrokers = brokers,
           mrClusterID = fst cluster, mrClusterIDNull = snd cluster, mrControllerID = ctrl,
           mrTopics = topics, mrClusterAuthorizedOperations = ops\<rparr>))))))))"

definition DecodeMetadataResponse :: "bytes \<Rightarrow> int16 \<Rightarrow> kerr + MetadataResponse" where
  "DecodeMetadataResponse body version = run (decodeMetadataBody version) body"

section \<open>Appenders\<close>

definition appendInt32Array :: "bytes \<Rightarrow> int32 list \<Rightarrow> bool \<Rightarrow> bytes" where
  "appendInt32Array dst xs flex = appendArr flex AppendInt32 dst xs"

definition appendMetadataBroker :: "bytes \<Rightarrow> MetadataBroker \<Rightarrow> int16 \<Rightarrow> bool \<Rightarrow> bytes" where
  "appendMetadataBroker dst b version flex =
     (let dst = AppendInt32 dst (mbNodeID b);
          dst = appendStr dst (mbHost b) flex;
          dst = AppendInt32 dst (mbPort b);
          dst = (if sint version \<ge> 1 then appendNStr dst (mbRack b) (mbRackNull b) flex else dst)
      in appendTagsIf dst flex)"

definition appendMetadataPartition :: "bytes \<Rightarrow> MetadataPartition \<Rightarrow> int16 \<Rightarrow> bool \<Rightarrow> bytes" where
  "appendMetadataPartition dst p version flex =
     (let dst = AppendInt16 dst (mpErrorCode p);
          dst = AppendInt32 dst (mpPartitionIndex p);
          dst = AppendInt32 dst (mpLeaderID p);
          dst = (if sint version \<ge> 7 then AppendInt32 dst (mpLeaderEpoch p) else dst);
          dst = appendInt32Array dst (mpReplicaNodes p) flex;
          dst = appendInt32Array dst (mpIsrNodes p) flex;
          dst = (if sint version \<ge> 5 then appendInt32Array dst (mpOfflineReplicas p) flex else dst)
      in appendTagsIf dst flex)"

definition appendMetadataTopic :: "bytes \<Rightarrow> MetadataTopic \<Rightarrow> int16 \<Rightarrow> bool \<Rightarrow> bytes" where
  "appendMetadataTopic dst t version flex =
     (let dst = AppendInt16 dst (mtErrorCode t);
          dst = (if sint version \<ge> 12 then appendNStr dst (mtName t) (mtNameNull t) flex
                 else appendStr dst (mtName t) flex);
          dst = (if sint version \<ge> 10 then dst @ mtTopicID t else dst);
          dst = (if sint version \<ge> 1 then AppendInt8 dst (if mtIsInternal t then 1 else 0) else dst);
          dst = appendArr flex (\<lambda>dst p. appendMetadataPartition dst p version flex) dst (mtPartitions t);
          dst = (if sint version \<ge> 8 then AppendInt32 dst (mtAuthorizedOperations t) else dst)
      in appendTagsIf dst flex)"

definition AppendMetadataResponse :: "bytes \<Rightarrow> MetadataResponse \<Rightarrow> bytes" where
  "AppendMetadataResponse dst r =
     (let version = mrVersion r;
          flex = IsFlexibleResponse APIMetadata version;
          dst = (if sint version \<ge> 3 then AppendInt32 dst (mrThrottleTimeMs r) else dst);
          dst = appendArr flex (\<lambda>dst b. appendMetadataBroker dst b version flex) dst (mrBrokers r);
          dst = (if sint version \<ge> 2 then appendNStr dst (mrClusterID r) (mrClusterIDNull r) flex else dst);
          dst = (if sint version \<ge> 1 then AppendInt32 dst (mrControllerID r) else dst);
          dst = appendArr flex (\<lambda>dst t. appendMetadataTopic dst t version flex) dst (mrTopics r);
          dst = (if sint version \<ge> 8 \<and> sint version \<le> 10
                 then AppendInt32 dst (mrClusterAuthorizedOperations r) else dst)
      in appendTagsIf dst flex)"

section \<open>Well-formedness\<close>

definition wfMetadataBroker :: "int16 \<Rightarrow> bool \<Rightarrow> MetadataBroker \<Rightarrow> bool" where
  "wfMetadataBroker version flex b \<longleftrightarrow>
     strOk flex (mbHost b) \<and>
     (if sint version \<ge> 1 then nstrOk flex (mbRack b, mbRackNull b)
      else (mbRack b, mbRackNull b) = ('''', False))"

definition wfMetadataPartition :: "int16 \<Rightarrow> bool \<Rightarrow> MetadataPartition \<Rightarrow> bool" where
  "wfMetadataPartition version flex p \<longleftrightarrow>
     arrOk flex (length (mpReplicaNodes p)) \<and> arrOk flex (length (mpIsrNodes p)) \<and>
     (if sint version \<ge> 7 then True else mpLeaderEpoch p = -1) \<and>
     (if sint version \<ge> 5 then arrOk flex (length (mpOfflineReplicas p)) else mpOfflineReplicas p = [])"

definition wfTopicName :: "int16 \<Rightarrow> bool \<Rightarrow> string \<times> bool \<Rightarrow> bool" where
  "wfTopicName version flex p \<longleftrightarrow>
     (if sint version \<ge> 12 then nstrOk flex p else strOk flex (fst p) \<and> \<not> snd p)"

definition wfMetadataTopic :: "int16 \<Rightarrow> bool \<Rightarrow> MetadataTopic \<Rightarrow> bool" where
  "wfMetadataTopic version flex t \<longleftrightarrow>
     wfTopicName version flex (mtName t, mtNameNull t) \<and>
     (if sint version \<ge> 10 then length (mtTopicID t) = 16 else mtTopicID t = zeroTopicID) \<and>
     (if sint version \<ge> 1 then True else \<not> mtIsInternal t) \<and>
     list_all (wfMetadataPartition version flex) (mtPartitions t) \<and>
     arrOk flex (length (mtPartitions t)) \<and>
     (if sint version \<ge> 8 then True else mtAuthorizedOperations t = 0)"

definition wfMetadataResponse :: "MetadataResponse \<Rightarrow> bool" where
  "wfMetadataResponse r \<longleftrightarrow>
     (let version = mrVersion r; flex = IsFlexibleResponse APIMetadata version in
      (if sint version \<ge> 3 then True else mrThrottleTimeMs r = 0) \<and>
      list_all (wfMetadataBroker version flex) (mrBrokers r) \<and> arrOk flex (length (mrBrokers r)) \<and>
      (if sint version \<ge> 2 then nstrOk flex (mrClusterID r, mrClusterIDNull r)
       else (mrClusterID r, mrClusterIDNull r) = ('''', False)) \<and>
      (if sint version \<ge> 1 then True else mrControllerID r = -1) \<and>
      list_all (wfMetadataTopic version flex) (mrTopics r) \<and> arrOk flex (length (mrTopics r)) \<and>
      (if sint version \<ge> 8 \<and> sint version \<le> 10 then True else mrClusterAuthorizedOperations r = 0))"

section \<open>Codecs\<close>

lemma appendInt32Array_enc [app_simps]: "appendInt32Array dst xs flex = dst @ encArr flex encI32 xs"
  by (simp add: appendInt32Array_def i32e.arr_app i32_enc)

lemma safe_decodeInt32Array [safe_intros]: "safe (decodeInt32Array flex)"
  unfolding decodeInt32Array_def by (intro safe_intros)

lemma reads_decodeInt32Array [rt_intros]:
  "arrOk flex (length xs) \<Longrightarrow> reads_at (decodeInt32Array flex) (encArr flex encI32 xs) xs suf"
  unfolding decodeInt32Array_def i32_enc [symmetric]
  by (rule i32e.arr_rd) (simp_all add: list_all_True)

lemma yields_decodeInt32Array: "yields (decodeInt32Array flex) (\<lambda>xs. arrOk flex (length xs))"
  unfolding decodeInt32Array_def by (rule yields_mono [OF i32e.arr_yields]) simp

lemma safe_readTopicID [safe_intros]: "safe readTopicID"
  by (rule safeI)
    (auto simp: readTopicID_def Skip_def bnd_def ret_def goslice_def wf_cursor_def Remaining_def
      Offset_def Bytes_def split: if_splits)

lemma reads_readTopicID [rt_intros]: "length xs = 16 \<Longrightarrow> reads_at readTopicID xs xs suf"
  by (simp add: reads_at_def readTopicID_def Skip_def bnd_def ret_def goslice_def Remaining_def
      Offset_def Bytes_def)

lemma yields_readTopicID: "yields readTopicID (\<lambda>xs. length xs = 16)"
  by (rule yieldsI) (auto simp: readTopicID_def Skip_def bnd_def ret_def goslice_def Remaining_def
      Offset_def Bytes_def split: if_splits)

interpretation mbroker: wire_elem "\<lambda>dst b. appendMetadataBroker dst b ver flex"
  "decodeMetadataBroker ver flex" "wfMetadataBroker ver flex" for ver flex
proof unfold_locales
  show "appendMetadataBroker dst b ver flex = dst @ appendMetadataBroker [] b ver flex" for dst b
    unfolding appendMetadataBroker_def app_simps enc_ifs by simp
  show "safe (decodeMetadataBroker ver flex)"
    unfolding decodeMetadataBroker_def by (intro safe_intros)
  show "reads_at (decodeMetadataBroker ver flex) (appendMetadataBroker [] b ver flex) b suf"
    if "wfMetadataBroker ver flex b" for b suf
    unfolding decodeMetadataBroker_def appendMetadataBroker_def app_simps enc_ifs
    unfolding append_assoc append_Nil
    by ((rule reads_at_bnd_ret reads_at_bnd rt_intros
        | (use that in \<open>auto simp: wfMetadataBroker_def split: if_splits\<close>)[1])+)
  show "yields (decodeMetadataBroker ver flex) (wfMetadataBroker ver flex)"
    unfolding decodeMetadataBroker_def
    by ((rule yields_ret yields_steps optF_yields yields_any)+) (auto simp: wfMetadataBroker_def split: if_splits)
  show "appendMetadataBroker [] b ver flex \<noteq> []" for b
    unfolding appendMetadataBroker_def app_simps enc_ifs by simp
qed

lemma safe_readTopicName [safe_intros]: "safe (readTopicName ver flex)"
  unfolding readTopicName_def by (intro safe_intros)

lemma reads_readTopicName [rt_intros]:
  assumes "wfTopicName ver flex (s, n)"
  shows "reads_at (readTopicName ver flex)
    (if sint ver \<ge> 12 then encNStr flex (s, n) else encStr flex s) (s, n) suf"
  using assms unfolding readTopicName_def wfTopicName_def
  by (auto intro!: text_reads reads_at_bnd_ret [where v = s])

lemma yields_readTopicName: "yields (readTopicName ver flex) (wfTopicName ver flex)"
  unfolding readTopicName_def
  by (intro yields_if yields_mono [OF nstr.rd_yields] yields_bnd [OF str.rd_yields] yields_ret)
    (auto simp: wfTopicName_def)

lemmas topic_field_yields [yields_steps] = yields_bnd [OF yields_readTopicName]

lemmas int32_array_yields [yields_steps] =
  yields_bnd [OF yields_decodeInt32Array] yields_bnd [OF yields_optF [OF yields_decodeInt32Array]]
  yields_bnd [OF yields_optF [OF yields_readTopicID]]

interpretation mpartition: wire_elem "\<lambda>dst p. appendMetadataPartition dst p ver flex"
  "decodeMetadataPartition ver flex" "wfMetadataPartition ver flex" for ver flex
proof unfold_locales
  show "appendMetadataPartition dst p ver flex = dst @ appendMetadataPartition [] p ver flex" for dst p
    unfolding appendMetadataPartition_def app_simps enc_ifs by simp
  show "safe (decodeMetadataPartition ver flex)"
    unfolding decodeMetadataPartition_def by (intro safe_intros)
  show "reads_at (decodeMetadataPartition ver flex) (appendMetadataPartition [] p ver flex) p suf"
    if "wfMetadataPartition ver flex p" for p suf
    unfolding decodeMetadataPartition_def appendMetadataPartition_def app_simps enc_ifs
    unfolding append_assoc append_Nil
    by ((rule reads_at_bnd_ret reads_at_bnd rt_intros
        | (use that in \<open>auto simp: wfMetadataPartition_def split: if_splits\<close>)[1])+)
  show "yields (decodeMetadataPartition ver flex) (wfMetadataPartition ver flex)"
    unfolding decodeMetadataPartition_def
    by ((rule yields_ret yields_steps optF_yields yields_any)+) (auto simp: wfMetadataPartition_def split: if_splits)
  show "appendMetadataPartition [] p ver flex \<noteq> []" for p
    unfolding appendMetadataPartition_def app_simps enc_ifs by simp
qed

lemmas mpartition_array = mpartition.arr_app [app_simps] mpartition.arr_rd [rt_intros]
  yields_bnd [OF mpartition.arr_yields, yields_steps]

interpretation mtopic: wire_elem "\<lambda>dst t. appendMetadataTopic dst t ver flex"
  "decodeMetadataTopic ver flex" "wfMetadataTopic ver flex" for ver flex
proof unfold_locales
  show "appendMetadataTopic dst t ver flex = dst @ appendMetadataTopic [] t ver flex" for dst t
    unfolding appendMetadataTopic_def app_simps enc_ifs by simp
  show "safe (decodeMetadataTopic ver flex)"
    unfolding decodeMetadataTopic_def by (intro safe_intros mpartition.rd_safe)
  show "reads_at (decodeMetadataTopic ver flex) (appendMetadataTopic [] t ver flex) t suf"
    if "wfMetadataTopic ver flex t" for t suf
    unfolding decodeMetadataTopic_def appendMetadataTopic_def app_simps enc_ifs
    unfolding append_assoc append_Nil
    by ((rule reads_at_bnd_ret reads_at_bnd rt_intros
        | (use that in \<open>auto simp: wfMetadataTopic_def split: if_splits\<close>)[1])+)
  show "yields (decodeMetadataTopic ver flex) (wfMetadataTopic ver flex)"
    unfolding decodeMetadataTopic_def
    by ((rule yields_ret yields_steps optF_yields yields_any)+) (auto simp: wfMetadataTopic_def split: if_splits)
  show "appendMetadataTopic [] t ver flex \<noteq> []" for t
    unfolding appendMetadataTopic_def app_simps enc_ifs by simp
qed

lemmas metadata_arrays = mtopic.arr_app [app_simps] mtopic.arr_rd [rt_intros]
  yields_bnd [OF mtopic.arr_yields, yields_steps]
  mbroker.arr_app [app_simps] mbroker.arr_rd [rt_intros]
  yields_bnd [OF mbroker.arr_yields, yields_steps]

interpretation mresponse: wire_codec AppendMetadataResponse "decodeMetadataBody ver"
  "\<lambda>r. mrVersion r = ver \<and> wfMetadataResponse r" for ver
proof unfold_locales
  show "AppendMetadataResponse dst r = dst @ AppendMetadataResponse [] r" for dst r
    unfolding AppendMetadataResponse_def app_simps enc_ifs by simp
  show "safe (decodeMetadataBody ver)"
    unfolding decodeMetadataBody_def Let_def by (intro safe_intros mbroker.rd_safe mtopic.rd_safe)
  show "reads_at (decodeMetadataBody ver) (AppendMetadataResponse [] r) r suf"
    if "mrVersion r = ver \<and> wfMetadataResponse r" for r suf
  proof -
    from that have v: "ver = mrVersion r" and w: "wfMetadataResponse r" by auto
    show ?thesis
      unfolding v decodeMetadataBody_def AppendMetadataResponse_def app_simps enc_ifs
      unfolding append_assoc append_Nil
      by ((rule reads_at_bnd_ret reads_at_bnd rt_intros
          | (use w in \<open>auto simp: wfMetadataResponse_def Let_def split: if_splits\<close>)[1])+)
  qed
  show "yields (decodeMetadataBody ver) (\<lambda>r. mrVersion r = ver \<and> wfMetadataResponse r)"
    unfolding decodeMetadataBody_def Let_def
    by ((rule yields_ret yields_steps optF_yields yields_any)+) (auto simp: wfMetadataResponse_def Let_def split: if_splits)
qed

section \<open>Properties\<close>

definition sampleMetadata :: MetadataResponse where
  "sampleMetadata = \<lparr>mrVersion = 12, mrThrottleTimeMs = 0,
     mrBrokers = [\<lparr>mbNodeID = 1, mbHost = ''b'', mbPort = 9092, mbRack = '''', mbRackNull = True\<rparr>],
     mrClusterID = ''c'', mrClusterIDNull = False, mrControllerID = 1,
     mrTopics = [\<lparr>mtErrorCode = 0, mtName = ''t'', mtNameNull = False, mtTopicID = zeroTopicID,
       mtIsInternal = True,
       mtPartitions = [\<lparr>mpErrorCode = 0, mpPartitionIndex = 0, mpLeaderID = 1, mpLeaderEpoch = 7,
         mpReplicaNodes = [1, 2], mpIsrNodes = [1], mpOfflineReplicas = [2]\<rparr>],
       mtAuthorizedOperations = 0\<rparr>],
     mrClusterAuthorizedOperations = 0\<rparr>"

text \<open>
  C20: for every version, decoding the bytes that \<open>AppendMetadataResponse\<close> writes for a well-formed
  response gives the response back, field by field, whatever bytes follow it in the frame.
\<close>

theorem metadata_roundtrip:
  assumes "wfMetadataResponse r"
  shows "DecodeMetadataResponse (AppendMetadataResponse [] r @ suf) (mrVersion r) = Inr r"
  unfolding DecodeMetadataResponse_def using assms by (intro mresponse.roundtrip_trailing) simp

theorem metadata_roundtrip_witness:
  "wfMetadataResponse sampleMetadata \<and>
   DecodeMetadataResponse (AppendMetadataResponse [] sampleMetadata @ [255]) 12 = Inr sampleMetadata"
proof -
  have "wfMetadataResponse sampleMetadata"
    by (simp add: sampleMetadata_def wfMetadataResponse_def wfMetadataBroker_def wfMetadataTopic_def
        wfMetadataPartition_def wfTopicName_def zeroTopicID_def fits_defs flexible_defs)
  with metadata_roundtrip [OF this, of "[255]"] show ?thesis by (simp add: sampleMetadata_def)
qed

end
