(* ===== verification/FindCoordinatorCodec.thy ===== *)
theory FindCoordinatorCodec
  imports Headers
begin

text \<open>
  \<open>internal/kwire/findcoord.go\<close>: the FindCoordinator response, in its single-coordinator shape
  (versions 0 to 3) and its multi-coordinator shape (version 4 on).
\<close>

record FindCoordinatorEntry =
  feKey :: string
  feNodeID :: int32
  feHost :: string
  fePort :: int32
  feErrorCode :: int16
  feErrorMessage :: string
  feErrorMessageNull :: bool

record FindCoordinatorResponse =
  fcVersion :: int16
  fcThrottleTimeMs :: int32
  fcErrorCode :: int16
  fcErrorMessage :: string
  fcErrorMessageNull :: bool
  fcNodeID :: int32
  fcHost :: string
  fcPort :: int32
  fcCoordinators :: "FindCoordinatorEntry list"

definition decodeFindCoordEntry :: "bool \<Rightarrow> FindCoordinatorEntry reader" where
  "decodeFindCoordEntry flex =
     bnd (readStr flex) (\<lambda>key.
     bnd ReadInt32 (\<lambda>node.
     bnd (readStr flex) (\<lambda>host.
     bnd ReadInt32 (\<lambda>port.
     bnd ReadInt16 (\<lambda>ec.
     bnd (readNStr flex) (\<lambda>msg.
     bnd (skipTagsIf flex) (\<lambda>u.
     ret \<lparr>feKey = key, feNodeID = node, feHost = host, fePort = port, feErrorCode = ec,
          feErrorMessage = fst msg, feErrorMessageNull = snd msg\<rparr>)))))))"

text \<open>The two shapes: the fields of the other shape keep their zero values.\<close>

definition decodeFindCoordSingle :: "int16 \<Rightarrow> bool \<Rightarrow> int32 \<Rightarrow> FindCoordinatorResponse reader" where
  "decodeFindCoordSingle version flex throttle =
     bnd ReadInt16 (\<lambda>ec.
     bnd (optF (sint version \<ge> 1) (readNStr flex) ('''', False)) (\<lambda>msg.
     bnd ReadInt32 (\<lambda>node.
     bnd (readStr flex) (\<lambda>host.
     bnd ReadInt32 (\<lambda>port.
     bnd (skipTagsIf flex) (\<lambda>u.
     ret \<lparr>fcVersion = version, fcThrottleTimeMs = throttle, fcErrorCode = ec,
          fcErrorMessage = fst msg, fcErrorMessageNull = snd msg, fcNodeID = node,
          fcHost = host, fcPort = port, fcCoordinators = []\<rparr>))))))"

definition decodeFindCoordMulti :: "int16 \<Rightarrow> bool \<Rightarrow> int32 \<Rightarrow> FindCoordinatorResponse reader" where
  "decodeFindCoordMulti version flex throttle =
     bnd (decodeArr flex (decodeFindCoordEntry flex)) (\<lambda>coords.
     bnd (skipTagsIf flex) (\<lambda>u.
     ret \<lparr>fcVersion = version, fcThrottleTimeMs = throttle, fcErrorCode = 0, fcErrorMessage = '''',
          fcErrorMessageNull = False, fcNodeID = 0, fcHost = '''', fcPort = 0,
          fcCoordinators = coords\<rparr>))"

definition decodeFindCoordBody :: "int16 \<Rightarrow> FindCoordinatorResponse reader" where
  "decodeFindCoordBody version =
     (let flex = IsFlexibleResponse APIFindCoordinator version in
      bnd (optF (sint version \<ge> 1) ReadInt32 0) (\<lambda>throttle.
      if sint version \<le> 3 then decodeFindCoordSingle version flex throttle
      else decodeFindCoordMulti version flex throttle))"

definition DecodeFindCoordinatorResponse :: "bytes \<Rightarrow> int16 \<Rightarrow> kerr + FindCoordinatorResponse" where
  "DecodeFindCoordinatorResponse body version = run (decodeFindCoordBody version) body"

definition appendFindCoordEntry :: "bytes \<Rightarrow> FindCoordinatorEntry \<Rightarrow> bool \<Rightarrow> bytes" where
  "appendFindCoordEntry dst e flex =
     (let dst = appendStr dst (feKey e) flex;
          dst = AppendInt32 dst (feNodeID e);
          dst = appendStr dst (feHost e) flex;
          dst = AppendInt32 dst (fePort e);
          dst = AppendInt16 dst (feErrorCode e);
          dst = appendNStr dst (feErrorMessage e) (feErrorMessageNull e) flex
      in appendTagsIf dst flex)"

definition AppendFindCoordinatorResponse :: "bytes \<Rightarrow> FindCoordinatorResponse \<Rightarrow> bytes" where
  "AppendFindCoordinatorResponse dst r =
     (let version = fcVersion r;
          flex = IsFlexibleResponse APIFindCoordinator version;
          dst = (if sint version \<ge> 1 then AppendInt32 dst (fcThrottleTimeMs r) else dst)
      in if sint version \<le> 3 then
           (let dst = AppendInt16 dst (fcErrorCode r);
                dst = (if sint version \<ge> 1
                       then appendNStr dst (fcErrorMessage r) (fcErrorMessageNull r) flex else dst);
                dst = AppendInt32 dst (fcNodeID r);
                dst = appendStr dst (fcHost r) flex;
                dst = AppendInt32 dst (fcPort r)
            in appendTagsIf dst flex)
         else
           (let dst = appendArr flex (\<lambda>dst e. appendFindCoordEntry dst e flex) dst (fcCoordinators r)
            in appendTagsIf dst flex))"

definition wfFindCoordEntry :: "bool \<Rightarrow> FindCoordinatorEntry \<Rightarrow> bool" where
  "wfFindCoordEntry flex e \<longleftrightarrow>
     strOk flex (feKey e) \<and> strOk flex (feHost e) \<and> nstrOk flex (feErrorMessage e, feErrorMessageNull e)"

definition wfFindCoordinatorResponse :: "FindCoordinatorResponse \<Rightarrow> bool" where
  "wfFindCoordinatorResponse r \<longleftrightarrow>
     (let version = fcVersion r; flex = IsFlexibleResponse APIFindCoordinator version in
      (if sint version \<ge> 1 then True else fcThrottleTimeMs r = 0) \<and>
      (if sint version \<le> 3 then
         (if sint version \<ge> 1 then nstrOk flex (fcErrorMessage r, fcErrorMessageNull r)
          else (fcErrorMessage r, fcErrorMessageNull r) = ('''', False)) \<and>
         strOk flex (fcHost r) \<and> fcCoordinators r = []
       else
         fcErrorCode r = 0 \<and> fcErrorMessage r = '''' \<and> \<not> fcErrorMessageNull r \<and> fcNodeID r = 0 \<and>
         fcHost r = '''' \<and> fcPort r = 0 \<and>
         list_all (wfFindCoordEntry flex) (fcCoordinators r) \<and> arrOk flex (length (fcCoordinators r))))"

section \<open>Codecs\<close>

interpretation fcentry: wire_elem "\<lambda>dst e. appendFindCoordEntry dst e flex"
  "decodeFindCoordEntry flex" "wfFindCoordEntry flex" for flex
proof unfold_locales
  show "appendFindCoordEntry dst e flex = dst @ appendFindCoordEntry [] e flex" for dst e
    unfolding appendFindCoordEntry_def app_simps enc_ifs by simp
  show "safe (decodeFindCoordEntry flex)"
    unfolding decodeFindCoordEntry_def by (intro safe_intros)
  show "reads_at (decodeFindCoordEntry flex) (appendFindCoordEntry [] e flex) e suf"
    if "wfFindCoordEntry flex e" for e suf
    unfolding decodeFindCoordEntry_def appendFindCoordEntry_def app_simps enc_ifs
    unfolding append_assoc append_Nil
    by ((rule reads_at_bnd_ret reads_at_bnd rt_intros
        | (use that in \<open>auto simp: wfFindCoordEntry_def split: if_splits\<close>)[1])+)
  show "yields (decodeFindCoordEntry flex) (wfFindCoordEntry flex)"
    unfolding decodeFindCoordEntry_def
    by ((rule yields_ret yields_steps optF_yields yields_any)+) (auto simp: wfFindCoordEntry_def split: if_splits)
  show "appendFindCoordEntry [] e flex \<noteq> []" for e
    unfolding appendFindCoordEntry_def app_simps enc_ifs by simp
qed

lemmas fcentry_arrays = fcentry.arr_app [app_simps] fcentry.arr_rd [rt_intros]
  yields_bnd [OF fcentry.arr_yields, yields_steps]

interpretation fcresponse: wire_codec AppendFindCoordinatorResponse "decodeFindCoordBody ver"
  "\<lambda>r. fcVersion r = ver \<and> wfFindCoordinatorResponse r" for ver
proof unfold_locales
  show "AppendFindCoordinatorResponse dst r = dst @ AppendFindCoordinatorResponse [] r" for dst r
    unfolding AppendFindCoordinatorResponse_def app_simps enc_ifs by simp
  show "safe (decodeFindCoordBody ver)"
    unfolding decodeFindCoordBody_def decodeFindCoordSingle_def decodeFindCoordMulti_def Let_def
    by (intro safe_intros fcentry.rd_safe)
  show "reads_at (decodeFindCoordBody ver) (AppendFindCoordinatorResponse [] r) r suf"
    if "fcVersion r = ver \<and> wfFindCoordinatorResponse r" for r suf
  proof -
    from that have v: "ver = fcVersion r" and w: "wfFindCoordinatorResponse r" by auto
    show ?thesis
      unfolding v decodeFindCoordBody_def decodeFindCoordSingle_def decodeFindCoordMulti_def
        AppendFindCoordinatorResponse_def app_simps enc_ifs
      unfolding append_assoc append_Nil append_if_else
      by ((rule reads_at_bnd_ret reads_at_bnd rt_intros
          | (use w in \<open>auto simp: wfFindCoordinatorResponse_def Let_def split: if_splits\<close>)[1])+)
  qed
  show "yields (decodeFindCoordBody ver) (\<lambda>r. fcVersion r = ver \<and> wfFindCoordinatorResponse r)"
    unfolding decodeFindCoordBody_def decodeFindCoordSingle_def decodeFindCoordMulti_def Let_def
    by ((rule yields_ret yields_if yields_steps optF_yields yields_any
        | (auto simp: wfFindCoordinatorResponse_def Let_def split: if_splits)[1])+)
qed

section \<open>Properties\<close>

definition sampleFindCoordinator :: FindCoordinatorResponse where
  "sampleFindCoordinator = \<lparr>fcVersion = 4, fcThrottleTimeMs = 3, fcErrorCode = 0, fcErrorMessage = '''',
     fcErrorMessageNull = False, fcNodeID = 0, fcHost = '''', fcPort = 0,
     fcCoordinators = [\<lparr>feKey = ''g'', feNodeID = 1, feHost = ''h'', fePort = 9092, feErrorCode = 0,
       feErrorMessage = '''', feErrorMessageNull = True\<rparr>]\<rparr>"

text \<open>
  For every version (the single-coordinator layout up to 3, the batched one from 4),
  decoding an appended well-formed FindCoordinator response gives the response back.
\<close>

theorem findcoordinator_roundtrip:
  assumes "wfFindCoordinatorResponse r"
  shows "DecodeFindCoordinatorResponse (AppendFindCoordinatorResponse [] r @ suf) (fcVersion r) = Inr r"
  unfolding DecodeFindCoordinatorResponse_def using assms by (intro fcresponse.roundtrip_trailing) simp

theorem findcoordinator_roundtrip_witness:
  "wfFindCoordinatorResponse sampleFindCoordinator \<and>
   DecodeFindCoordinatorResponse (AppendFindCoordinatorResponse [] sampleFindCoordinator @ [9]) 4
     = Inr sampleFindCoordinator"
proof -
  have "wfFindCoordinatorResponse sampleFindCoordinator"
    by (simp add: sampleFindCoordinator_def wfFindCoordinatorResponse_def wfFindCoordEntry_def
        fits_defs flexible_defs)
  with findcoordinator_roundtrip [OF this, of "[9]"] show ?thesis
    by (simp add: sampleFindCoordinator_def)
qed

end
