(* ===== verification/GroupCodecs.thy ===== *)
theory GroupCodecs
  imports Headers
begin

text \<open>
  \<open>internal/kwire/joingroup.go\<close> and \<open>internal/kwire/syncgroup.go\<close>: the JoinGroup request
  (versions 0 to 9), the SyncGroup request and the SyncGroup response (versions 0 to 5).
\<close>

section \<open>JoinGroup\<close>

record JoinGroupProtocol =
  jpName :: string
  jpMetadata :: bytes

record JoinGroupRequest =
  jgVersion :: int16
  jgGroup :: string
  jgSessionTimeoutMs :: int32
  jgRebalanceTimeoutMs :: int32
  jgMemberID :: string
  jgGroupInstanceID :: string
  jgGIIDPresent :: bool
  jgGIIDNull :: bool
  jgProtocolType :: string
  jgProtocols :: "JoinGroupProtocol list"
  jgReason :: string
  jgReasonPresent :: bool
  jgReasonNull :: bool

definition decodeJoinGroupProtocol :: "bool \<Rightarrow> JoinGroupProtocol reader" where
  "decodeJoinGroupProtocol flex =
     bnd (readStr flex) (\<lambda>name.
     bnd (readBts flex) (\<lambda>md.
     bnd (skipTagsIf flex) (\<lambda>u.
     ret \<lparr>jpName = name, jpMetadata = md\<rparr>)))"

definition decodeJoinGroupBody :: "int16 \<Rightarrow> JoinGroupRequest reader" where
  "decodeJoinGroupBody version =
     (let flex = IsFlexibleRequest APIJoinGroup version in
      bnd (readStr flex) (\<lambda>group.
      bnd ReadInt32 (\<lambda>session.
      bnd (optF (sint version \<ge> 1) ReadInt32 (-1)) (\<lambda>rebalance.
      bnd (readStr flex) (\<lambda>member.
      bnd (optF (sint version \<ge> 5) (readNStr flex) ('''', False)) (\<lambda>giid.
      bnd (readStr flex) (\<lambda>ptype.
      bnd (decodeArr flex (decodeJoinGroupProtocol flex)) (\<lambda>protocols.
      bnd (optF (sint version \<ge> 9) (readNStr flex) ('''', False)) (\<lambda>reason.
      bnd (skipTagsIf flex) (\<lambda>u.
      ret \<lparr>jgVersion = version, jgGroup = group, jgSessionTimeoutMs = session,
           jgRebalanceTimeoutMs = rebalance, jgMemberID = member,
           jgGroupInstanceID = fst giid, jgGIIDPresent = (sint version \<ge> 5), jgGIIDNull = snd giid,
           jgProtocolType = ptype, jgProtocols = protocols,
           jgReason = fst reason, jgReasonPresent = (sint version \<ge> 9), jgReasonNull = snd reason\<rparr>))))))))))"

definition DecodeJoinGroupRequest :: "bytes \<Rightarrow> int16 \<Rightarrow> kerr + JoinGroupRequest" where
  "DecodeJoinGroupRequest body version = run (decodeJoinGroupBody version) body"

definition appendJoinGroupProtocol :: "bytes \<Rightarrow> JoinGroupProtocol \<Rightarrow> bool \<Rightarrow> bytes" where
  "appendJoinGroupProtocol dst p flex =
     (let dst = appendStr dst (jpName p) flex;
          dst = appendBts dst (jpMetadata p) flex
      in appendTagsIf dst flex)"

definition AppendJoinGroupRequest :: "bytes \<Rightarrow> JoinGroupRequest \<Rightarrow> bytes" where
  "AppendJoinGroupRequest dst r =
     (let version = jgVersion r;
          flex = IsFlexibleRequest APIJoinGroup version;
          dst = appendStr dst (jgGroup r) flex;
          dst = AppendInt32 dst (jgSessionTimeoutMs r);
          dst = (if sint version \<ge> 1 then AppendInt32 dst (jgRebalanceTimeoutMs r) else dst);
          dst = appendStr dst (jgMemberID r) flex;
          dst = (if sint version \<ge> 5 then appendNStr dst (jgGroupInstanceID r) (jgGIIDNull r) flex else dst);
          dst = appendStr dst (jgProtocolType r) flex;
          dst = appendArr flex (\<lambda>dst p. appendJoinGroupProtocol dst p flex) dst (jgProtocols r);
          dst = (if sint version \<ge> 9 then appendNStr dst (jgReason r) (jgReasonNull r) flex else dst)
      in appendTagsIf dst flex)"

definition wfJoinGroupProtocol :: "bool \<Rightarrow> JoinGroupProtocol \<Rightarrow> bool" where
  "wfJoinGroupProtocol flex p \<longleftrightarrow> strOk flex (jpName p) \<and> btsOk flex (jpMetadata p)"

definition wfJoinGroupRequest :: "JoinGroupRequest \<Rightarrow> bool" where
  "wfJoinGroupRequest r \<longleftrightarrow>
     (let version = jgVersion r; flex = IsFlexibleRequest APIJoinGroup version in
      strOk flex (jgGroup r) \<and> strOk flex (jgMemberID r) \<and> strOk flex (jgProtocolType r) \<and>
      (if sint version \<ge> 1 then True else jgRebalanceTimeoutMs r = -1) \<and>
      (if sint version \<ge> 5 then nstrOk flex (jgGroupInstanceID r, jgGIIDNull r)
       else (jgGroupInstanceID r, jgGIIDNull r) = ('''', False)) \<and>
      (jgGIIDPresent r \<longleftrightarrow> sint version \<ge> 5) \<and>
      list_all (wfJoinGroupProtocol flex) (jgProtocols r) \<and> arrOk flex (length (jgProtocols r)) \<and>
      (if sint version \<ge> 9 then nstrOk flex (jgReason r, jgReasonNull r)
       else (jgReason r, jgReasonNull r) = ('''', False)) \<and>
      (jgReasonPresent r \<longleftrightarrow> sint version \<ge> 9))"

section \<open>SyncGroup request\<close>

record SyncGroupAssignment =
  saMemberID :: string
  saMemberAssignment :: bytes
  saMAIsNull :: bool

record SyncGroupRequest =
  sgVersion :: int16
  sgGroup :: string
  sgGeneration :: int32
  sgMemberID :: string
  sgInstanceID :: string
  sgInstancePres :: bool
  sgInstanceNull :: bool
  sgProtocolType :: string
  sgProtoTypePres :: bool
  sgProtoTypeNull :: bool
  sgProtocolName :: string
  sgProtoNamePres :: bool
  sgProtoNameNull :: bool
  sgAssignments :: "SyncGroupAssignment list"

definition decodeSyncGroupAssignment :: "bool \<Rightarrow> SyncGroupAssignment reader" where
  "decodeSyncGroupAssignment flex =
     bnd (readStr flex) (\<lambda>member.
     bnd (readNBts flex) (\<lambda>ma.
     bnd (skipTagsIf flex) (\<lambda>u.
     ret \<lparr>saMemberID = member, saMemberAssignment = fst ma, saMAIsNull = snd ma\<rparr>)))"

definition decodeSyncGroupBody :: "int16 \<Rightarrow> SyncGroupRequest reader" where
  "decodeSyncGroupBody version =
     (let flex = IsFlexibleRequest APISyncGroup version in
      bnd (readStr flex) (\<lambda>group.
      bnd ReadInt32 (\<lambda>generation.
      bnd (readStr flex) (\<lambda>member.
      bnd (optF (sint version \<ge> 3) (readNStr flex) ('''', False)) (\<lambda>inst.
      bnd (optF (sint version \<ge> 5) (readNStr flex) ('''', False)) (\<lambda>ptype.
      bnd (optF (sint version \<ge> 5) (readNStr flex) ('''', False)) (\<lambda>pname.
      bnd (decodeArr flex (decodeSyncGroupAssignment flex)) (\<lambda>assigns.
      bnd (skipTagsIf flex) (\<lambda>u.
      ret \<lparr>sgVersion = version, sgGroup = group, sgGeneration = generation, sgMemberID = member,
           sgInstanceID = fst inst, sgInstancePres = (sint version \<ge> 3), sgInstanceNull = snd inst,
           sgProtocolType = fst ptype, sgProtoTypePres = (sint version \<ge> 5), sgProtoTypeNull = snd ptype,
           sgProtocolName = fst pname, sgProtoNamePres = (sint version \<ge> 5), sgProtoNameNull = snd pname,
           sgAssignments = assigns\<rparr>)))))))))"

definition DecodeSyncGroupRequest :: "bytes \<Rightarrow> int16 \<Rightarrow> kerr + SyncGroupRequest" where
  "DecodeSyncGroupRequest body version = run (decodeSyncGroupBody version) body"

definition appendSyncGroupAssignment :: "bytes \<Rightarrow> SyncGroupAssignment \<Rightarrow> bool \<Rightarrow> bytes" where
  "appendSyncGroupAssignment dst a flex =
     (let dst = appendStr dst (saMemberID a) flex;
          dst = appendNBts dst (saMemberAssignment a) (saMAIsNull a) flex
      in appendTagsIf dst flex)"

definition AppendSyncGroupRequest :: "bytes \<Rightarrow> SyncGroupRequest \<Rightarrow> bytes" where
  "AppendSyncGroupRequest dst r =
     (let version = sgVersion r;
          flex = IsFlexibleRequest APISyncGroup version;
          dst = appendStr dst (sgGroup r) flex;
          dst = AppendInt32 dst (sgGeneration r);
          dst = appendStr dst (sgMemberID r) flex;
          dst = (if sint version \<ge> 3 then appendNStr dst (sgInstanceID r) (sgInstanceNull r) flex else dst);
          dst = (if sint version \<ge> 5 then appendNStr dst (sgProtocolType r) (sgProtoTypeNull r) flex else dst);
          dst = (if sint version \<ge> 5 then appendNStr dst (sgProtocolName r) (sgProtoNameNull r) flex else dst);
          dst = appendArr flex (\<lambda>dst a. appendSyncGroupAssignment dst a flex) dst (sgAssignments r)
      in appendTagsIf dst flex)"

definition wfSyncGroupAssignment :: "bool \<Rightarrow> SyncGroupAssignment \<Rightarrow> bool" where
  "wfSyncGroupAssignment flex a \<longleftrightarrow>
     strOk flex (saMemberID a) \<and> nbtsOk flex (saMemberAssignment a, saMAIsNull a)"

definition wfSyncGroupRequest :: "SyncGroupRequest \<Rightarrow> bool" where
  "wfSyncGroupRequest r \<longleftrightarrow>
     (let version = sgVersion r; flex = IsFlexibleRequest APISyncGroup version in
      strOk flex (sgGroup r) \<and> strOk flex (sgMemberID r) \<and>
      (if sint version \<ge> 3 then nstrOk flex (sgInstanceID r, sgInstanceNull r)
       else (sgInstanceID r, sgInstanceNull r) = ('''', False)) \<and>
      (sgInstancePres r \<longleftrightarrow> sint version \<ge> 3) \<and>
      (if sint version \<ge> 5 then nstrOk flex (sgProtocolType r, sgProtoTypeNull r)
       else (sgProtocolType r, sgProtoTypeNull r) = ('''', False)) \<and>
      (if sint version \<ge> 5 then nstrOk flex (sgProtocolName r, sgProtoNameNull r)
       else (sgProtocolName r, sgProtoNameNull r) = ('''', False)) \<and>
      (sgProtoTypePres r \<longleftrightarrow> sint version \<ge> 5) \<and> (sgProtoNamePres r \<longleftrightarrow> sint version \<ge> 5) \<and>
      list_all (wfSyncGroupAssignment flex) (sgAssignments r) \<and> arrOk flex (length (sgAssignments r)))"

section \<open>SyncGroup response\<close>

record SyncGroupResponse =
  srVersion :: int16
  srThrottleTimeMs :: int32
  srErrorCode :: int16
  srProtocolType :: string
  srProtoTypeNull :: bool
  srProtocolName :: string
  srProtoNameNull :: bool
  srMemberAssignment :: bytes
  srMAIsNull :: bool

definition decodeSyncGroupRespBody :: "int16 \<Rightarrow> SyncGroupResponse reader" where
  "decodeSyncGroupRespBody version =
     (let flex = IsFlexibleResponse APISyncGroup version in
      bnd (optF (sint version \<ge> 1) ReadInt32 0) (\<lambda>throttle.
      bnd ReadInt16 (\<lambda>ec.
      bnd (optF (sint version \<ge> 5) (readNStr flex) ('''', False)) (\<lambda>ptype.
      bnd (optF (sint version \<ge> 5) (readNStr flex) ('''', False)) (\<lambda>pname.
      bnd (readNBts flex) (\<lambda>ma.
      bnd (skipTagsIf flex) (\<lambda>u.
      ret \<lparr>srVersion = version, srThrottleTimeMs = throttle, srErrorCode = ec,
           srProtocolType = fst ptype, srProtoTypeNull = snd ptype,
           srProtocolName = fst pname, srProtoNameNull = snd pname,
           srMemberAssignment = fst ma, srMAIsNull = snd ma\<rparr>)))))))"

definition DecodeSyncGroupResponse :: "bytes \<Rightarrow> int16 \<Rightarrow> kerr + SyncGroupResponse" where
  "DecodeSyncGroupResponse body version = run (decodeSyncGroupRespBody version) body"

definition AppendSyncGroupResponse :: "bytes \<Rightarrow> SyncGroupResponse \<Rightarrow> bytes" where
  "AppendSyncGroupResponse dst r =
     (let version = srVersion r;
          flex = IsFlexibleResponse APISyncGroup version;
          dst = (if sint version \<ge> 1 then AppendInt32 dst (srThrottleTimeMs r) else dst);
          dst = AppendInt16 dst (srErrorCode r);
          dst = (if sint version \<ge> 5 then appendNStr dst (srProtocolType r) (srProtoTypeNull r) flex else dst);
          dst = (if sint version \<ge> 5 then appendNStr dst (srProtocolName r) (srProtoNameNull r) flex else dst);
          dst = appendNBts dst (srMemberAssignment r) (srMAIsNull r) flex
      in appendTagsIf dst flex)"

definition wfSyncGroupResponse :: "SyncGroupResponse \<Rightarrow> bool" where
  "wfSyncGroupResponse r \<longleftrightarrow>
     (let version = srVersion r; flex = IsFlexibleResponse APISyncGroup version in
      (if sint version \<ge> 1 then True else srThrottleTimeMs r = 0) \<and>
      (if sint version \<ge> 5 then nstrOk flex (srProtocolType r, srProtoTypeNull r)
       else (srProtocolType r, srProtoTypeNull r) = ('''', False)) \<and>
      (if sint version \<ge> 5 then nstrOk flex (srProtocolName r, srProtoNameNull r)
       else (srProtocolName r, srProtoNameNull r) = ('''', False)) \<and>
      nbtsOk flex (srMemberAssignment r, srMAIsNull r))"

section \<open>Codecs\<close>

interpretation jprotocol: wire_elem "\<lambda>dst p. appendJoinGroupProtocol dst p flex"
  "decodeJoinGroupProtocol flex" "wfJoinGroupProtocol flex" for flex
proof unfold_locales
  show "appendJoinGroupProtocol dst p flex = dst @ appendJoinGroupProtocol [] p flex" for dst p
    unfolding appendJoinGroupProtocol_def app_simps enc_ifs by simp
  show "safe (decodeJoinGroupProtocol flex)"
    unfolding decodeJoinGroupProtocol_def by (intro safe_intros)
  show "reads_at (decodeJoinGroupProtocol flex) (appendJoinGroupProtocol [] p flex) p suf"
    if "wfJoinGroupProtocol flex p" for p suf
    unfolding decodeJoinGroupProtocol_def appendJoinGroupProtocol_def app_simps enc_ifs
    unfolding append_assoc append_Nil
    by ((rule reads_at_bnd_ret reads_at_bnd rt_intros
        | (use that in \<open>auto simp: wfJoinGroupProtocol_def\<close>)[1])+)
  show "yields (decodeJoinGroupProtocol flex) (wfJoinGroupProtocol flex)"
    unfolding decodeJoinGroupProtocol_def
    by ((rule yields_ret yields_steps optF_yields yields_any)+) (auto simp: wfJoinGroupProtocol_def)
  show "appendJoinGroupProtocol [] p flex \<noteq> []" for p
    unfolding appendJoinGroupProtocol_def app_simps enc_ifs by simp
qed

interpretation sassign: wire_elem "\<lambda>dst a. appendSyncGroupAssignment dst a flex"
  "decodeSyncGroupAssignment flex" "wfSyncGroupAssignment flex" for flex
proof unfold_locales
  show "appendSyncGroupAssignment dst a flex = dst @ appendSyncGroupAssignment [] a flex" for dst a
    unfolding appendSyncGroupAssignment_def app_simps enc_ifs by simp
  show "safe (decodeSyncGroupAssignment flex)"
    unfolding decodeSyncGroupAssignment_def by (intro safe_intros)
  show "reads_at (decodeSyncGroupAssignment flex) (appendSyncGroupAssignment [] a flex) a suf"
    if "wfSyncGroupAssignment flex a" for a suf
    unfolding decodeSyncGroupAssignment_def appendSyncGroupAssignment_def app_simps enc_ifs
    unfolding append_assoc append_Nil
    by ((rule reads_at_bnd_ret reads_at_bnd rt_intros
        | (use that in \<open>auto simp: wfSyncGroupAssignment_def\<close>)[1])+)
  show "yields (decodeSyncGroupAssignment flex) (wfSyncGroupAssignment flex)"
    unfolding decodeSyncGroupAssignment_def
    by ((rule yields_ret yields_steps optF_yields yields_any)+) (auto simp: wfSyncGroupAssignment_def)
  show "appendSyncGroupAssignment [] a flex \<noteq> []" for a
    unfolding appendSyncGroupAssignment_def app_simps enc_ifs by simp
qed

lemmas group_arrays =
  jprotocol.arr_app [app_simps] jprotocol.arr_rd [rt_intros]
  yields_bnd [OF jprotocol.arr_yields, yields_steps]
  sassign.arr_app [app_simps] sassign.arr_rd [rt_intros]
  yields_bnd [OF sassign.arr_yields, yields_steps]

interpretation jgrequest: wire_codec AppendJoinGroupRequest "decodeJoinGroupBody ver"
  "\<lambda>r. jgVersion r = ver \<and> wfJoinGroupRequest r" for ver
proof unfold_locales
  show "AppendJoinGroupRequest dst r = dst @ AppendJoinGroupRequest [] r" for dst r
    unfolding AppendJoinGroupRequest_def app_simps enc_ifs by simp
  show "safe (decodeJoinGroupBody ver)"
    unfolding decodeJoinGroupBody_def Let_def by (intro safe_intros jprotocol.rd_safe)
  show "reads_at (decodeJoinGroupBody ver) (AppendJoinGroupRequest [] r) r suf"
    if "jgVersion r = ver \<and> wfJoinGroupRequest r" for r suf
  proof -
    from that have v: "ver = jgVersion r" and w: "wfJoinGroupRequest r" by auto
    show ?thesis
      unfolding v decodeJoinGroupBody_def AppendJoinGroupRequest_def app_simps enc_ifs
      unfolding append_assoc append_Nil
      by ((rule reads_at_bnd_ret reads_at_bnd rt_intros
          | (use w in \<open>auto simp: wfJoinGroupRequest_def Let_def split: if_splits\<close>)[1])+)
  qed
  show "yields (decodeJoinGroupBody ver) (\<lambda>r. jgVersion r = ver \<and> wfJoinGroupRequest r)"
    unfolding decodeJoinGroupBody_def Let_def
    by ((rule yields_ret yields_steps optF_yields yields_any)+) (simp add: wfJoinGroupRequest_def Let_def split: if_splits)
qed

interpretation sgrequest: wire_codec AppendSyncGroupRequest "decodeSyncGroupBody ver"
  "\<lambda>r. sgVersion r = ver \<and> wfSyncGroupRequest r" for ver
proof unfold_locales
  show "AppendSyncGroupRequest dst r = dst @ AppendSyncGroupRequest [] r" for dst r
    unfolding AppendSyncGroupRequest_def app_simps enc_ifs by simp
  show "safe (decodeSyncGroupBody ver)"
    unfolding decodeSyncGroupBody_def Let_def by (intro safe_intros sassign.rd_safe)
  show "reads_at (decodeSyncGroupBody ver) (AppendSyncGroupRequest [] r) r suf"
    if "sgVersion r = ver \<and> wfSyncGroupRequest r" for r suf
  proof -
    from that have v: "ver = sgVersion r" and w: "wfSyncGroupRequest r" by auto
    show ?thesis
      unfolding v decodeSyncGroupBody_def AppendSyncGroupRequest_def app_simps enc_ifs
      unfolding append_assoc append_Nil
      by ((rule reads_at_bnd_ret reads_at_bnd rt_intros
          | (use w in \<open>auto simp: wfSyncGroupRequest_def Let_def split: if_splits\<close>)[1])+)
  qed
  show "yields (decodeSyncGroupBody ver) (\<lambda>r. sgVersion r = ver \<and> wfSyncGroupRequest r)"
    unfolding decodeSyncGroupBody_def Let_def
    by ((rule yields_ret yields_steps optF_yields yields_any)+) (simp add: wfSyncGroupRequest_def Let_def split: if_splits)
qed

interpretation sgresponse: wire_codec AppendSyncGroupResponse "decodeSyncGroupRespBody ver"
  "\<lambda>r. srVersion r = ver \<and> wfSyncGroupResponse r" for ver
proof unfold_locales
  show "AppendSyncGroupResponse dst r = dst @ AppendSyncGroupResponse [] r" for dst r
    unfolding AppendSyncGroupResponse_def app_simps enc_ifs by simp
  show "safe (decodeSyncGroupRespBody ver)"
    unfolding decodeSyncGroupRespBody_def Let_def by (intro safe_intros)
  show "reads_at (decodeSyncGroupRespBody ver) (AppendSyncGroupResponse [] r) r suf"
    if "srVersion r = ver \<and> wfSyncGroupResponse r" for r suf
  proof -
    from that have v: "ver = srVersion r" and w: "wfSyncGroupResponse r" by auto
    show ?thesis
      unfolding v decodeSyncGroupRespBody_def AppendSyncGroupResponse_def app_simps enc_ifs
      unfolding append_assoc append_Nil
      by ((rule reads_at_bnd_ret reads_at_bnd rt_intros
          | (use w in \<open>auto simp: wfSyncGroupResponse_def Let_def split: if_splits\<close>)[1])+)
  qed
  show "yields (decodeSyncGroupRespBody ver) (\<lambda>r. srVersion r = ver \<and> wfSyncGroupResponse r)"
    unfolding decodeSyncGroupRespBody_def Let_def
    by ((rule yields_ret yields_steps optF_yields yields_any)+)
      (simp add: wfSyncGroupResponse_def Let_def split: if_splits)
qed

section \<open>Properties\<close>

definition sampleJoinGroup :: JoinGroupRequest where
  "sampleJoinGroup = \<lparr>jgVersion = 9, jgGroup = ''g'', jgSessionTimeoutMs = 10000, jgRebalanceTimeoutMs = 60000,
     jgMemberID = ''m'', jgGroupInstanceID = '''', jgGIIDPresent = True, jgGIIDNull = True,
     jgProtocolType = ''consumer'', jgProtocols = [\<lparr>jpName = ''range'', jpMetadata = [0, 1]\<rparr>],
     jgReason = ''rejoin'', jgReasonPresent = True, jgReasonNull = False\<rparr>"

definition sampleSyncGroup :: SyncGroupRequest where
  "sampleSyncGroup = \<lparr>sgVersion = 5, sgGroup = ''g'', sgGeneration = 3, sgMemberID = ''m'',
     sgInstanceID = '''', sgInstancePres = True, sgInstanceNull = True,
     sgProtocolType = ''consumer'', sgProtoTypePres = True, sgProtoTypeNull = False,
     sgProtocolName = ''range'', sgProtoNamePres = True, sgProtoNameNull = False,
     sgAssignments = [\<lparr>saMemberID = ''m'', saMemberAssignment = [1, 2, 3], saMAIsNull = False\<rparr>]\<rparr>"

definition sampleSyncGroupResponse :: SyncGroupResponse where
  "sampleSyncGroupResponse = \<lparr>srVersion = 5, srThrottleTimeMs = 0, srErrorCode = 0,
     srProtocolType = ''consumer'', srProtoTypeNull = False, srProtocolName = '''', srProtoNameNull = True,
     srMemberAssignment = [7], srMAIsNull = False\<rparr>"

text \<open>
  C21: for every version, decoding an appended well-formed JoinGroup request, SyncGroup request or
  SyncGroup response gives it back, protocols, metadata and assignment blobs included, whatever
  bytes follow it in the frame.
\<close>

theorem group_codecs_roundtrip:
  "(wfJoinGroupRequest j \<longrightarrow> DecodeJoinGroupRequest (AppendJoinGroupRequest [] j @ suf) (jgVersion j) = Inr j) \<and>
   (wfSyncGroupRequest q \<longrightarrow> DecodeSyncGroupRequest (AppendSyncGroupRequest [] q @ suf) (sgVersion q) = Inr q) \<and>
   (wfSyncGroupResponse r \<longrightarrow> DecodeSyncGroupResponse (AppendSyncGroupResponse [] r @ suf) (srVersion r) = Inr r)"
  unfolding DecodeJoinGroupRequest_def DecodeSyncGroupRequest_def DecodeSyncGroupResponse_def
  by (intro conjI impI jgrequest.roundtrip_trailing sgrequest.roundtrip_trailing sgresponse.roundtrip_trailing) simp_all

theorem group_codecs_roundtrip_witness:
  "DecodeJoinGroupRequest (AppendJoinGroupRequest [] sampleJoinGroup @ [8]) 9 = Inr sampleJoinGroup \<and>
   DecodeSyncGroupRequest (AppendSyncGroupRequest [] sampleSyncGroup @ [8]) 5 = Inr sampleSyncGroup \<and>
   DecodeSyncGroupResponse (AppendSyncGroupResponse [] sampleSyncGroupResponse @ [8]) 5 = Inr sampleSyncGroupResponse"
proof -
  have "wfJoinGroupRequest sampleJoinGroup"
    by (simp add: sampleJoinGroup_def wfJoinGroupRequest_def wfJoinGroupProtocol_def fits_defs flexible_defs)
  moreover have "wfSyncGroupRequest sampleSyncGroup"
    by (simp add: sampleSyncGroup_def wfSyncGroupRequest_def wfSyncGroupAssignment_def fits_defs flexible_defs)
  moreover have "wfSyncGroupResponse sampleSyncGroupResponse"
    by (simp add: sampleSyncGroupResponse_def wfSyncGroupResponse_def fits_defs flexible_defs)
  moreover have "jgVersion sampleJoinGroup = 9" "sgVersion sampleSyncGroup = 5" "srVersion sampleSyncGroupResponse = 5"
    by (simp_all add: sampleJoinGroup_def sampleSyncGroup_def sampleSyncGroupResponse_def)
  ultimately show ?thesis
    using group_codecs_roundtrip [of sampleJoinGroup "[8]" sampleSyncGroup sampleSyncGroupResponse] by simp
qed

end
