(* ===== verification/ConsumerProtocol.thy ===== *)
theory ConsumerProtocol
  imports Headers
begin

text \<open>
  \<open>internal/kwire/consumer_protocol.go\<close>: the ConsumerProtocolSubscription and
  ConsumerProtocolAssignment blobs, versions 0 to 3.  Trailing fields are read only while bytes
  remain (\<open>optRem\<close>), so a blob may announce a version and stop before the version's last field;
  the appenders always write every field of the version.
\<close>

record TopicPartitions =
  tpTopic :: string
  tpPartitions :: "int32 list"

record Subscription =
  suVersion :: int16
  suTopics :: "string list"
  suUserData :: bytes
  suUserDataNull :: bool
  suOwnedPartitions :: "TopicPartitions list"
  suGenerationID :: int32
  suGenerationPresent :: bool
  suRackID :: string
  suRackIDNull :: bool
  suRackIDPresent :: bool

record Assignment =
  asVersion :: int16
  asPartitions :: "TopicPartitions list"
  asUserData :: bytes
  asUserDataNull :: bool
  asRackID :: string
  asRackIDNull :: bool
  asRackIDPresent :: bool

definition optRem :: "bool \<Rightarrow> 'a reader \<Rightarrow> 'a \<Rightarrow> 'a reader" where
  "optRem b m d c = (if b \<and> Remaining c > 0 then m c else Inr (d, c))"

definition decodeTopicPartition :: "TopicPartitions reader" where
  "decodeTopicPartition =
     bnd (readStr False) (\<lambda>topic.
     bnd (decodeArr False ReadInt32) (\<lambda>parts.
     ret \<lparr>tpTopic = topic, tpPartitions = parts\<rparr>))"

definition decodeTopicPartitions :: "TopicPartitions list reader" where
  "decodeTopicPartitions = decodeArr False decodeTopicPartition"

definition decodeSubscriptionBody :: "Subscription reader" where
  "decodeSubscriptionBody =
     bnd ReadInt16 (\<lambda>v.
     bnd (decodeArr False (readStr False)) (\<lambda>topics.
     bnd (readNBts False) (\<lambda>ud.
     bnd (optRem (sint v \<ge> 1) decodeTopicPartitions []) (\<lambda>owned.
     bnd (optRem (sint v \<ge> 2) (bnd ReadInt32 (\<lambda>g. ret (g, True))) (0, False)) (\<lambda>gen.
     bnd (optRem (sint v \<ge> 3) (bnd (readNStr False) (\<lambda>r. ret (r, True))) (('''', False), False)) (\<lambda>rack.
     ret \<lparr>suVersion = v, suTopics = topics, suUserData = fst ud, suUserDataNull = snd ud,
          suOwnedPartitions = owned, suGenerationID = fst gen, suGenerationPresent = snd gen,
          suRackID = fst (fst rack), suRackIDNull = snd (fst rack), suRackIDPresent = snd rack\<rparr>))))))"

definition DecodeSubscription :: "bytes \<Rightarrow> kerr + Subscription" where
  "DecodeSubscription blob = run decodeSubscriptionBody blob"

definition decodeAssignmentBody :: "Assignment reader" where
  "decodeAssignmentBody =
     bnd ReadInt16 (\<lambda>v.
     bnd decodeTopicPartitions (\<lambda>parts.
     bnd (readNBts False) (\<lambda>ud.
     bnd (optRem (sint v \<ge> 3) (bnd (readNStr False) (\<lambda>r. ret (r, True))) (('''', False), False)) (\<lambda>rack.
     ret \<lparr>asVersion = v, asPartitions = parts, asUserData = fst ud, asUserDataNull = snd ud,
          asRackID = fst (fst rack), asRackIDNull = snd (fst rack), asRackIDPresent = snd rack\<rparr>))))"

definition DecodeAssignment :: "bytes \<Rightarrow> kerr + Assignment" where
  "DecodeAssignment blob = run decodeAssignmentBody blob"

definition appendTopicPartition :: "bytes \<Rightarrow> TopicPartitions \<Rightarrow> bytes" where
  "appendTopicPartition dst tp =
     (let dst = AppendString dst (tpTopic tp)
      in appendArr False AppendInt32 dst (tpPartitions tp))"

definition appendTopicPartitions :: "bytes \<Rightarrow> TopicPartitions list \<Rightarrow> bytes" where
  "appendTopicPartitions dst tps = appendArr False appendTopicPartition dst tps"

definition AppendSubscription :: "bytes \<Rightarrow> Subscription \<Rightarrow> bytes" where
  "AppendSubscription dst s =
     (let dst = AppendInt16 dst (suVersion s);
          dst = appendArr False AppendString dst (suTopics s);
          dst = AppendNullableBytes dst (suUserData s) (suUserDataNull s);
          dst = (if sint (suVersion s) \<ge> 1 then appendTopicPartitions dst (suOwnedPartitions s) else dst);
          gen = (if \<not> suGenerationPresent s then -1 else suGenerationID s);
          dst = (if sint (suVersion s) \<ge> 2 then AppendInt32 dst gen else dst)
      in if sint (suVersion s) \<ge> 3 then AppendNullableString dst (suRackID s) (suRackIDNull s) else dst)"

definition AppendAssignment :: "bytes \<Rightarrow> Assignment \<Rightarrow> bytes" where
  "AppendAssignment dst a =
     (let dst = AppendInt16 dst (asVersion a);
          dst = appendTopicPartitions dst (asPartitions a);
          dst = AppendNullableBytes dst (asUserData a) (asUserDataNull a)
      in if sint (asVersion a) \<ge> 3 then AppendNullableString dst (asRackID a) (asRackIDNull a) else dst)"

text \<open>What fits the length prefixes, and what a blob written by the appender reads back as.\<close>

definition wfTopicPartitions :: "TopicPartitions \<Rightarrow> bool" where
  "wfTopicPartitions tp \<longleftrightarrow> strOk False (tpTopic tp) \<and> arrOk False (length (tpPartitions tp))"

definition fitsSubscription :: "Subscription \<Rightarrow> bool" where
  "fitsSubscription s \<longleftrightarrow>
     list_all (strOk False) (suTopics s) \<and> arrOk False (length (suTopics s)) \<and>
     nbtsOk False (suUserData s, suUserDataNull s) \<and>
     list_all wfTopicPartitions (suOwnedPartitions s) \<and> arrOk False (length (suOwnedPartitions s)) \<and>
     nstrOk False (suRackID s, suRackIDNull s)"

definition canonSubscription :: "Subscription \<Rightarrow> Subscription" where
  "canonSubscription s =
     (let v = sint (suVersion s) in
      s\<lparr>suOwnedPartitions := (if v \<ge> 1 then suOwnedPartitions s else []),
        suGenerationID := (if v \<ge> 2 then (if suGenerationPresent s then suGenerationID s else -1) else 0),
        suGenerationPresent := (v \<ge> 2),
        suRackID := (if v \<ge> 3 then suRackID s else ''''),
        suRackIDNull := (v \<ge> 3 \<and> suRackIDNull s),
        suRackIDPresent := (v \<ge> 3)\<rparr>)"

definition fitsAssignment :: "Assignment \<Rightarrow> bool" where
  "fitsAssignment a \<longleftrightarrow>
     list_all wfTopicPartitions (asPartitions a) \<and> arrOk False (length (asPartitions a)) \<and>
     nbtsOk False (asUserData a, asUserDataNull a) \<and> nstrOk False (asRackID a, asRackIDNull a)"

definition canonAssignment :: "Assignment \<Rightarrow> Assignment" where
  "canonAssignment a =
     (let v = sint (asVersion a) in
      a\<lparr>asRackID := (if v \<ge> 3 then asRackID a else ''''),
        asRackIDNull := (v \<ge> 3 \<and> asRackIDNull a),
        asRackIDPresent := (v \<ge> 3)\<rparr>)"

section \<open>Lemmas\<close>

lemma classic [app_simps]:
  "AppendString dst s = dst @ encStr False s"
  "AppendNullableString dst s n = dst @ encNStr False (s, n)"
  "AppendNullableBytes dst b n = dst @ encNBts False (b, n)"
  using text_codecs(1) [of dst s False] text_codecs(2) [of dst s n False] text_codecs(4) [of dst b n False]
  by (simp_all add: appendStr_def appendNStr_def appendNBts_def)

interpretation strElem: wire_elem AppendString "readStr False" "strOk False"
proof unfold_locales
  show "AppendString dst x = dst @ AppendString [] x" for dst x
    by (simp add: classic)
  show "strOk False v \<Longrightarrow> reads_at (readStr False) (AppendString [] v) v suf" for v suf
    by (simp add: classic text_reads)
  show "yields (readStr False) (strOk False)" by (rule str.rd_yields)
  show "AppendString [] v \<noteq> []" for v by (simp add: classic)
qed

lemma strElem_enc: "strElem.enc = encStr False"
  by (rule ext) (simp add: strElem.enc_def classic)

lemma topics_array [app_simps]: "appendArr False AppendString dst xs = dst @ encArr False (encStr False) xs"
  by (simp add: strElem.arr_app strElem_enc)

lemma parts_array [app_simps]: "appendArr False AppendInt32 dst xs = dst @ encArr False encI32 xs"
  by (simp add: i32e.arr_app i32_enc)

lemma reads_topics [rt_intros]:
  "list_all (strOk False) xs \<Longrightarrow> arrOk False (length xs) \<Longrightarrow>
   reads_at (decodeArr False (readStr False)) (encArr False (encStr False) xs) xs suf"
  using strElem.arr_rd by (simp add: strElem_enc)

lemma reads_parts [rt_intros]:
  "arrOk False (length xs) \<Longrightarrow> reads_at (decodeArr False ReadInt32) (encArr False encI32 xs) xs suf"
  using i32e.arr_rd by (simp add: i32_enc list_all_True)

lemma safe_optRem [safe_intros]: "safe m \<Longrightarrow> safe (optRem b m d)"
  by (rule safeI) (auto simp: optRem_def dest: safe_no_panic safeD split: if_splits)

lemma reads_optRem [rt_intros]:
  assumes "reads_at m xs v suf" and "xs \<noteq> []"
  shows "reads_at (optRem b m d) (if b then xs else []) (if b then v else d) suf"
  using assms by (auto simp: reads_at_def optRem_def Remaining_def)

lemma yields_parts: "yields (decodeArr False ReadInt32) (\<lambda>xs. arrOk False (length xs))"
  by (rule yields_mono [OF i32e.arr_yields]) simp

interpretation tp: wire_elem appendTopicPartition decodeTopicPartition wfTopicPartitions
proof unfold_locales
  show "appendTopicPartition dst t = dst @ appendTopicPartition [] t" for dst t
    unfolding appendTopicPartition_def app_simps enc_ifs by simp
  show "safe decodeTopicPartition"
    unfolding decodeTopicPartition_def by (intro safe_intros)
  show "reads_at decodeTopicPartition (appendTopicPartition [] t) t suf"
    if "wfTopicPartitions t" for t suf
    unfolding decodeTopicPartition_def appendTopicPartition_def app_simps enc_ifs
    unfolding append_assoc append_Nil
    by ((rule reads_at_bnd_ret reads_at_bnd rt_intros
        | (use that in \<open>auto simp: wfTopicPartitions_def\<close>)[1])+)
  show "yields decodeTopicPartition wfTopicPartitions"
    unfolding decodeTopicPartition_def
    by ((rule yields_ret yields_steps yields_bnd [OF yields_parts])+) (auto simp: wfTopicPartitions_def)
  show "appendTopicPartition [] t \<noteq> []" for t
    unfolding appendTopicPartition_def app_simps enc_ifs by simp
qed

definition encTPs :: "TopicPartitions list \<Rightarrow> bytes" where
  "encTPs tps = encArr False tp.enc tps"

lemma appendTopicPartitions_enc [app_simps]: "appendTopicPartitions dst tps = dst @ encTPs tps"
  by (simp add: appendTopicPartitions_def encTPs_def tp.arr_app)

lemma safe_decodeTopicPartitions [safe_intros]: "safe decodeTopicPartitions"
  unfolding decodeTopicPartitions_def by (intro safe_intros tp.rd_safe)

lemma reads_decodeTopicPartitions [rt_intros]:
  "list_all wfTopicPartitions tps \<Longrightarrow> arrOk False (length tps) \<Longrightarrow>
   reads_at decodeTopicPartitions (encTPs tps) tps suf"
  unfolding decodeTopicPartitions_def encTPs_def by (rule tp.arr_rd)

lemma yields_decodeTopicPartitions:
  "yields decodeTopicPartitions (\<lambda>tps. list_all wfTopicPartitions tps \<and> arrOk False (length tps))"
  unfolding decodeTopicPartitions_def by (rule tp.arr_yields)

lemma encArr_nonempty [simp]: "encArr False f xs \<noteq> []"
  by (simp add: encArr_def encArrLen_def appendArrLen_def AppendArrayLen_def AppendInt32_def)

lemma encTPs_nonempty [simp]: "encTPs tps \<noteq> []"
  by (simp add: encTPs_def)

lemma encNStr_nonempty [simp]: "encNStr False p \<noteq> []"
  by (simp add: encNStr_def appendNStr_def AppendNullableString_def AppendString_def AppendInt16_def)

interpretation subscr: append_only AppendSubscription
  by unfold_locales (unfold AppendSubscription_def app_simps enc_ifs, simp)

interpretation assignm: append_only AppendAssignment
  by unfold_locales (unfold AppendAssignment_def app_simps enc_ifs, simp)

interpretation subscr: safe_reader decodeSubscriptionBody
  by unfold_locales (unfold decodeSubscriptionBody_def, intro safe_intros)

interpretation assignm: safe_reader decodeAssignmentBody
  by unfold_locales (unfold decodeAssignmentBody_def, intro safe_intros)

lemma reads_subscription:
  assumes "fitsSubscription s"
  shows "reads_at decodeSubscriptionBody (AppendSubscription [] s) (canonSubscription s) suf"
  unfolding decodeSubscriptionBody_def AppendSubscription_def app_simps enc_ifs
  unfolding append_assoc append_Nil
  by ((rule reads_at_bnd_ret reads_at_bnd rt_intros
      | (use assms in \<open>auto simp: fitsSubscription_def canonSubscription_def\<close>)[1])+)

lemma reads_assignment:
  assumes "fitsAssignment a"
  shows "reads_at decodeAssignmentBody (AppendAssignment [] a) (canonAssignment a) suf"
  unfolding decodeAssignmentBody_def AppendAssignment_def app_simps enc_ifs
  unfolding append_assoc append_Nil
  by ((rule reads_at_bnd_ret reads_at_bnd rt_intros
      | (use assms in \<open>auto simp: fitsAssignment_def canonAssignment_def\<close>)[1])+)

lemma run_trailing: "reads_at m xs v suf \<Longrightarrow> run m (xs @ suf) = Inr v"
  unfolding reads_at_def run_def NewCursor_def by (drule spec [of _ "[]"]) simp

section \<open>Properties\<close>

definition sampleSubscription :: Subscription where
  "sampleSubscription = \<lparr>suVersion = 2, suTopics = [''a'', ''b''], suUserData = [1], suUserDataNull = False,
     suOwnedPartitions = [\<lparr>tpTopic = ''a'', tpPartitions = [0, 3]\<rparr>], suGenerationID = 9,
     suGenerationPresent = False, suRackID = ''r'', suRackIDNull = False, suRackIDPresent = True\<rparr>"

definition sampleAssignment :: Assignment where
  "sampleAssignment = \<lparr>asVersion = 0, asPartitions = [\<lparr>tpTopic = ''a'', tpPartitions = [0, 1]\<rparr>],
     asUserData = [], asUserDataNull = True, asRackID = '''', asRackIDNull = False, asRackIDPresent = False\<rparr>"

text \<open>
  C22: decoding an appended subscription blob gives its canonical form: the fields that its version
  carries unchanged (an absent generation as -1), the others at their zero value; decoding an
  appended assignment blob gives the same topics, partitions and user data, with the rack kept from
  version 3 and dropped before.
\<close>

theorem consumer_blobs_roundtrip:
  "(fitsSubscription s \<longrightarrow> DecodeSubscription (AppendSubscription [] s @ suf) = Inr (canonSubscription s)) \<and>
   (fitsAssignment a \<longrightarrow> DecodeAssignment (AppendAssignment [] a @ suf) = Inr (canonAssignment a))"
  unfolding DecodeSubscription_def DecodeAssignment_def
  by (intro conjI impI run_trailing reads_subscription reads_assignment)

theorem consumer_blobs_roundtrip_witness:
  "DecodeSubscription (AppendSubscription [] sampleSubscription @ [4])
     = Inr (sampleSubscription\<lparr>suGenerationID := -1, suGenerationPresent := True, suRackID := '''',
              suRackIDPresent := False\<rparr>) \<and>
   DecodeAssignment (AppendAssignment [] sampleAssignment @ [4]) = Inr sampleAssignment"
proof -
  have "fitsSubscription sampleSubscription"
    by (simp add: sampleSubscription_def fitsSubscription_def wfTopicPartitions_def fits_defs)
  moreover have "fitsAssignment sampleAssignment"
    by (simp add: sampleAssignment_def fitsAssignment_def wfTopicPartitions_def fits_defs)
  ultimately show ?thesis
    using consumer_blobs_roundtrip [of sampleSubscription "[4]" sampleAssignment]
    by (simp add: sampleSubscription_def canonSubscription_def sampleAssignment_def canonAssignment_def)
qed

end
