(* ===== verification/TelemetryCodecs.thy ===== *)
theory TelemetryCodecs
  imports ConsumerProtocol
begin

text \<open>
  \<open>internal/kwire/listoffsets.go\<close>, \<open>offsetfetch.go\<close> and \<open>describegroups.go\<close>: kproxy is the
  client of these RPCs, so the source appends the requests and decodes the responses.  The loops
  of a decoder that the source nests in one function are one definition per level here.
\<close>

section \<open>ListOffsets v6\<close>

definition ListOffsetsVersion :: int16 where "ListOffsetsVersion = 6"
definition OffsetLatest :: int64 where "OffsetLatest = -1"
definition IsolationReadUncommitted :: int8 where "IsolationReadUncommitted = 0"

record ListOffsetsPartition =
  loPartitionIndex :: int32
  loCurrentLeaderEpoch :: int32
  loTimestamp :: int64

record ListOffsetsTopic =
  lotName :: string
  lotPartitions :: "ListOffsetsPartition list"

record ListOffsetsRequest =
  loReplicaID :: int32
  loIsolationLevel :: int8
  loTopics :: "ListOffsetsTopic list"

definition appendListOffsetsPartition :: "bytes \<Rightarrow> ListOffsetsPartition \<Rightarrow> bytes" where
  "appendListOffsetsPartition dst p =
     AppendEmptyTaggedFields (AppendInt64 (AppendInt32 (AppendInt32 dst (loPartitionIndex p))
       (loCurrentLeaderEpoch p)) (loTimestamp p))"

definition appendListOffsetsTopic :: "bytes \<Rightarrow> ListOffsetsTopic \<Rightarrow> bytes" where
  "appendListOffsetsTopic dst t =
     (let dst = AppendCompactString dst (lotName t);
          dst = appendArr True appendListOffsetsPartition dst (lotPartitions t)
      in AppendEmptyTaggedFields dst)"

definition AppendListOffsetsRequest :: "bytes \<Rightarrow> ListOffsetsRequest \<Rightarrow> bytes" where
  "AppendListOffsetsRequest dst r =
     (let dst = AppendInt32 dst (loReplicaID r);
          dst = AppendInt8 dst (loIsolationLevel r);
          dst = appendArr True appendListOffsetsTopic dst (loTopics r)
      in AppendEmptyTaggedFields dst)"

record ListOffsetsPartitionResp =
  lrPartitionIndex :: int32
  lrErrorCode :: int16
  lrTimestamp :: int64
  lrOffset :: int64
  lrLeaderEpoch :: int32

record ListOffsetsTopicResp =
  lrtName :: string
  lrtPartitions :: "ListOffsetsPartitionResp list"

record ListOffsetsResponse =
  lrThrottleTimeMs :: int32
  lrTopics :: "ListOffsetsTopicResp list"

definition decodeListOffsetsPartition :: "ListOffsetsPartitionResp reader" where
  "decodeListOffsetsPartition =
     bnd ReadInt32 (\<lambda>idx. bnd ReadInt16 (\<lambda>ec. bnd ReadInt64 (\<lambda>ts. bnd ReadInt64 (\<lambda>ofs.
     bnd ReadInt32 (\<lambda>epoch. bnd SkipTaggedFields (\<lambda>u.
     ret \<lparr>lrPartitionIndex = idx, lrErrorCode = ec, lrTimestamp = ts, lrOffset = ofs,
          lrLeaderEpoch = epoch\<rparr>))))))"

definition decodeListOffsetsTopic :: "ListOffsetsTopicResp reader" where
  "decodeListOffsetsTopic =
     bnd ReadCompactString (\<lambda>name. bnd (decodeArr True decodeListOffsetsPartition) (\<lambda>parts.
     bnd SkipTaggedFields (\<lambda>u. ret \<lparr>lrtName = name, lrtPartitions = parts\<rparr>)))"

definition decodeListOffsetsBody :: "ListOffsetsResponse reader" where
  "decodeListOffsetsBody =
     bnd ReadInt32 (\<lambda>tt. bnd (decodeArr True decodeListOffsetsTopic) (\<lambda>topics.
     bnd SkipTaggedFields (\<lambda>u. ret \<lparr>lrThrottleTimeMs = tt, lrTopics = topics\<rparr>)))"

definition DecodeListOffsetsResponse :: "bytes \<Rightarrow> kerr + ListOffsetsResponse" where
  "DecodeListOffsetsResponse body = run decodeListOffsetsBody body"

section \<open>OffsetFetch v8\<close>

definition OffsetFetchVersion :: int16 where "OffsetFetchVersion = 8"

record OffsetFetchTopicReq =
  oftName :: string
  oftPartitionIndexes :: "int32 list"

record OffsetFetchGroup =
  ofgGroupID :: string
  ofgTopics :: "OffsetFetchTopicReq list"
  ofgTopicsNull :: bool

record OffsetFetchRequest =
  ofGroups :: "OffsetFetchGroup list"
  ofRequireStable :: bool

definition appendOffsetFetchTopic :: "bytes \<Rightarrow> OffsetFetchTopicReq \<Rightarrow> bytes" where
  "appendOffsetFetchTopic dst t =
     (let dst = AppendCompactString dst (oftName t);
          dst = appendArr True AppendInt32 dst (oftPartitionIndexes t)
      in AppendEmptyTaggedFields dst)"

definition appendOffsetFetchGroup :: "bytes \<Rightarrow> OffsetFetchGroup \<Rightarrow> bytes" where
  "appendOffsetFetchGroup dst g =
     (let dst = AppendCompactString dst (ofgGroupID g);
          dst = (if ofgTopicsNull g then AppendUvarint dst 0
                 else foldl appendOffsetFetchTopic
                        (AppendUvarint dst (of_nat (length (ofgTopics g) + 1))) (ofgTopics g))
      in AppendEmptyTaggedFields dst)"

definition AppendOffsetFetchRequest :: "bytes \<Rightarrow> OffsetFetchRequest \<Rightarrow> bytes" where
  "AppendOffsetFetchRequest dst r =
     (let dst = appendArr True appendOffsetFetchGroup dst (ofGroups r);
          dst = (if ofRequireStable r then dst @ [1] else dst @ [0])
      in AppendEmptyTaggedFields dst)"

record OffsetFetchPartitionResp =
  opPartitionIndex :: int32
  opCommittedOffset :: int64
  opCommittedLeaderEpoch :: int32
  opMetadata :: string
  opMetadataNull :: bool
  opErrorCode :: int16

record OffsetFetchTopicResp =
  otName :: string
  otPartitions :: "OffsetFetchPartitionResp list"

record OffsetFetchGroupResp =
  ogGroupID :: string
  ogTopics :: "OffsetFetchTopicResp list"
  ogErrorCode :: int16

record OffsetFetchResponse =
  orThrottleTimeMs :: int32
  orGroups :: "OffsetFetchGroupResp list"

definition decodeOffsetFetchPartition :: "OffsetFetchPartitionResp reader" where
  "decodeOffsetFetchPartition =
     bnd ReadInt32 (\<lambda>idx. bnd ReadInt64 (\<lambda>ofs. bnd ReadInt32 (\<lambda>epoch.
     bnd ReadCompactNullableString (\<lambda>md. bnd ReadInt16 (\<lambda>ec. bnd SkipTaggedFields (\<lambda>u.
     ret \<lparr>opPartitionIndex = idx, opCommittedOffset = ofs, opCommittedLeaderEpoch = epoch,
          opMetadata = fst md, opMetadataNull = snd md, opErrorCode = ec\<rparr>))))))"

definition decodeOffsetFetchTopic :: "OffsetFetchTopicResp reader" where
  "decodeOffsetFetchTopic =
     bnd ReadCompactString (\<lambda>name. bnd (decodeArr True decodeOffsetFetchPartition) (\<lambda>parts.
     bnd SkipTaggedFields (\<lambda>u. ret \<lparr>otName = name, otPartitions = parts\<rparr>)))"

definition decodeOffsetFetchGroup :: "OffsetFetchGroupResp reader" where
  "decodeOffsetFetchGroup =
     bnd ReadCompactString (\<lambda>gid. bnd (decodeArr True decodeOffsetFetchTopic) (\<lambda>topics.
     bnd ReadInt16 (\<lambda>ec. bnd SkipTaggedFields (\<lambda>u.
     ret \<lparr>ogGroupID = gid, ogTopics = topics, ogErrorCode = ec\<rparr>))))"

definition decodeOffsetFetchBody :: "OffsetFetchResponse reader" where
  "decodeOffsetFetchBody =
     bnd ReadInt32 (\<lambda>tt. bnd (decodeArr True decodeOffsetFetchGroup) (\<lambda>groups.
     bnd SkipTaggedFields (\<lambda>u. ret \<lparr>orThrottleTimeMs = tt, orGroups = groups\<rparr>)))"

definition DecodeOffsetFetchResponse :: "bytes \<Rightarrow> kerr + OffsetFetchResponse" where
  "DecodeOffsetFetchResponse body = run decodeOffsetFetchBody body"

section \<open>DescribeGroups v5\<close>

definition DescribeGroupsVersion :: int16 where "DescribeGroupsVersion = 5"

record DescribeGroupsRequest =
  dgrGroups :: "string list"
  dgrIncludeAuthorizedOperations :: bool

definition AppendDescribeGroupsRequest :: "bytes \<Rightarrow> DescribeGroupsRequest \<Rightarrow> bytes" where
  "AppendDescribeGroupsRequest dst r =
     (let dst = appendArr True AppendCompactString dst (dgrGroups r);
          dst = (if dgrIncludeAuthorizedOperations r then dst @ [1] else dst @ [0])
      in AppendEmptyTaggedFields dst)"

record DescribedGroupMember =
  dmMemberID :: string
  dmGroupInstanceID :: string
  dmGroupInstanceIDNull :: bool
  dmClientID :: string
  dmClientHost :: string
  dmMemberMetadata :: bytes
  dmMemberAssignment :: bytes

record DescribedGroup =
  dgErrorCode :: int16
  dgGroupID :: string
  dgGroupState :: string
  dgProtocolType :: string
  dgProtocolData :: string
  dgMembers :: "DescribedGroupMember list"
  dgAuthorizedOperations :: int32

record DescribeGroupsResponse =
  drThrottleTimeMs :: int32
  drGroups :: "DescribedGroup list"

definition decodeDescribedMember :: "DescribedGroupMember reader" where
  "decodeDescribedMember =
     bnd ReadCompactString (\<lambda>mid. bnd ReadCompactNullableString (\<lambda>inst.
     bnd ReadCompactString (\<lambda>cid. bnd ReadCompactString (\<lambda>host.
     bnd ReadCompactBytes (\<lambda>md. bnd ReadCompactBytes (\<lambda>ma. bnd SkipTaggedFields (\<lambda>u.
     ret \<lparr>dmMemberID = mid, dmGroupInstanceID = fst inst, dmGroupInstanceIDNull = snd inst,
          dmClientID = cid, dmClientHost = host, dmMemberMetadata = md, dmMemberAssignment = ma\<rparr>)))))))"

definition decodeDescribedGroup :: "DescribedGroup reader" where
  "decodeDescribedGroup =
     bnd ReadInt16 (\<lambda>ec. bnd ReadCompactString (\<lambda>gid. bnd ReadCompactString (\<lambda>state.
     bnd ReadCompactString (\<lambda>ptype. bnd ReadCompactString (\<lambda>pdata.
     bnd (decodeArr True decodeDescribedMember) (\<lambda>members.
     bnd ReadInt32 (\<lambda>ops. bnd SkipTaggedFields (\<lambda>u.
     ret \<lparr>dgErrorCode = ec, dgGroupID = gid, dgGroupState = state, dgProtocolType = ptype,
          dgProtocolData = pdata, dgMembers = members, dgAuthorizedOperations = ops\<rparr>))))))))"

definition decodeDescribeGroupsBody :: "DescribeGroupsResponse reader" where
  "decodeDescribeGroupsBody =
     bnd ReadInt32 (\<lambda>tt. bnd (decodeArr True decodeDescribedGroup) (\<lambda>groups.
     bnd SkipTaggedFields (\<lambda>u. ret \<lparr>drThrottleTimeMs = tt, drGroups = groups\<rparr>)))"

definition DecodeDescribeGroupsResponse :: "bytes \<Rightarrow> kerr + DescribeGroupsResponse" where
  "DecodeDescribeGroupsResponse body = run decodeDescribeGroupsBody body"

section \<open>Safety of the decoders\<close>

lemma safe_compact [safe_intros]:
  "safe ReadCompactString" "safe ReadCompactNullableString" "safe ReadCompactBytes"
  using str.rd_safe [of True] nstr.rd_safe [of True] bts.rd_safe [of True]
  by (simp_all add: readStr_def readNStr_def readBts_def)

interpretation listoffsets: safe_reader decodeListOffsetsBody
  by unfold_locales
    (unfold decodeListOffsetsBody_def decodeListOffsetsTopic_def decodeListOffsetsPartition_def,
      intro safe_intros)

interpretation offsetfetch: safe_reader decodeOffsetFetchBody
  by unfold_locales
    (unfold decodeOffsetFetchBody_def decodeOffsetFetchGroup_def decodeOffsetFetchTopic_def
      decodeOffsetFetchPartition_def, intro safe_intros)

interpretation describegroups: safe_reader decodeDescribeGroupsBody
  by unfold_locales
    (unfold decodeDescribeGroupsBody_def decodeDescribedGroup_def decodeDescribedMember_def,
      intro safe_intros)

end
