(* ===== verification/Frame.thy ===== *)
theory Frame
  imports Primitives
begin

text \<open>
  \<open>internal/frame\<close>: the length-prefixed frames of the Kafka protocol (\<open>reader.go\<close>,
  \<open>writer.go\<close>) and the pooled buffers that hold their payloads (\<open>pool.go\<close>).

  An \<open>io.Reader\<close> is the bytes it still delivers and the error it returns behind them; an
  \<open>io.Writer\<close> is the bytes written so far, the number of bytes it still accepts and the error
  behind those.  A \<open>Buffer\<close> is its backing array and the length of the slice over it, so that
  reusing a pooled buffer shows whatever stale bytes its array holds.
\<close>

section \<open>Streams\<close>

datatype ioerr = EOF | ErrUnexpectedEOF | NetErr nat | ErrFrameTooLarge | ErrNegativeFrame

text \<open>What a closed socket reports: \<open>net.ErrClosed\<close>.\<close>

definition netClosed :: ioerr where "netClosed = NetErr 0"

record instream =
  pending :: bytes
  ending :: ioerr

record outstream =
  written :: bytes
  room :: nat
  wfault :: ioerr

text \<open>\<open>io.ReadFull\<close> of \<open>n\<close> bytes: the bytes and the rest of the stream, or the error.\<close>

definition ReadFull :: "instream \<Rightarrow> nat \<Rightarrow> ioerr + bytes \<times> instream" where
  "ReadFull r n =
     (if n \<le> length (pending r) then Inr (take n (pending r), r\<lparr>pending := drop n (pending r)\<rparr>)
      else Inl (if ending r = EOF \<and> pending r \<noteq> [] then ErrUnexpectedEOF else ending r))"

text \<open>\<open>Write\<close>: a writer that accepts fewer bytes than it is given returns an error with it.\<close>

definition Write :: "outstream \<Rightarrow> bytes \<Rightarrow> ioerr option \<times> outstream" where
  "Write w b =
     (if length b \<le> room w then (None, w\<lparr>written := written w @ b, room := room w - length b\<rparr>)
      else (Some (wfault w), w\<lparr>written := written w @ take (room w) b, room := 0\<rparr>))"

text \<open>\<open>net.Buffers.WriteTo\<close>: the buffers in order, up to the first error.\<close>

fun WriteTo :: "outstream \<Rightarrow> bytes list \<Rightarrow> ioerr option \<times> outstream" where
  "WriteTo w [] = (None, w)"
| "WriteTo w (b # bs) =
     (case Write w b of (Some e, w') \<Rightarrow> (Some e, w') | (None, w') \<Rightarrow> WriteTo w' bs)"

section \<open>Pooled buffers\<close>

record Buffer =
  backing :: bytes
  blen :: nat

definition Bytes_b :: "Buffer \<Rightarrow> bytes" where
  "Bytes_b b = take (blen b) (backing b)"

definition Len :: "Buffer \<Rightarrow> nat" where
  "Len b = blen b"

definition Reset :: "Buffer \<Rightarrow> Buffer" where
  "Reset b = b\<lparr>blen := 0\<rparr>"

definition grow :: "Buffer \<Rightarrow> nat \<Rightarrow> Buffer" where
  "grow b n = (if length (backing b) \<ge> n then b\<lparr>blen := n\<rparr> else \<lparr>backing = replicate n 0, blen = n\<rparr>)"

definition maxCap :: nat where
  "maxCap = 2 ^ 20"

definition newBuffer :: Buffer where
  "newBuffer = \<lparr>backing = replicate 8192 0, blen = 0\<rparr>"

text \<open>
  \<open>sync.Pool\<close>: \<open>Get\<close> hands out any pooled buffer (the index is the pool's choice, and it may
  pick none although some are pooled) or a new one.
\<close>

definition Get :: "Buffer list \<Rightarrow> nat option \<Rightarrow> Buffer \<times> Buffer list" where
  "Get pool pick =
     (case pick of
        Some i \<Rightarrow> (if i < length pool then (Reset (pool ! i), take i pool @ drop (Suc i) pool)
                   else (newBuffer, pool))
      | None \<Rightarrow> (newBuffer, pool))"

definition Release :: "Buffer list \<Rightarrow> Buffer option \<Rightarrow> Buffer list" where
  "Release pool b =
     (case b of None \<Rightarrow> pool
      | Some b \<Rightarrow> (if length (backing b) > maxCap then pool else Reset b # pool))"

section \<open>Reader and Writer\<close>

definition MaxFrameSize :: int where
  "MaxFrameSize = 16 * 2 ^ 20"

record Reader =
  rstream :: instream
  maxSize :: int

definition NewReader :: "instream \<Rightarrow> int \<Rightarrow> Reader" where
  "NewReader r m = \<lparr>rstream = r, maxSize = (if m \<le> 0 then MaxFrameSize else m)\<rparr>"

text \<open>
  \<open>ReadFrame\<close>: the frame's bytes with the buffer that holds them and the reader behind the
  frame.  The 4-byte header array always has 4 bytes when \<open>Uint32\<close> reads it, so its panic branch
  is unreachable; it is mapped to the stream's end here only to keep the definition total.
\<close>

definition ReadFrame :: "Reader \<Rightarrow> Buffer \<Rightarrow> ioerr + bytes \<times> Buffer \<times> Reader" where
  "ReadFrame rd b =
     (case ReadFull (rstream rd) 4 of
        Inl e \<Rightarrow> Inl e
      | Inr (hdr, r1) \<Rightarrow>
          (case Uint32 hdr of
             Inl _ \<Rightarrow> Inl ErrUnexpectedEOF
           | Inr sz \<Rightarrow>
               if sint sz < 0 then Inl ErrNegativeFrame
               else if sint sz > maxSize rd then Inl ErrFrameTooLarge
               else let b1 = grow b (nat (sint sz)) in
                    (case ReadFull r1 (blen b1) of
                       Inl e \<Rightarrow> Inl e
                     | Inr (data, r2) \<Rightarrow>
                         let b2 = b1\<lparr>backing := data @ drop (length data) (backing b1)\<rparr> in
                         Inr (Bytes_b b2, b2, rd\<lparr>rstream := r2\<rparr>))))"

text \<open>\<open>PutUint32\<close> and \<open>AppendInt32\<close> write the same four big-endian bytes.\<close>

definition WriteFrame :: "outstream \<Rightarrow> bytes \<Rightarrow> ioerr option \<times> outstream" where
  "WriteFrame w body =
     (if length body > 2 ^ 32 - 1 then (Some ErrFrameTooLarge, w)
      else WriteTo w [AppendInt32 [] (of_nat (length body)), body])"

text \<open>A connection that writes frame after frame and a peer that reads them one by one.\<close>

fun writeFrames :: "outstream \<Rightarrow> bytes list \<Rightarrow> ioerr option \<times> outstream" where
  "writeFrames w [] = (None, w)"
| "writeFrames w (x # xs) =
     (case WriteFrame w x of (Some e, w') \<Rightarrow> (Some e, w') | (None, w') \<Rightarrow> writeFrames w' xs)"

fun readFrames :: "Reader \<Rightarrow> Buffer \<Rightarrow> nat \<Rightarrow> ioerr + bytes list \<times> Reader" where
  "readFrames rd b 0 = Inr ([], rd)"
| "readFrames rd b (Suc n) =
     (case ReadFrame rd b of
        Inl e \<Rightarrow> Inl e
      | Inr (x, b', rd') \<Rightarrow>
          (case readFrames rd' (Reset b') n of Inl e \<Rightarrow> Inl e | Inr (xs, rd'') \<Rightarrow> Inr (x # xs, rd'')))"

section \<open>Frame lemmas\<close>

definition encFrame :: "bytes \<Rightarrow> bytes" where
  "encFrame body = AppendInt32 [] (of_nat (length body)) @ body"

lemma length_AppendInt32 [simp]: "length (AppendInt32 [] v) = 4"
  by (simp add: AppendInt32_def)

lemma length_encFrame [simp]: "length (encFrame body) = 4 + length body"
  by (simp add: encFrame_def)

lemma Uint32_AppendInt32: "Uint32 (AppendInt32 [] v) = Inr v"
  using join32 [of v] by (simp add: AppendInt32_def)

lemma ReadFull_take:
  "pending r = xs @ ys \<Longrightarrow> length xs = n \<Longrightarrow> ReadFull r n = Inr (xs, r\<lparr>pending := ys\<rparr>)"
  by (auto simp: ReadFull_def)

lemma ReadFull_cases:
  assumes "ReadFull r n = Inr (xs, r')"
  shows "length xs = n \<and> pending r = xs @ pending r' \<and> ending r' = ending r"
  using assms by (auto simp: ReadFull_def split: if_splits)

lemma blen_grow [simp]: "blen (grow b n) = n"
  by (simp add: grow_def)

lemma grow_fits: "n \<le> length (backing (grow b n))"
  by (simp add: grow_def)

lemma length_grow: "length (backing (grow b n)) = max n (length (backing b))"
  by (simp add: grow_def)

lemma WriteFrame_ok:
  assumes "length body < 2 ^ 32" "4 + length body \<le> room w"
  shows "WriteFrame w body
    = (None, w\<lparr>written := written w @ encFrame body, room := room w - (4 + length body)\<rparr>)"
  using assms by (simp add: WriteFrame_def Write_def encFrame_def)

lemma ReadFrame_encFrame:
  assumes p: "pending (rstream rd) = encFrame body @ rest"
    and m: "int (length body) \<le> maxSize rd" "length body < 2 ^ 31"
  shows "\<exists>b'. ReadFrame rd b
    = Inr (body, b', rd\<lparr>rstream := (rstream rd)\<lparr>pending := rest\<rparr>\<rparr>) \<and> Bytes_b b' = body"
proof -
  let ?r1 = "(rstream rd)\<lparr>pending := body @ rest\<rparr>"
  have h: "ReadFull (rstream rd) 4 = Inr (AppendInt32 [] (of_nat (length body)), ?r1)"
    by (rule ReadFull_take) (simp_all add: p encFrame_def)
  have s: "sint (of_nat (length body) :: int32) = int (length body)"
    using m(2) by (intro sint32_len)
  have d: "ReadFull ?r1 (length body) = Inr (body, (rstream rd)\<lparr>pending := rest\<rparr>)"
    by (simp add: ReadFull_take [of ?r1 body rest])
  show ?thesis
    using m by (simp add: ReadFrame_def h Uint32_AppendInt32 s d Bytes_b_def Let_def)
qed

lemma ReadFrame_accepts:
  assumes r: "ReadFrame rd b = Inr (data, b', rd')"
  shows "\<exists>hdr. length hdr = 4 \<and> pending (rstream rd) = hdr @ data @ pending (rstream rd') \<and>
      Uint32 hdr = Inr (of_nat (length data)) \<and> int (length data) \<le> maxSize rd \<and>
      maxSize rd' = maxSize rd \<and> Bytes_b b' = data \<and>
      length (backing b') = max (length data) (length (backing b))"
proof -
  from r obtain hdr r1 v where h: "ReadFull (rstream rd) 4 = Inr (hdr, r1)" and v: "Uint32 hdr = Inr v"
    and pos: "0 \<le> sint v" and le: "sint v \<le> maxSize rd"
    by (auto simp: ReadFrame_def split: sum.splits if_splits)
  let ?n = "nat (sint v)"
  from r h v pos le obtain d0 r2 where d: "ReadFull r1 ?n = Inr (d0, r2)"
    and b': "b' = (grow b ?n)\<lparr>backing := d0 @ drop (length d0) (backing (grow b ?n))\<rparr>"
    and rd': "rd' = rd\<lparr>rstream := r2\<rparr>" and data: "data = Bytes_b b'"
    by (auto simp: ReadFrame_def Let_def split: sum.splits if_splits)
  note hc = ReadFull_cases [OF h] and dc = ReadFull_cases [OF d]
  have d0: "d0 = data" using dc by (simp add: data b' Bytes_b_def)
  note dc = dc [unfolded d0]
  have len: "int (length data) = sint v" using dc pos by simp
  then have "(of_int (int (length data)) :: int32) = of_int (sint v)" by simp
  then have "v = of_nat (length data)" by simp
  moreover have "length (backing b') = max (length data) (length (backing b))"
    using dc unfolding b' d0 by (simp add: length_grow)
  ultimately show ?thesis
    using hc dc v le [folded len] data by (intro exI [of _ hdr]) (simp add: rd')
qed

lemma writeFrames_ok:
  assumes "list_all (\<lambda>x. length x < 2 ^ 32) xs" "length (concat (map encFrame xs)) \<le> room w"
  shows "\<exists>n. writeFrames w xs = (None, w\<lparr>written := written w @ concat (map encFrame xs), room := n\<rparr>)"
  using assms
proof (induction xs arbitrary: w)
  case Nil
  then show ?case by (intro exI [of _ "room w"]) simp
next
  case (Cons x xs)
  let ?w = "w\<lparr>written := written w @ encFrame x, room := room w - (4 + length x)\<rparr>"
  have w: "WriteFrame w x = (None, ?w)"
    using Cons.prems by (intro WriteFrame_ok) auto
  have "length (concat (map encFrame xs)) \<le> room ?w"
    using Cons.prems by simp
  with Cons.IH [of ?w] Cons.prems obtain n where
    "writeFrames ?w xs = (None, ?w\<lparr>written := written ?w @ concat (map encFrame xs), room := n\<rparr>)"
    by auto
  with w show ?case by (intro exI [of _ n]) simp
qed

lemma readFrames_ok:
  assumes "pending (rstream rd) = concat (map encFrame xs) @ rest"
    "list_all (\<lambda>x. int (length x) \<le> maxSize rd \<and> length x < 2 ^ 31) xs"
  shows "readFrames rd b (length xs) = Inr (xs, rd\<lparr>rstream := (rstream rd)\<lparr>pending := rest\<rparr>\<rparr>)"
  using assms
proof (induction xs arbitrary: rd b)
  case Nil
  then have "rest = pending (rstream rd)" by simp
  then show ?case by simp
next
  case (Cons x xs)
  let ?rd = "rd\<lparr>rstream := (rstream rd)\<lparr>pending := concat (map encFrame xs) @ rest\<rparr>\<rparr>"
  obtain b' where "ReadFrame rd b = Inr (x, b', ?rd)"
    using ReadFrame_encFrame [of rd x "concat (map encFrame xs) @ rest" b] Cons.prems by auto
  moreover have "readFrames ?rd (Reset b') (length xs)
      = Inr (xs, ?rd\<lparr>rstream := (rstream ?rd)\<lparr>pending := rest\<rparr>\<rparr>)"
    using Cons.prems by (intro Cons.IH) simp_all
  ultimately show ?case by simp
qed

section \<open>The buffer pool\<close>

text \<open>
  What the goroutines of the proxy do with the pool: take a buffer, read frames into it (which
  may grow it), give it back.  The state is the pool and the buffers handed out.
\<close>

inductive pool_step :: "Buffer list \<times> Buffer list \<Rightarrow> Buffer list \<times> Buffer list \<Rightarrow> bool" where
  get: "Get pool pick = (b, pool') \<Longrightarrow> pool_step (pool, held) (pool', b # held)"
| read: "ReadFrame rd b = Inr (data, b', rd') \<Longrightarrow>
     pool_step (pool, hs @ b # hs') (pool, hs @ b' # hs')"
| release: "pool_step (pool, hs @ b # hs') (Release pool (Some b), hs @ hs')"

definition pool_ok :: "Buffer list \<Rightarrow> bool" where
  "pool_ok pool \<longleftrightarrow> list_all (\<lambda>b. blen b = 0 \<and> length (backing b) \<le> maxCap) pool"

lemma pool_ok_remove: "pool_ok pool \<Longrightarrow> pool_ok (take i pool @ drop (Suc i) pool)"
  by (auto simp: pool_ok_def list_all_iff dest: in_set_takeD in_set_dropD)

lemma Get_ok: "pool_ok pool \<Longrightarrow> Get pool pick = (b, pool') \<Longrightarrow> pool_ok pool' \<and> Bytes_b b = []"
  by (auto simp: Get_def Reset_def newBuffer_def Bytes_b_def pool_ok_remove split: option.splits if_splits)

lemma Release_ok: "pool_ok pool \<Longrightarrow> pool_ok (Release pool b)"
  by (auto simp: Release_def Reset_def pool_ok_def split: option.splits)

lemma pool_step_ok: "pool_step s t \<Longrightarrow> pool_ok (fst s) \<Longrightarrow> pool_ok (fst t)"
  by (induction rule: pool_step.induct) (auto simp: Release_ok dest: Get_ok)

section \<open>Properties\<close>

definition freshReader :: "bytes \<Rightarrow> Reader" where
  "freshReader p = NewReader \<lparr>pending = p, ending = EOF\<rparr> 0"

text \<open>
  C25: a peer that reads what \<open>WriteFrame\<close> wrote for a sequence of bodies gets exactly those
  bodies in order and stops right behind the last one, whatever the buffers it reads into held
  before, as long as each body respects the reader's limit.
\<close>

theorem frame_sequence_roundtrip:
  assumes "list_all (\<lambda>x. int (length x) \<le> maxSize rd \<and> length x < 2 ^ 31) xs"
    "length (concat (map encFrame xs)) \<le> room w" "written w = []"
    "pending (rstream rd) = written (snd (writeFrames w xs)) @ rest"
  shows "fst (writeFrames w xs) = None \<and>
    readFrames rd b (length xs) = Inr (xs, rd\<lparr>rstream := (rstream rd)\<lparr>pending := rest\<rparr>\<rparr>)"
proof -
  have "list_all (\<lambda>x. length x < 2 ^ 32) xs" using assms(1) by (auto simp: list_all_iff)
  from writeFrames_ok [OF this assms(2)] obtain n where
    w: "writeFrames w xs = (None, w\<lparr>written := written w @ concat (map encFrame xs), room := n\<rparr>)" ..
  with assms show ?thesis by (simp add: readFrames_ok)
qed

theorem frame_sequence_roundtrip_witness:
  "fst (writeFrames \<lparr>written = [], room = 100, wfault = EOF\<rparr> [[1, 2], [], [3]]) = None \<and>
   readFrames (freshReader [0,0,0,2, 1,2, 0,0,0,0, 0,0,0,1, 3, 77]) \<lparr>backing = [9, 9, 9], blen = 0\<rparr> 3
     = Inr ([[1, 2], [], [3]], freshReader [77])"
proof -
  let ?w = "\<lparr>written = [], room = 100, wfault = EOF\<rparr>"
  let ?rd = "freshReader [0,0,0,2, 1,2, 0,0,0,0, 0,0,0,1, 3, 77]"
  have "written (snd (writeFrames ?w [[1, 2], [], [3]])) = [0,0,0,2, 1,2, 0,0,0,0, 0,0,0,1, 3]"
    by (simp add: WriteFrame_def Write_def AppendInt32_def)
  then show ?thesis
    using frame_sequence_roundtrip [of ?rd "[[1, 2], [], [3]]" ?w "[77]" "\<lparr>backing = [9, 9, 9], blen = 0\<rparr>"]
    by (simp add: freshReader_def NewReader_def MaxFrameSize_def encFrame_def numeral_3_eq_3)
qed

text \<open>
  Whatever a peer sends, a frame that \<open>ReadFrame\<close> accepts is a four-byte prefix announcing
  its length followed by its bytes, it respects the reader's limit, and the buffer that holds it
  is no larger than it or than it was before: a peer cannot make the proxy allocate more than
  the limit.
\<close>

theorem read_frame_bounded:
  assumes "ReadFrame rd b = Inr (data, b', rd')"
  shows "\<exists>hdr. length hdr = 4 \<and> pending (rstream rd) = hdr @ data @ pending (rstream rd') \<and>
      Uint32 hdr = Inr (of_nat (length data)) \<and> int (length data) \<le> maxSize rd \<and>
      maxSize rd' = maxSize rd \<and> Bytes_b b' = data \<and>
      length (backing b') = max (length data) (length (backing b))"
  by (rule ReadFrame_accepts [OF assms])

theorem read_frame_bounded_witness:
  "\<exists>b' rd'. ReadFrame (freshReader [0,0,0,2, 5,6, 7]) \<lparr>backing = [], blen = 0\<rparr> = Inr ([5, 6], b', rd') \<and>
     pending (rstream rd') = [7] \<and> length (backing b') = 2"
proof -
  have r: "ReadFrame (freshReader [0,0,0,2, 5,6, 7]) \<lparr>backing = [], blen = 0\<rparr>
      = Inr ([5, 6], \<lparr>backing = [5, 6], blen = 2\<rparr>, freshReader [7])" by code_simp
  from read_frame_bounded [OF r] have
    "pending (rstream (freshReader [7])) = [7] \<and> length [5 :: byte, 6] = 2"
    by (auto simp: freshReader_def NewReader_def)
  with r show ?thesis by auto
qed

text \<open>
  In every interleaving of taking buffers, reading frames into them and releasing them,
  the pool only ever holds empty buffers of at most \<open>maxCap\<close> bytes, and a buffer that \<open>Get\<close>
  hands out shows no byte of an earlier frame.
\<close>

theorem pool_invariant:
  assumes "pool_step\<^sup>*\<^sup>* ([], []) (pool, held)" and "Get pool pick = (b, pool')"
  shows "pool_ok pool \<and> Bytes_b b = []"
proof -
  have "pool_ok (fst (pool, held))"
    using assms(1) by (induction rule: rtranclp_induct) (auto simp: pool_ok_def [of "[]"] intro: pool_step_ok)
  then show ?thesis using Get_ok [OF _ assms(2)] by simp
qed

theorem pool_invariant_witness:
  "pool_ok [newBuffer] \<and> Bytes_b newBuffer = []"
proof -
  have "pool_step ([], []) ([], [newBuffer])"
    by (rule pool_step.get [of _ None]) (simp add: Get_def)
  moreover have "pool_step ([], [newBuffer]) ([newBuffer], [])"
    using pool_step.release [of "[]" "[]" newBuffer "[]"]
    by (simp add: Release_def newBuffer_def maxCap_def Reset_def)
  ultimately have "pool_step\<^sup>*\<^sup>* ([], []) ([newBuffer], [])" by simp
  moreover have "Get [newBuffer] (Some 0) = (newBuffer, [])"
    by (simp add: Get_def Reset_def newBuffer_def)
  ultimately show ?thesis by (rule pool_invariant)
qed

end
