(* ===== verification/GoMap.thy ===== *)
theory GoMap
  imports Prelude "HOL-Library.AList" "HOL-Library.Product_Lexorder"
begin

text \<open>
  Go maps.  A map is an association list with distinct keys; its order is the order in which
  one \<open>range\<close> loop of the source visits it, and a statement that must not depend on that order
  quantifies over the permutations of the list.  The locale \<open>go_map\<close> states what the components
  use of a map; its lemmas count entries, which is what the capacity limits of the program need.
\<close>

type_synonym ('k, 'v) gomap = "('k \<times> 'v) list"

definition mget :: "('k, 'v) gomap \<Rightarrow> 'k \<Rightarrow> 'v option" where
  "mget m k = map_of m k"

definition mput :: "'k \<Rightarrow> 'v \<Rightarrow> ('k, 'v) gomap \<Rightarrow> ('k, 'v) gomap" where
  "mput k v m = AList.update k v m"

definition mdel :: "'k \<Rightarrow> ('k, 'v) gomap \<Rightarrow> ('k, 'v) gomap" where
  "mdel k m = AList.delete k m"

definition mkeys :: "('k, 'v) gomap \<Rightarrow> 'k list" where
  "mkeys m = map fst m"

text \<open>Reading a missing key gives the zero value of the element type.\<close>

definition mgetOr :: "'v \<Rightarrow> ('k, 'v) gomap \<Rightarrow> 'k \<Rightarrow> 'v" where
  "mgetOr d m k = (case mget m k of None \<Rightarrow> d | Some v \<Rightarrow> v)"

definition wfmap :: "('k, 'v) gomap \<Rightarrow> bool" where
  "wfmap m \<longleftrightarrow> distinct (mkeys m)"

locale go_map =
  fixes lookup :: "'m \<Rightarrow> 'k \<Rightarrow> 'v option"
    and put :: "'k \<Rightarrow> 'v \<Rightarrow> 'm \<Rightarrow> 'm"
    and del :: "'k \<Rightarrow> 'm \<Rightarrow> 'm"
    and ks :: "'m \<Rightarrow> 'k list"
    and wf :: "'m \<Rightarrow> bool"
  assumes lookup_put: "lookup (put k v m) k' = (if k' = k then Some v else lookup m k')"
    and lookup_del: "lookup (del k m) k' = (if k' = k then None else lookup m k')"
    and set_ks: "set (ks m) = {k. lookup m k \<noteq> None}"
    and wf_ks: "wf m \<Longrightarrow> distinct (ks m)"
    and wf_put: "wf m \<Longrightarrow> wf (put k v m)"
    and wf_del: "wf m \<Longrightarrow> wf (del k m)"
begin

lemma size_ks: "wf m \<Longrightarrow> length (ks m) = card {k. lookup m k \<noteq> None}"
  using distinct_card [OF wf_ks] by (simp add: set_ks)

lemma finite_dom: "finite {k. lookup m k \<noteq> None}"
  using finite_set [of "ks m"] by (simp only: set_ks)

lemma size_put:
  assumes "wf m"
  shows "length (ks (put k v m)) = (if lookup m k = None then Suc (length (ks m)) else length (ks m))"
proof -
  have "{k'. lookup (put k v m) k' \<noteq> None} = insert k {k'. lookup m k' \<noteq> None}"
    by (auto simp: lookup_put)
  then show ?thesis
    using assms finite_dom [of m] by (simp add: size_ks wf_put card_insert_if)
qed

lemma size_del:
  assumes "wf m"
  shows "length (ks (del k m)) = (if lookup m k = None then length (ks m) else length (ks m) - 1)"
proof -
  have "{k'. lookup (del k m) k' \<noteq> None} = {k'. lookup m k' \<noteq> None} - {k}"
    by (auto simp: lookup_del)
  then show ?thesis
    using assms finite_dom [of m] by (simp add: size_ks wf_del card_Diff_singleton_if)
qed

lemma size_put_le: "wf m \<Longrightarrow> length (ks (put k v m)) \<le> Suc (length (ks m))"
  by (simp add: size_put)

lemma size_del_le: "wf m \<Longrightarrow> length (ks (del k m)) \<le> length (ks m)"
  by (simp add: size_del)

end

interpretation gm: go_map mget mput mdel mkeys wfmap
proof unfold_locales
  show "mget (mput k v m) k' = (if k' = k then Some v else mget m k')" for k v m k'
    by (auto simp: mget_def mput_def update_conv')
  show "mget (mdel k m) k' = (if k' = k then None else mget m k')" for k m k'
    by (auto simp: mget_def mdel_def delete_conv')
  show "set (mkeys m) = {k. mget m k \<noteq> None}" for m
    by (simp add: mkeys_def mget_def dom_map_of_conv_image_fst [symmetric] dom_def)
  show "distinct (mkeys m)" if "wfmap m" for m
    using that by (simp add: wfmap_def)
  show "wfmap (mput k v m)" if "wfmap m" for k v m
    using that by (simp add: wfmap_def mkeys_def mput_def distinct_update)
  show "wfmap (mdel k m)" if "wfmap m" for k m
    using that by (simp add: wfmap_def mkeys_def mdel_def distinct_delete)
qed

lemmas gomap_simps [simp] = gm.lookup_put gm.lookup_del
lemmas gomap_wf [simp, intro] = gm.wf_put gm.wf_del

lemma length_mkeys [simp]: "length (mkeys m) = length m"
  by (simp add: mkeys_def)

lemma wfmap_Nil [simp]: "wfmap []"
  by (simp add: wfmap_def mkeys_def)

lemma mget_Nil [simp]: "mget [] k = None"
  by (simp add: mget_def)

lemma mgetOr_Nil [simp]: "mgetOr d [] k = d"
  by (simp add: mgetOr_def)

lemma mgetOr_mput [simp]: "mgetOr d (mput k v m) k' = (if k' = k then v else mgetOr d m k')"
  by (simp add: mgetOr_def)

lemma in_mkeys: "k \<in> set (mkeys m) \<longleftrightarrow> mget m k \<noteq> None"
  by (simp add: gm.set_ks)

lemma mget_in_set: "wfmap m \<Longrightarrow> mget m k = Some v \<longleftrightarrow> (k, v) \<in> set m"
  by (auto simp: mget_def wfmap_def mkeys_def)

lemma mget_perm: "wfmap m \<Longrightarrow> mset m = mset m' \<Longrightarrow> mget m = mget m'"
  by (rule ext) (metis map_of_inject_set mget_def mkeys_def mset_eq_imp_distinct_iff mset_eq_setD mset_map wfmap_def)


lemma mget_Cons: "mget ((k, v) # m) k' = (if k' = k then Some v else mget m k')"
  by (simp add: mget_def)

lemma wfmap_Cons: "wfmap ((k, v) # m) \<longleftrightarrow> mget m k = None \<and> wfmap m"
  by (simp add: wfmap_def mget_def map_of_eq_None_iff mkeys_def)

text \<open>The map that a \<open>range\<close> loop over another builds.\<close>

lemma mput_foldl:
  "wfmap m \<Longrightarrow> mget (foldl (\<lambda>acc (k, v). mput k (f k v) acc) acc m) k =
     (case mget m k of None \<Rightarrow> mget acc k | Some v \<Rightarrow> Some (f k v))"
  by (induction m arbitrary: acc) (auto simp: mget_Cons wfmap_Cons split: option.splits)

section \<open>Sums over a map\<close>

definition msum :: "('k \<Rightarrow> 'v \<Rightarrow> 'b::comm_monoid_add) \<Rightarrow> ('k, 'v) gomap \<Rightarrow> 'b" where
  "msum f m = sum_list (map (\<lambda>(k, v). f k v) m)"

lemma msum_Nil [simp]: "msum f [] = 0"
  by (simp add: msum_def)

lemma msum_mput:
  assumes "f k d = 0"
  shows "msum f (mput k v m) + f k (mgetOr d m k) = msum f m + f k v"
proof (induction m)
  case Nil
  then show ?case using assms by (simp add: msum_def mput_def)
next
  case (Cons e m)
  obtain k' v' where e: "e = (k', v')" by (cases e)
  show ?case
  proof (cases "k' = k")
    case True
    then show ?thesis by (simp add: e msum_def mput_def mgetOr_def mget_def add_ac)
  next
    case False
    then have "mgetOr d (e # m) k = mgetOr d m k" and "mput k v (e # m) = e # mput k v m"
      by (auto simp: e mgetOr_def mget_def mput_def)
    then show ?thesis using Cons by (simp add: e msum_def add_ac)
  qed
qed

lemma msum_cong: "(\<And>k v. (k, v) \<in> set m \<Longrightarrow> f k v = g k v) \<Longrightarrow> msum f m = msum g m"
  unfolding msum_def by (rule arg_cong [where f = sum_list]) (auto intro!: map_cong)

lemma msum_single:
  assumes "wfmap m" "f k d = 0"
  shows "msum (\<lambda>k' v. if k' = k then f k v else 0) m = f k (mgetOr d m k)"
  using assms(1)
proof (induction m)
  case Nil
  then show ?case by (simp add: assms)
next
  case (Cons e m)
  obtain k' v' where e: "e = (k', v')" by (cases e)
  from Cons.prems have m: "wfmap m" and k': "k' \<notin> set (mkeys m)" by (simp_all add: e wfmap_def mkeys_def)
  show ?case
  proof (cases "k' = k")
    case True
    then have "msum (\<lambda>k' v. if k' = k then f k v else 0) m = msum (\<lambda>_ _. 0) m"
      using k' by (intro msum_cong) (force simp: mkeys_def)
    with True show ?thesis by (simp add: e msum_def mgetOr_def mget_def case_prod_beta')
  next
    case False
    then show ?thesis using Cons.IH [OF m] by (simp add: e msum_def mgetOr_def mget_def)
  qed
qed


lemma count_msum: "count (msum f m) x = msum (\<lambda>k v. count (f k v) x) m"
  unfolding msum_def by (induction m) auto


lemma msum_map: "msum f (map (\<lambda>(k, v). (k, g k v)) m) = msum (\<lambda>k v. f k (g k v)) m"
  by (simp add: msum_def case_prod_beta' comp_def)


lemma msum_sum:
  assumes "wfmap m" "finite A" "\<And>k. f k d = 0" "\<And>k v. (k, v) \<in> set m \<Longrightarrow> k \<notin> A \<Longrightarrow> f k v = 0"
  shows "msum f m = (\<Sum>k\<in>A. f k (mgetOr d m k))"
proof -
  have "msum f m = msum (\<lambda>k v. \<Sum>a\<in>A. if k = a then f a v else 0) m"
  proof (rule msum_cong)
    fix k v assume "(k, v) \<in> set m"
    then show "f k v = (\<Sum>a\<in>A. if k = a then f a v else 0)"
      using assms(2,4) by (simp add: sum.delta')
  qed
  also have "\<dots> = (\<Sum>a\<in>A. msum (\<lambda>k v. if k = a then f a v else 0) m)"
    unfolding msum_def by (induction m) (auto simp: sum.distrib)
  also have "\<dots> = (\<Sum>k\<in>A. f k (mgetOr d m k))"
    using msum_single [OF assms(1), of f _ d] assms(3) by simp
  finally show ?thesis .
qed

end
