(* ===== verification/Plan.thy ===== *)
theory Plan
  imports GoMap ConsumerProtocol
begin

text \<open>
  \<open>internal/plan/plan.go\<close>: the capacity-weighted sticky assignment of partitions to the members
  of a consumer group.

  \<open>Compute\<close> is the composition of one definition per loop of the source: the member index, the
  subscribers of every topic, the free pool, the sticky pass over the previous plan, the weights,
  the weighted distribution, the feasibility pass and the final sort.  The one loop of the source
  whose outcome depends on Go's map iteration order is the search for a donor in the feasibility
  pass; its order is the parameter \<open>ord\<close>, which may be any permutation.
\<close>

section \<open>Data\<close>

record Member =
  mMemberID :: string
  mTopics :: "string list"
  mLag :: int64

type_synonym Plan = "(string, (string, int32 list) gomap) gomap"

record Inputs =
  inGroupID :: string
  inMembers :: "Member list"
  inPartitions :: "(string, int32 list) gomap"
  inPrevious :: "Plan option"

definition Add :: "Plan \<Rightarrow> string \<Rightarrow> string \<Rightarrow> int32 \<Rightarrow> Plan" where
  "Add p member topic part =
     (let tm = mgetOr [] p member
      in mput member (mput topic (mgetOr [] tm topic @ [part]) tm) p)"

definition hasAny :: "(string, int32 list) gomap \<Rightarrow> bool" where
  "hasAny byTopic = list_ex (\<lambda>(t, ps). length ps > 0) byTopic"

section \<open>The free pool\<close>

type_synonym freeKey = "string \<times> int32"

record freePool =
  fpkeys :: "freeKey list"
  fpindex :: "(freeKey, nat) gomap"

definition emptyPool :: freePool where
  "emptyPool = \<lparr>fpkeys = [], fpindex = []\<rparr>"

definition pool_add :: "freePool \<Rightarrow> string \<Rightarrow> int32 \<Rightarrow> freePool" where
  "pool_add f topic p =
     (let k = (topic, p) in
      if mget (fpindex f) k \<noteq> None then f
      else \<lparr>fpkeys = fpkeys f @ [k], fpindex = mput k (length (fpkeys f)) (fpindex f)\<rparr>)"

definition pool_remove :: "freePool \<Rightarrow> string \<Rightarrow> int32 \<Rightarrow> bool \<times> freePool" where
  "pool_remove f topic p =
     (let k = (topic, p) in
      case mget (fpindex f) k of
        None \<Rightarrow> (False, f)
      | Some idx \<Rightarrow> (True, \<lparr>fpkeys = (fpkeys f)[idx := ('''', 0)], fpindex = mdel k (fpindex f)\<rparr>))"

text \<open>The keys that \<open>forEach\<close> calls its function on, in order.\<close>

definition pool_remaining :: "freePool \<Rightarrow> freeKey list" where
  "pool_remaining f =
     sort_key (\<lambda>(t, p). (t, sint p)) (filter (\<lambda>k. mget (fpindex f) k \<noteq> None) (fpkeys f))"

section \<open>Compute, loop by loop\<close>

definition memberIDs :: "Member list \<Rightarrow> string list" where
  "memberIDs ms = sort (map mMemberID ms)"

definition memberByID :: "Member list \<Rightarrow> (string, Member) gomap" where
  "memberByID ms = foldl (\<lambda>acc m. mput (mMemberID m) m acc) [] ms"

definition topicsOf :: "(string, Member) gomap \<Rightarrow> string \<Rightarrow> string list" where
  "topicsOf byID mid = (case mget byID mid of None \<Rightarrow> [] | Some m \<Rightarrow> mTopics m)"

definition lagOf :: "(string, Member) gomap \<Rightarrow> string \<Rightarrow> int64" where
  "lagOf byID mid = (case mget byID mid of None \<Rightarrow> 0 | Some m \<Rightarrow> mLag m)"

definition addSubscriber :: "string \<Rightarrow> (string, string list) gomap \<Rightarrow> string \<Rightarrow> (string, string list) gomap" where
  "addSubscriber mid subs t =
     (let s = mgetOr [] subs t in mput t (if mid \<in> set s then s else s @ [mid]) subs)"

definition subscribers :: "(string, Member) gomap \<Rightarrow> string list \<Rightarrow> (string, string list) gomap" where
  "subscribers byID ids = foldl (\<lambda>acc mid. foldl (addSubscriber mid) acc (topicsOf byID mid)) [] ids"

definition initPool :: "(string, int32 list) gomap \<Rightarrow> freePool" where
  "initPool parts = foldl (\<lambda>f (topic, ps). foldl (\<lambda>f p. pool_add f topic p) f ps) emptyPool parts"

definition stickyPart :: "string \<Rightarrow> string \<Rightarrow> Plan \<times> freePool \<Rightarrow> int32 \<Rightarrow> Plan \<times> freePool" where
  "stickyPart mid topic s p =
     (case pool_remove (snd s) topic p of
        (True, f) \<Rightarrow> (Add (fst s) mid topic p, f)
      | (False, f) \<Rightarrow> (fst s, f))"

definition stickyTopic ::
  "(string, string list) gomap \<Rightarrow> string \<Rightarrow> Plan \<times> freePool \<Rightarrow> string \<times> int32 list \<Rightarrow> Plan \<times> freePool" where
  "stickyTopic subs mid s e =
     (if mid \<in> set (mgetOr [] subs (fst e)) then foldl (stickyPart mid (fst e)) s (snd e) else s)"

definition stickyMember :: "(string, string list) gomap \<Rightarrow> Plan \<Rightarrow> Plan \<times> freePool \<Rightarrow> string \<Rightarrow> Plan \<times> freePool" where
  "stickyMember subs prev s mid = foldl (stickyTopic subs mid) s (mgetOr [] prev mid)"

definition stickyPass ::
  "(string, string list) gomap \<Rightarrow> Plan option \<Rightarrow> string list \<Rightarrow> freePool \<Rightarrow> Plan \<times> freePool" where
  "stickyPass subs previous ids f =
     (case previous of None \<Rightarrow> ([], f) | Some prev \<Rightarrow> foldl (stickyMember subs prev) ([], f) ids)"

definition weightOf :: "int64 \<Rightarrow> int" where
  "weightOf lag =
     (let w = (if sint lag > 0 then 100 - min (sint lag div 1000) 99 else 100)
      in if w < 1 then 1 else w)"

definition weights :: "(string, Member) gomap \<Rightarrow> string list \<Rightarrow> (string, int) gomap" where
  "weights byID ids = foldl (\<lambda>acc mid. mput mid (weightOf (lagOf byID mid)) acc) [] ids"

definition loadsOf :: "Plan \<Rightarrow> (string, int) gomap" where
  "loadsOf out =
     foldl (\<lambda>ld (mid, byTopic).
        foldl (\<lambda>ld (t, ps). mput mid (mgetOr 0 ld mid + int (length ps)) ld) ld byTopic) [] out"

text \<open>The candidate so far (id, score and load), and one step of the search for the best member.\<close>

definition better ::
  "(string, int) gomap \<Rightarrow> (string, int) gomap \<Rightarrow> string list \<Rightarrow> string \<times> int \<times> int \<Rightarrow> string \<Rightarrow> string \<times> int \<times> int" where
  "better weight load subs best mid =
     (case best of (bestID, bestScore, bestLoad) \<Rightarrow>
      if mid \<notin> set subs then best
      else let ld = mgetOr 0 load mid; score = mgetOr 0 weight mid * 8 - ld in
           if bestID = '''' \<or> score > bestScore \<or> (score = bestScore \<and> ld < bestLoad)
           then (mid, score, ld) else best)"

definition bestMember ::
  "(string, int) gomap \<Rightarrow> (string, int) gomap \<Rightarrow> string list \<Rightarrow> string list \<Rightarrow> string" where
  "bestMember weight load subs ids = fst (foldl (better weight load subs) ('''', -1, 0) ids)"

definition assignOne ::
  "(string, string list) gomap \<Rightarrow> (string, int) gomap \<Rightarrow> string list
    \<Rightarrow> Plan \<times> (string, int) gomap \<Rightarrow> freeKey \<Rightarrow> Plan \<times> (string, int) gomap" where
  "assignOne subscr weight ids s k =
     (let topic = fst k; p = snd k; out = fst s; load = snd s;
          subs = mgetOr [] subscr topic
      in if length subs = 0 then s
         else let best = bestMember weight load subs ids in
              if best \<noteq> '''' then (Add out best topic p, mput best (mgetOr 0 load best + 1) load)
              else s)"

definition distribute ::
  "(string, string list) gomap \<Rightarrow> (string, int) gomap \<Rightarrow> string list
    \<Rightarrow> Plan \<times> (string, int) gomap \<Rightarrow> freeKey list \<Rightarrow> Plan \<times> (string, int) gomap" where
  "distribute subscr weight ids s ks = foldl (assignOne subscr weight ids) s ks"

definition donorStep :: "(string, int) gomap \<Rightarrow> string \<Rightarrow> string \<times> int \<Rightarrow> string \<Rightarrow> string \<times> int" where
  "donorStep load mid best did =
     (case best of (donorID, donorLoad) \<Rightarrow>
      if did = mid then best
      else if mgetOr 0 load did > donorLoad then (did, mgetOr 0 load did) else best)"

definition findDonor :: "(string, int) gomap \<Rightarrow> string \<Rightarrow> string list \<Rightarrow> string" where
  "findDonor load mid subs = fst (foldl (donorStep load mid) ('''', -1) subs)"

text \<open>The topics of a starved member, up to the first from which a partition can be stolen.\<close>

fun stealFor ::
  "(string list \<Rightarrow> string list) \<Rightarrow> (string, int32 list) gomap \<Rightarrow> (string, string list) gomap \<Rightarrow> string
    \<Rightarrow> Plan \<times> (string, int) gomap \<Rightarrow> string list \<Rightarrow> Plan \<times> (string, int) gomap" where
  "stealFor ord parts subscr mid s [] = s"
| "stealFor ord parts subscr mid s (topic # topics) =
     (let out = fst s; load = snd s;
          ps = mgetOr [] parts topic; subs = mgetOr [] subscr topic
      in if length ps < length subs then stealFor ord parts subscr mid s topics
         else let donor = findDonor load mid (ord subs) in
         if donor = '''' then stealFor ord parts subscr mid s topics
         else let donorTopics = mgetOr [] out donor; donorParts = mgetOr [] donorTopics topic in
         if length donorParts \<le> 1 then stealFor ord parts subscr mid s topics
         else let stolen = last donorParts;
                  out1 = mput donor (mput topic (butlast donorParts) donorTopics) out;
                  load1 = mput donor (mgetOr 0 load donor - 1) load
              in (Add out1 mid topic stolen, mput mid (mgetOr 0 load1 mid + 1) load1))"

definition feasibleMember ::
  "(string list \<Rightarrow> string list) \<Rightarrow> (string, int32 list) gomap \<Rightarrow> (string, string list) gomap
    \<Rightarrow> (string, Member) gomap \<Rightarrow> Plan \<times> (string, int) gomap \<Rightarrow> string \<Rightarrow> Plan \<times> (string, int) gomap" where
  "feasibleMember ord parts subscr byID s mid =
     (if hasAny (mgetOr [] (fst s) mid) then s
      else stealFor ord parts subscr mid s (topicsOf byID mid))"

definition feasibility ::
  "(string list \<Rightarrow> string list) \<Rightarrow> (string, int32 list) gomap \<Rightarrow> (string, string list) gomap
    \<Rightarrow> (string, Member) gomap \<Rightarrow> string list \<Rightarrow> Plan \<times> (string, int) gomap \<Rightarrow> Plan \<times> (string, int) gomap" where
  "feasibility ord parts subscr byID ids s = foldl (feasibleMember ord parts subscr byID) s ids"

definition sortPlan :: "Plan \<Rightarrow> Plan" where
  "sortPlan out = map (\<lambda>(mid, byTopic). (mid, map (\<lambda>(t, ps). (t, sort_key sint ps)) byTopic)) out"

definition Compute :: "(string list \<Rightarrow> string list) \<Rightarrow> Inputs \<Rightarrow> Plan" where
  "Compute ord input =
     (if length (inMembers input) = 0 then []
      else
        let ids = memberIDs (inMembers input);
            byID = memberByID (inMembers input);
            subscr = subscribers byID ids;
            free = initPool (inPartitions input);
            sticky = stickyPass subscr (inPrevious input) ids free;
            weight = weights byID ids;
            load = loadsOf (fst sticky);
            dist = distribute subscr weight ids (fst sticky, load) (pool_remaining (snd sticky));
            feas = feasibility ord (inPartitions input) subscr byID ids dist
        in sortPlan (fst feas))"

section \<open>Rendering\<close>

record MemberAssignment =
  maMemberID :: string
  maPartitions :: "TopicPartitions list"

definition ToAssignments :: "Plan \<Rightarrow> MemberAssignment list" where
  "ToAssignments p =
     map (\<lambda>mid. let topics = mgetOr [] p mid in
            \<lparr>maMemberID = mid,
             maPartitions = map (\<lambda>t. \<lparr>tpTopic = t, tpPartitions = mgetOr [] topics t\<rparr>) (sort (mkeys topics))\<rparr>)
       (sort (mkeys p))"

section \<open>Plans as multisets of triples\<close>

definition partsOf :: "Plan \<Rightarrow> string \<Rightarrow> string \<Rightarrow> int32 list" where
  "partsOf out mid t = mgetOr [] (mgetOr [] out mid) t"

definition triples :: "Plan \<Rightarrow> (string \<times> string \<times> int32) multiset" where
  "triples out = msum (\<lambda>mid byTopic. msum (\<lambda>t ps. mset (map (\<lambda>p. (mid, t, p)) ps)) byTopic) out"

definition wfplan :: "Plan \<Rightarrow> bool" where
  "wfplan out \<longleftrightarrow> wfmap out \<and> (\<forall>mid. wfmap (mgetOr [] out mid))"

definition total :: "Plan \<Rightarrow> string \<Rightarrow> int" where
  "total out mid = msum (\<lambda>t ps. int (length ps)) (mgetOr [] out mid)"

lemma triples_Nil [simp]: "triples [] = {#}"
  by (simp add: triples_def)

lemma wfplan_Nil [simp]: "wfplan []"
  by (simp add: wfplan_def)

text \<open>Replacing the partitions of one member for one topic.\<close>

definition setParts :: "Plan \<Rightarrow> string \<Rightarrow> string \<Rightarrow> int32 list \<Rightarrow> Plan" where
  "setParts out mid t ps = mput mid (mput t ps (mgetOr [] out mid)) out"

lemma Add_setParts: "Add out mid t p = setParts out mid t (partsOf out mid t @ [p])"
  by (simp add: Add_def setParts_def partsOf_def Let_def)

lemma partsOf_setParts:
  "partsOf (setParts out mid t ps) mid' t' = (if mid' = mid \<and> t' = t then ps else partsOf out mid' t')"
  by (simp add: partsOf_def setParts_def)

lemma wfplan_setParts: "wfplan out \<Longrightarrow> wfplan (setParts out mid t ps)"
  by (auto simp: wfplan_def setParts_def)

lemma triples_setParts:
  "triples (setParts out mid t ps) + mset (map (\<lambda>p. (mid, t, p)) (partsOf out mid t))
    = triples out + mset (map (\<lambda>p. (mid, t, p)) ps)"
proof -
  let ?g = "\<lambda>mid t ps. mset (map (\<lambda>p. (mid, t, p)) ps)"
  let ?bt = "mgetOr [] out mid"
  have inner: "msum (?g mid) (mput t ps ?bt) + ?g mid t (partsOf out mid t)
      = msum (?g mid) ?bt + ?g mid t ps"
    unfolding partsOf_def by (rule msum_mput) simp
  have outer: "triples (setParts out mid t ps) + msum (?g mid) ?bt
      = triples out + msum (?g mid) (mput t ps ?bt)"
    unfolding triples_def setParts_def by (rule msum_mput) simp
  have "triples (setParts out mid t ps) + ?g mid t (partsOf out mid t) + msum (?g mid) ?bt
      = triples out + (msum (?g mid) (mput t ps ?bt) + ?g mid t (partsOf out mid t))"
    using outer by (simp add: add_ac del: mset_map)
  also have "\<dots> = triples out + ?g mid t ps + msum (?g mid) ?bt"
    unfolding inner by (simp add: add_ac del: mset_map)
  finally show ?thesis by (simp del: mset_map)
qed

lemma total_setParts:
  "total (setParts out mid t ps) mid'
    = (if mid' = mid then total out mid + int (length ps) - int (length (partsOf out mid t)) else total out mid')"
  using msum_mput [of "\<lambda>t ps. int (length ps)" t "[]" ps "mgetOr [] out mid"]
  by (simp add: total_def setParts_def partsOf_def)

lemma triples_Add: "triples (Add out mid t p) = add_mset (mid, t, p) (triples out)"
  using triples_setParts [of out mid t "partsOf out mid t @ [p]"] by (simp add: Add_setParts)

lemma total_Add: "total (Add out mid t p) mid' = total out mid' + (if mid' = mid then 1 else 0)"
  by (simp add: Add_setParts total_setParts)

lemma wfplan_Add: "wfplan out \<Longrightarrow> wfplan (Add out mid t p)"
  by (simp add: Add_setParts wfplan_setParts)

lemma partsOf_Add:
  "partsOf (Add out mid t p) mid' t' = partsOf out mid' t' @ (if mid' = mid \<and> t' = t then [p] else [])"
  by (simp add: Add_setParts partsOf_setParts)

lemmas plan_simps = triples_Add total_Add wfplan_Add partsOf_Add

text \<open>The triples of a plan are what its lookups return.\<close>

lemma count_inner:
  assumes "wfmap bt"
  shows "count (msum (\<lambda>t ps. mset (map (\<lambda>p. (mid, t, p)) ps)) bt) (mid', t, p)
    = (if mid' = mid then count_list (mgetOr [] bt t) p else 0)"
proof -
  have "count (mset (map (\<lambda>p. (mid, t', p)) ps)) (mid', t, p)
      = (if t' = t then (if mid' = mid then count_list ps p else 0) else 0)" for t' ps
    by (induction ps) auto
  then show ?thesis
    using msum_single [OF assms, of "\<lambda>t ps. if mid' = mid then count_list ps p else 0" t "[]"]
    by (simp add: count_msum del: mset_map)
qed

lemma count_triples:
  assumes wf: "wfplan out"
  shows "count (triples out) (mid, t, p) = count_list (partsOf out mid t) p"
proof -
  let ?g = "\<lambda>mid byTopic. msum (\<lambda>t ps. mset (map (\<lambda>p. (mid, t, p)) ps)) byTopic"
  have bt: "wfmap bt" if "(mid', bt) \<in> set out" for mid' bt
    using wf that unfolding wfplan_def by (metis mgetOr_def mget_in_set option.simps(5))
  have "msum (\<lambda>mid' bt. count (?g mid' bt) (mid, t, p)) out
      = msum (\<lambda>mid' bt. if mid' = mid then count_list (mgetOr [] bt t) p else 0) out"
    by (rule msum_cong) (auto simp: count_inner [OF bt] simp del: mset_map)
  also have "\<dots> = count_list (partsOf out mid t) p"
    using wf msum_single [of out "\<lambda>_ bt. count_list (mgetOr [] bt t) p" mid "[]"]
    by (simp add: wfplan_def partsOf_def)
  finally show ?thesis by (simp add: triples_def count_msum del: mset_map)
qed

lemma in_triples: "wfplan out \<Longrightarrow> (mid, t, p) \<in># triples out \<longleftrightarrow> p \<in> set (partsOf out mid t)"
  by (metis count_triples count_list_0_iff count_greater_zero_iff not_gr_zero)

end
