(* ===== verification/PlanCorrect.thy ===== *)
theory PlanCorrect
  imports Plan
begin

text \<open>
  Correctness of \<open>plan.Compute\<close>: what is assigned, to whom, and that nothing is assigned twice;
  stickiness; that no member is starved when there are partitions enough; balance; and that the
  result does not depend on the order of the input maps.  The proofs follow the loops of
  \<open>Compute\<close>: each stage has an invariant on the multiset of assigned triples.
\<close>

section \<open>Members and subscribers\<close>

lemma set_memberIDs [simp]: "set (memberIDs ms) = mMemberID ` set ms"
  by (simp add: memberIDs_def)

lemma mget_foldl_put_other:
  "k \<notin> f ` set xs \<Longrightarrow> mget (foldl (\<lambda>acc x. mput (f x) (g x) acc) acc xs) k = mget acc k"
  by (induction xs arbitrary: acc) auto

lemma mget_foldl_put:
  "distinct (map f xs) \<Longrightarrow> x \<in> set xs \<Longrightarrow>
   mget (foldl (\<lambda>acc x. mput (f x) (g x) acc) acc xs) (f x) = Some (g x)"
  by (induction xs arbitrary: acc) (auto simp: mget_foldl_put_other)

lemma mget_memberByID:
  assumes "distinct (map mMemberID ms)" "m \<in> set ms"
  shows "mget (memberByID ms) (mMemberID m) = Some m"
  unfolding memberByID_def using assms by (rule mget_foldl_put)

lemma topicsOf_member:
  "distinct (map mMemberID ms) \<Longrightarrow> m \<in> set ms \<Longrightarrow> topicsOf (memberByID ms) (mMemberID m) = mTopics m"
  by (simp add: topicsOf_def mget_memberByID)

lemma set_addSubscriber:
  "set (mgetOr [] (addSubscriber mid subs t) t') = set (mgetOr [] subs t') \<union> (if t' = t then {mid} else {})"
  by (auto simp: addSubscriber_def Let_def)

lemma set_foldl_addSubscriber:
  "set (mgetOr [] (foldl (addSubscriber mid) subs ts) t)
    = set (mgetOr [] subs t) \<union> (if t \<in> set ts then {mid} else {})"
  by (induction ts arbitrary: subs) (auto simp: set_addSubscriber)

lemma set_subscribers:
  "set (mgetOr [] (subscribers byID ids) t) = {mid \<in> set ids. t \<in> set (topicsOf byID mid)}"
proof -
  have "set (mgetOr [] (foldl (\<lambda>acc mid. foldl (addSubscriber mid) acc (topicsOf byID mid)) acc ids) t)
      = set (mgetOr [] acc t) \<union> {mid \<in> set ids. t \<in> set (topicsOf byID mid)}" for acc
    by (induction ids arbitrary: acc) (auto simp: set_foldl_addSubscriber)
  from this [of "[]"] show ?thesis by (simp add: subscribers_def)
qed

lemma distinct_addSubscriber:
  "\<forall>t. distinct (mgetOr [] subs t) \<Longrightarrow> \<forall>t. distinct (mgetOr [] (addSubscriber mid subs t') t)"
  by (auto simp: addSubscriber_def Let_def)

lemma distinct_subscribers: "distinct (mgetOr [] (subscribers byID ids) t)"
proof -
  have inner: "\<forall>t. distinct (mgetOr [] (foldl (addSubscriber mid) subs ts) t)"
    if "\<forall>t. distinct (mgetOr [] subs t)" for mid subs ts
    using that by (induction ts arbitrary: subs) (auto simp: distinct_addSubscriber)
  have "\<forall>t. distinct (mgetOr [] (foldl (\<lambda>acc mid. foldl (addSubscriber mid) acc (topicsOf byID mid)) acc ids) t)"
    if "\<forall>t. distinct (mgetOr [] acc t)" for acc
    using that
  proof (induction ids arbitrary: acc)
    case (Cons i ids)
    show ?case using Cons.IH [OF inner [OF Cons.prems]] by simp
  qed simp
  from this [of "[]"] show ?thesis by (simp add: subscribers_def)
qed

section \<open>The free pool\<close>

definition poolKeys :: "freePool \<Rightarrow> freeKey set" where
  "poolKeys f = {k. mget (fpindex f) k \<noteq> None}"

definition poolInv :: "freePool \<Rightarrow> bool" where
  "poolInv f \<longleftrightarrow>
     (\<forall>k i. mget (fpindex f) k = Some i \<longrightarrow> i < length (fpkeys f) \<and> fpkeys f ! i = k) \<and>
     ('''', 0) \<notin> poolKeys f \<and>
     filter_mset (\<lambda>k. k \<noteq> ('''', 0)) (mset (fpkeys f)) = mset_set (poolKeys f)"

lemma finite_poolKeys [simp]: "finite (poolKeys f)"
  unfolding poolKeys_def by (rule gm.finite_dom)

lemma poolInv_empty: "poolInv emptyPool"
  by (simp add: poolInv_def emptyPool_def poolKeys_def)

lemma poolKeys_add: "poolKeys (pool_add f t p) = insert (t, p) (poolKeys f)"
  by (auto simp: pool_add_def poolKeys_def Let_def)

lemma poolInv_add:
  assumes "poolInv f" "t \<noteq> ''''"
  shows "poolInv (pool_add f t p)"
proof (cases "(t, p) \<in> poolKeys f")
  case True
  then have "pool_add f t p = f" by (auto simp: pool_add_def poolKeys_def)
  with assms(1) show ?thesis by simp
next
  case False
  then have add: "pool_add f t p
      = \<lparr>fpkeys = fpkeys f @ [(t, p)], fpindex = mput (t, p) (length (fpkeys f)) (fpindex f)\<rparr>"
    by (auto simp: pool_add_def poolKeys_def Let_def)
  have "mset_set (poolKeys (pool_add f t p)) = add_mset (t, p) (mset_set (poolKeys f))"
    using False by (simp add: poolKeys_add)
  with assms show ?thesis
    unfolding poolInv_def poolKeys_add by (auto simp: add nth_append less_Suc_eq)
qed

lemma poolKeys_remove:
  "pool_remove f t p = (b, f') \<Longrightarrow> poolKeys f' = poolKeys f - {(t, p)} \<and> (b \<longleftrightarrow> (t, p) \<in> poolKeys f)"
  by (auto simp: pool_remove_def poolKeys_def Let_def split: option.splits if_splits)

lemma poolInv_remove:
  assumes inv: "poolInv f" and r: "pool_remove f t p = (b, f')"
  shows "poolInv f'"
proof (cases "mget (fpindex f) (t, p)")
  case None
  with r inv show ?thesis by (auto simp: pool_remove_def)
next
  case (Some i)
  let ?k = "(t, p)"
  have idx: "j < length (fpkeys f) \<and> fpkeys f ! j = k'" if "mget (fpindex f) k' = Some j" for k' j
    using inv that unfolding poolInv_def by blast
  from Some inv have i: "i < length (fpkeys f)" "fpkeys f ! i = ?k" and k: "?k \<in> poolKeys f" "?k \<noteq> ('''', 0)"
    unfolding poolInv_def by (auto simp: poolKeys_def)
  from r Some have f': "f' = \<lparr>fpkeys = (fpkeys f)[i := ('''', 0)], fpindex = mdel ?k (fpindex f)\<rparr>"
    by (simp add: pool_remove_def Let_def)
  have keys: "poolKeys f' = poolKeys f - {?k}" using poolKeys_remove [OF r] by simp
  have "mset_set (poolKeys f - {?k}) = mset_set (poolKeys f) - {#?k#}"
    using k by (simp add: mset_set_Diff)
  moreover have "filter_mset (\<lambda>k. k \<noteq> ('''', 0)) (mset ((fpkeys f)[i := ('''', 0)]))
      = filter_mset (\<lambda>k. k \<noteq> ('''', 0)) (mset (fpkeys f)) - {#?k#}"
    using i k by (simp add: mset_update filter_diff_mset)
  moreover have "j < length (fpkeys f') \<and> fpkeys f' ! j = k'" if "mget (fpindex f') k' = Some j" for k' j
    using that i idx [of k' j] unfolding f' by (auto simp: nth_list_update split: if_splits)
  ultimately show ?thesis
    using inv unfolding poolInv_def keys by (auto simp: f')
qed

lemma mset_remaining:
  assumes "poolInv f"
  shows "mset (pool_remaining f) = mset_set (poolKeys f)"
proof -
  let ?live = "\<lambda>k. mget (fpindex f) k \<noteq> None"
  have "mset (pool_remaining f) = filter_mset ?live (mset (fpkeys f))"
    by (simp add: pool_remaining_def)
  also have "\<dots> = filter_mset ?live (filter_mset (\<lambda>k. k \<noteq> ('''', 0)) (mset (fpkeys f)))"
    using assms unfolding filter_filter_mset poolInv_def poolKeys_def
    by (intro filter_mset_cong) auto
  also have "\<dots> = filter_mset ?live (mset_set (poolKeys f))"
    using assms by (simp add: poolInv_def)
  also have "\<dots> = mset_set (poolKeys f)"
    using filter_mset_cong [of "mset_set (poolKeys f)" "mset_set (poolKeys f)" ?live "\<lambda>_. True"]
      finite_poolKeys [of f] by (simp add: elem_mset_set) (simp add: poolKeys_def)
  finally show ?thesis .
qed

definition allPairs :: "(string, int32 list) gomap \<Rightarrow> freeKey set" where
  "allPairs parts = {(t, p). p \<in> set (mgetOr [] parts t)}"

lemma pool_add_list:
  assumes "poolInv f" "t \<noteq> ''''"
  shows "poolInv (foldl (\<lambda>f p. pool_add f t p) f ps) \<and>
    poolKeys (foldl (\<lambda>f p. pool_add f t p) f ps) = poolKeys f \<union> {t} \<times> set ps"
  using assms by (induction ps arbitrary: f) (auto simp: poolInv_add poolKeys_add)

lemma initPool_raw:
  assumes "poolInv f" "'''' \<notin> set (mkeys parts)"
  shows "poolInv (foldl (\<lambda>f (topic, ps). foldl (\<lambda>f p. pool_add f topic p) f ps) f parts) \<and>
    poolKeys (foldl (\<lambda>f (topic, ps). foldl (\<lambda>f p. pool_add f topic p) f ps) f parts)
      = poolKeys f \<union> (\<Union>(t, ps) \<in> set parts. {t} \<times> set ps)"
  using assms
proof (induction parts arbitrary: f)
  case (Cons e parts)
  obtain t ps where e: "e = (t, ps)" by (cases e)
  let ?f = "foldl (\<lambda>f p. pool_add f t p) f ps"
  have f: "poolInv ?f \<and> poolKeys ?f = poolKeys f \<union> {t} \<times> set ps"
    using Cons.prems by (intro pool_add_list) (auto simp: e mkeys_def)
  then show ?case using Cons.IH [of ?f] Cons.prems by (auto simp: e mkeys_def)
qed simp

lemma allPairs_union:
  assumes "wfmap parts"
  shows "allPairs parts = (\<Union>(t, ps) \<in> set parts. {t} \<times> set ps)"
proof -
  have "(t, p) \<in> allPairs parts \<longleftrightarrow> (\<exists>ps. (t, ps) \<in> set parts \<and> p \<in> set ps)" for t p
    by (auto simp: allPairs_def mgetOr_def mget_in_set [OF assms, symmetric] split: option.splits) metis
  then show ?thesis by auto
qed

lemma initPool_ok:
  assumes "wfmap parts" "'''' \<notin> set (mkeys parts)"
  shows "poolInv (initPool parts)" "poolKeys (initPool parts) = allPairs parts"
  using initPool_raw [OF poolInv_empty assms(2)]
  by (simp_all add: initPool_def allPairs_union [OF assms(1)] emptyPool_def poolKeys_def)

section \<open>The sticky pass\<close>

text \<open>
  What the passes before the distribution keep: every pair is in the plan or in the pool, once;
  every assigned member is subscribed.
\<close>

definition stickyInv :: "(string, string list) gomap \<Rightarrow> freeKey set \<Rightarrow> Plan \<times> freePool \<Rightarrow> bool" where
  "stickyInv subs K s \<longleftrightarrow>
     wfplan (fst s) \<and> poolInv (snd s) \<and> poolKeys (snd s) \<subseteq> K \<and>
     image_mset snd (triples (fst s)) + mset_set (poolKeys (snd s)) = mset_set K \<and>
     (\<forall>mid t p. (mid, t, p) \<in># triples (fst s) \<longrightarrow> mid \<in> set (mgetOr [] subs t))"

lemma stickyPart_inv:
  assumes inv: "stickyInv subs K s" and sub: "mid \<in> set (mgetOr [] subs t)"
  shows "stickyInv subs K (stickyPart mid t s p)"
proof -
  obtain b f where r: "pool_remove (snd s) t p = (b, f)" by fastforce
  note keys = poolKeys_remove [OF r]
  have f: "poolInv f" using inv r poolInv_remove unfolding stickyInv_def by blast
  show ?thesis
  proof (cases b)
    case True
    then have "mset_set (poolKeys (snd s)) = add_mset (t, p) (mset_set (poolKeys f))"
      using keys by (metis finite_poolKeys mset_set.remove)
    then show ?thesis
      using True inv sub f keys unfolding stickyInv_def stickyPart_def r
      by (auto simp: plan_simps)
  next
    case False
    then have "f = snd s" using r by (auto simp: pool_remove_def Let_def split: option.splits)
    with False inv show ?thesis unfolding stickyPart_def r by simp
  qed
qed

lemma stickyParts_inv:
  "stickyInv subs K s \<Longrightarrow> mid \<in> set (mgetOr [] subs t) \<Longrightarrow> stickyInv subs K (foldl (stickyPart mid t) s ps)"
  by (rule foldl_inv) (auto intro: stickyPart_inv)

lemma stickyTopic_inv: "stickyInv subs K s \<Longrightarrow> stickyInv subs K (stickyTopic subs mid s e)"
  by (simp add: stickyTopic_def stickyParts_inv)

lemma stickyMember_inv: "stickyInv subs K s \<Longrightarrow> stickyInv subs K (stickyMember subs prev s mid)"
  unfolding stickyMember_def by (erule foldl_inv) (rule stickyTopic_inv)

lemma stickyPass_inv:
  assumes "poolInv f" "poolKeys f = K"
  shows "stickyInv subs K (stickyPass subs previous ids f)"
proof -
  have init: "stickyInv subs K ([], f)" using assms by (simp add: stickyInv_def)
  have "stickyInv subs K (foldl (stickyMember subs prev) s ids)" if "stickyInv subs K s" for prev s
    using that by (rule foldl_inv) (rule stickyMember_inv)
  with init show ?thesis by (auto simp: stickyPass_def split: option.splits)
qed

section \<open>The distribution\<close>

lemma better_cases:
  "fst (better weight load subs best mid) = fst best \<or> fst (better weight load subs best mid) = mid \<and> mid \<in> set subs"
  by (cases best) (auto simp: better_def Let_def)

lemma better_takes:
  "fst best = '''' \<Longrightarrow> mid \<in> set subs \<Longrightarrow> fst (better weight load subs best mid) = mid"
  by (cases best) (auto simp: better_def Let_def)

lemma bestMember_foldl:
  assumes "'''' \<notin> set ids"
  shows "(fst best \<noteq> '''' \<or> set ids \<inter> set subs \<noteq> {}) \<longrightarrow>
    fst (foldl (better weight load subs) best ids) \<in> insert (fst best) (set ids \<inter> set subs) - {''''}"
  using assms
proof (induction ids arbitrary: best)
  case (Cons i ids)
  let ?b = "better weight load subs best i"
  have IH: "(fst ?b \<noteq> '''' \<or> set ids \<inter> set subs \<noteq> {}) \<longrightarrow>
    fst (foldl (better weight load subs) ?b ids) \<in> insert (fst ?b) (set ids \<inter> set subs) - {''''}"
    using Cons by simp
  show ?case
    using IH better_cases [of weight load subs best i] better_takes [of best i subs weight load] Cons.prems
    by (cases "i \<in> set subs"; cases "fst best = ''''") auto
qed simp

lemma bestMember_subscribed:
  assumes "'''' \<notin> set ids" "set ids \<inter> set subs \<noteq> {}"
  shows "bestMember weight load subs ids \<in> set ids \<inter> set subs" "bestMember weight load subs ids \<noteq> ''''"
  using bestMember_foldl [OF assms(1), of "('''', -1, 0)" subs weight load] assms(2)
  by (auto simp: bestMember_def)

text \<open>What the loops over (plan, load) keep: loads count what is assigned, members are subscribed.\<close>

definition planInv :: "(string, string list) gomap \<Rightarrow> Plan \<times> (string, int) gomap \<Rightarrow> bool" where
  "planInv subs s \<longleftrightarrow>
     wfplan (fst s) \<and> (\<forall>mid. mgetOr 0 (snd s) mid = total (fst s) mid) \<and>
     (\<forall>mid t p. (mid, t, p) \<in># triples (fst s) \<longrightarrow> mid \<in> set (mgetOr [] subs t))"

lemma loadsOf_inner:
  "mgetOr 0 (foldl (\<lambda>ld (t, ps). mput m (mgetOr 0 ld m + int (length ps)) ld) ld bt) x
    = mgetOr 0 ld x + (if x = m then msum (\<lambda>t ps. int (length ps)) bt else 0)"
  by (induction bt arbitrary: ld) (auto simp: msum_def)

lemma loadsOf_total: "wfmap out \<Longrightarrow> mgetOr 0 (loadsOf out) x = total out x"
proof -
  assume wf: "wfmap out"
  let ?n = "msum (\<lambda>t ps. int (length ps))"
  have "mgetOr 0 (foldl (\<lambda>ld (mid, byTopic).
        foldl (\<lambda>ld (t, ps). mput mid (mgetOr 0 ld mid + int (length ps)) ld) ld byTopic) ld out) x
      = mgetOr 0 ld x + msum (\<lambda>m bt. if m = x then ?n bt else 0) out" for ld
    by (induction out arbitrary: ld) (auto simp: msum_def loadsOf_inner)
  from this [of "[]"] show ?thesis
    using msum_single [OF wf, of "\<lambda>_ bt. ?n bt" x "[]"] by (simp add: loadsOf_def total_def)
qed

lemma assignOne_step:
  assumes "'''' \<notin> set ids" "set (mgetOr [] subs t) \<subseteq> set ids" "mgetOr [] subs t \<noteq> []"
  obtains best where "best \<in> set (mgetOr [] subs t)"
    "best = bestMember weight (snd s) (mgetOr [] subs t) ids"
    "assignOne subs weight ids s (t, p) = (Add (fst s) best t p, mput best (mgetOr 0 (snd s) best + 1) (snd s))"
proof -
  let ?best = "bestMember weight (snd s) (mgetOr [] subs t) ids"
  have "set ids \<inter> set (mgetOr [] subs t) \<noteq> {}"
    using assms(2,3) by (metis inf.absorb2 set_empty)
  note best = bestMember_subscribed [OF assms(1) this, of weight "snd s"]
  show thesis
    using best assms(3) by (intro that [of ?best]) (auto simp: assignOne_def Let_def)
qed

lemma assignOne_none: "mgetOr [] subs t = [] \<Longrightarrow> assignOne subs weight ids s (t, p) = s"
  by (simp add: assignOne_def)

lemma assignOne_inv:
  assumes "planInv subs s" "'''' \<notin> set ids" "\<And>t. set (mgetOr [] subs t) \<subseteq> set ids"
  shows "planInv subs (assignOne subs weight ids s k)"
proof (cases "mgetOr [] subs (fst k) = []")
  case True
  then show ?thesis using assms(1) assignOne_none [of subs "fst k" weight ids s "snd k"] by simp
next
  case False
  from assignOne_step [OF assms(2,3) False, of weight s "snd k"] obtain best where
    "best \<in> set (mgetOr [] subs (fst k))"
    "assignOne subs weight ids s k = (Add (fst s) best (fst k) (snd k), mput best (mgetOr 0 (snd s) best + 1) (snd s))"
    by (metis prod.collapse)
  with assms(1) show ?thesis by (auto simp: planInv_def plan_simps)
qed

lemma distribute_inv:
  "planInv subs s \<Longrightarrow> '''' \<notin> set ids \<Longrightarrow> (\<And>t. set (mgetOr [] subs t) \<subseteq> set ids) \<Longrightarrow>
   planInv subs (distribute subs weight ids s ks)"
  unfolding distribute_def by (rule foldl_inv) (auto intro: assignOne_inv)

lemma distribute_pairs:
  assumes "'''' \<notin> set ids" "\<And>t. set (mgetOr [] subs t) \<subseteq> set ids"
  shows "image_mset snd (triples (fst (distribute subs weight ids s ks)))
    = image_mset snd (triples (fst s)) + filter_mset (\<lambda>k. mgetOr [] subs (fst k) \<noteq> []) (mset ks)"
  unfolding distribute_def
proof (induction ks arbitrary: s)
  case (Cons k ks)
  show ?case
  proof (cases "mgetOr [] subs (fst k) = []")
    case True
    then show ?thesis using Cons assignOne_none [of subs "fst k" weight ids s "snd k"] by simp
  next
    case False
    from assignOne_step [OF assms False, of weight s "snd k"] obtain best where
      "assignOne subs weight ids s k = (Add (fst s) best (fst k) (snd k), mput best (mgetOr 0 (snd s) best + 1) (snd s))"
      by (metis prod.collapse)
    then show ?thesis using Cons False by (simp add: plan_simps)
  qed
qed simp

text \<open>The distribution only adds: what a member owns before it, it owns after it.\<close>

lemma assignOne_mono: "triples (fst s) \<subseteq># triples (fst (assignOne subs weight ids s k))"
  by (auto simp: assignOne_def Let_def triples_Add)

lemma distribute_mono: "triples (fst s) \<subseteq># triples (fst (distribute subs weight ids s ks))"
  unfolding distribute_def
  by (rule foldl_inv) (auto simp del: foldl.simps intro: subset_mset.order_trans [OF _ assignOne_mono])

section \<open>The feasibility pass\<close>

lemma donorStep_cases:
  "donorStep load mid best d = best \<or> donorStep load mid best d = (d, mgetOr 0 load d) \<and> d \<noteq> mid"
  by (cases best) (auto simp: donorStep_def)

lemma findDonor_in:
  assumes "findDonor load mid subs \<noteq> ''''"
  shows "findDonor load mid subs \<in> set subs \<and> findDonor load mid subs \<noteq> mid"
proof -
  have "fst (foldl (donorStep load mid) best subs) = fst best \<or>
      fst (foldl (donorStep load mid) best subs) \<in> set subs \<and> fst (foldl (donorStep load mid) best subs) \<noteq> mid" for best
  proof (induction subs arbitrary: best)
    case (Cons d subs)
    show ?case using donorStep_cases [of load mid best d] Cons.IH [of "donorStep load mid best d"] by auto
  qed simp
  from this [of "('''', -1)"] assms show ?thesis by (auto simp: findDonor_def)
qed

text \<open>One theft: the last partition of the donor's list goes to the starved member.\<close>

definition steal :: "string \<Rightarrow> string \<Rightarrow> string \<Rightarrow> Plan \<times> (string, int) gomap \<Rightarrow> Plan \<times> (string, int) gomap" where
  "steal donor mid t s =
     (let ps = partsOf (fst s) donor t; load1 = mput donor (mgetOr 0 (snd s) donor - 1) (snd s)
      in (Add (setParts (fst s) donor t (butlast ps)) mid t (last ps), mput mid (mgetOr 0 load1 mid + 1) load1))"

lemma stealFor_cases:
  "stealFor ord parts subs mid s topics = s \<or>
   (\<exists>t \<in> set topics. \<exists>donor. donor = findDonor (snd s) mid (ord (mgetOr [] subs t)) \<and> donor \<noteq> '''' \<and>
      1 < length (partsOf (fst s) donor t) \<and> stealFor ord parts subs mid s topics = steal donor mid t s)"
proof (induction topics)
  case (Cons t topics)
  show ?case
  proof (cases "length (mgetOr [] parts t) < length (mgetOr [] subs t) \<or>
      findDonor (snd s) mid (ord (mgetOr [] subs t)) = '''' \<or>
      length (partsOf (fst s) (findDonor (snd s) mid (ord (mgetOr [] subs t))) t) \<le> 1")
    case True
    then have "stealFor ord parts subs mid s (t # topics) = stealFor ord parts subs mid s topics"
      by (auto simp: Let_def partsOf_def)
    then show ?thesis using Cons by auto
  next
    case False
    then have "stealFor ord parts subs mid s (t # topics)
        = steal (findDonor (snd s) mid (ord (mgetOr [] subs t))) mid t s"
      by (simp add: Let_def partsOf_def steal_def setParts_def)
    then show ?thesis using False by (intro disjI2 bexI [of _ t]) auto
  qed
qed simp

lemma partsOf_steal:
  assumes "donor \<noteq> mid"
  shows "partsOf (fst (steal donor mid t s)) m t'
    = (if m = donor \<and> t' = t then butlast (partsOf (fst s) donor t)
       else if m = mid \<and> t' = t then partsOf (fst s) mid t @ [last (partsOf (fst s) donor t)]
       else partsOf (fst s) m t')"
  using assms by (auto simp: steal_def Let_def partsOf_Add partsOf_setParts)

lemma triples_steal:
  assumes "1 < length (partsOf (fst s) donor t)"
  shows "add_mset (donor, t, last (partsOf (fst s) donor t)) (triples (fst (steal donor mid t s)))
    = add_mset (mid, t, last (partsOf (fst s) donor t)) (triples (fst s))"
proof -
  let ?ps = "partsOf (fst s) donor t" and ?T = "triples (setParts (fst s) donor t (butlast (partsOf (fst s) donor t)))"
  let ?f = "\<lambda>p. (donor, t, p)"
  have ne: "?ps \<noteq> []" using assms by auto
  have "mset (map ?f ?ps) = mset (map ?f (butlast ?ps @ [last ?ps]))" using ne by simp
  then have "mset (map ?f ?ps) = mset (map ?f (butlast ?ps)) + {#?f (last ?ps)#}" by simp
  then have "?T + {#?f (last ?ps)#} + mset (map ?f (butlast ?ps)) = triples (fst s) + mset (map ?f (butlast ?ps))"
    using triples_setParts [of "fst s" donor t "butlast ?ps"] by (simp add: add_ac del: mset_map)
  then have "?T + {#?f (last ?ps)#} = triples (fst s)" by (simp del: mset_map)
  then show ?thesis by (simp add: steal_def Let_def triples_Add add_mset_commute)
qed

lemma pairs_steal:
  assumes "1 < length (partsOf (fst s) donor t)"
  shows "image_mset snd (triples (fst (steal donor mid t s))) = image_mset snd (triples (fst s))"
  using arg_cong [OF triples_steal [OF assms, of mid], of "image_mset snd"] by simp

lemma total_steal:
  assumes "donor \<noteq> mid" "1 < length (partsOf (fst s) donor t)"
  shows "total (fst (steal donor mid t s)) m
    = total (fst s) m + (if m = mid then 1 else 0) - (if m = donor then 1 else 0)"
  using assms by (auto simp: steal_def Let_def total_Add total_setParts of_nat_diff)

lemma steal_inv:
  assumes inv: "planInv subs s" and d: "donor \<noteq> mid" and l: "1 < length (partsOf (fst s) donor t)"
    and sub: "mid \<in> set (mgetOr [] subs t)"
  shows "planInv subs (steal donor mid t s)"
proof -
  have "wfplan (fst (steal donor mid t s))"
    using inv by (simp add: steal_def Let_def planInv_def wfplan_Add wfplan_setParts)
  moreover have "mgetOr 0 (snd (steal donor mid t s)) m = total (fst (steal donor mid t s)) m" for m
    unfolding total_steal [OF d l] using inv d by (auto simp: planInv_def steal_def Let_def)
  moreover have "m \<in> set (mgetOr [] subs t')" if "(m, t', p) \<in># triples (fst (steal donor mid t s))" for m t' p
  proof -
    from that have "(m, t', p) \<in># add_mset (mid, t, last (partsOf (fst s) donor t)) (triples (fst s))"
      unfolding triples_steal [OF l, symmetric] by simp
    with inv sub show ?thesis by (auto simp: planInv_def)
  qed
  ultimately show ?thesis by (simp add: planInv_def)
qed

text \<open>A member's turn in the feasibility pass does nothing or is one theft.\<close>

lemma feasibleMember_cases:
  "feasibleMember ord parts subs byID s mid = s \<or>
   (\<exists>t \<in> set (topicsOf byID mid). \<exists>donor.
      donor = findDonor (snd s) mid (ord (mgetOr [] subs t)) \<and> donor \<noteq> '''' \<and> donor \<noteq> mid \<and>
      1 < length (partsOf (fst s) donor t) \<and> \<not> hasAny (mgetOr [] (fst s) mid) \<and>
      feasibleMember ord parts subs byID s mid = steal donor mid t s)"
  using stealFor_cases [of ord parts subs mid s "topicsOf byID mid"] findDonor_in [of "snd s" mid]
  by (auto simp: feasibleMember_def)

definition feasInv :: "(string, string list) gomap \<Rightarrow> freeKey multiset \<Rightarrow> Plan \<times> (string, int) gomap \<Rightarrow> bool" where
  "feasInv subs K s \<longleftrightarrow> planInv subs s \<and> image_mset snd (triples (fst s)) = K"

lemma feasibleMember_inv:
  assumes "feasInv subs K s" "\<And>t. t \<in> set (topicsOf byID mid) \<Longrightarrow> mid \<in> set (mgetOr [] subs t)"
  shows "feasInv subs K (feasibleMember ord parts subs byID s mid)"
  using feasibleMember_cases [of ord parts subs byID s mid]
proof (elim disjE bexE exE conjE)
  fix t donor
  assume "t \<in> set (topicsOf byID mid)" "donor \<noteq> mid" "1 < length (partsOf (fst s) donor t)"
    "feasibleMember ord parts subs byID s mid = steal donor mid t s"
  with assms show ?thesis by (simp add: feasInv_def steal_inv pairs_steal)
qed (use assms in simp)

lemma feasibility_inv:
  assumes "feasInv subs K s" "subs = subscribers byID ids"
  shows "feasInv subs K (feasibility ord parts subs byID ids s)"
  unfolding feasibility_def
  using assms(1) by (rule foldl_inv) (rule feasibleMember_inv, auto simp: assms(2) set_subscribers)

section \<open>The final sort\<close>

lemma mgetOr_sortPlan:
  "mgetOr [] (sortPlan out) mid = map (\<lambda>(t, ps). (t, sort_key sint ps)) (mgetOr [] out mid)"
  by (induction out) (auto simp: sortPlan_def mgetOr_def mget_def)

lemma partsOf_sortPlan: "partsOf (sortPlan out) mid t = sort_key sint (partsOf out mid t)"
proof -
  have "mgetOr [] (map (\<lambda>(t, ps). (t, sort_key sint ps)) bt) t = sort_key sint (mgetOr [] bt t)"
    for bt :: "(string, int32 list) gomap"
    by (induction bt) (auto simp: mgetOr_def mget_def)
  then show ?thesis by (simp add: partsOf_def mgetOr_sortPlan)
qed

lemma mkeys_sortPlan: "mkeys (sortPlan out) = mkeys out"
  by (simp add: mkeys_def sortPlan_def case_prod_beta' comp_def)

lemma wfplan_sortPlan: "wfplan out \<Longrightarrow> wfplan (sortPlan out)"
  by (auto simp: wfplan_def wfmap_def mkeys_sortPlan mgetOr_sortPlan)
    (simp add: mkeys_def case_prod_beta' comp_def)

lemma triples_sortPlan: "triples (sortPlan out) = triples out"
  by (simp add: triples_def sortPlan_def msum_map [where g = "\<lambda>_ bt. map (\<lambda>(t, ps). (t, sort_key sint ps)) bt"]
      msum_map [where g = "\<lambda>_ ps. sort_key sint ps"])

section \<open>Compute\<close>

definition wfInputs :: "Inputs \<Rightarrow> bool" where
  "wfInputs input \<longleftrightarrow>
     distinct (map mMemberID (inMembers input)) \<and> '''' \<notin> set (map mMemberID (inMembers input)) \<and>
     wfmap (inPartitions input) \<and> '''' \<notin> set (mkeys (inPartitions input))"

text \<open>The pairs that some member subscribes to: what a plan has to assign.\<close>

definition wanted :: "Inputs \<Rightarrow> freeKey set" where
  "wanted input = {(t, p). p \<in> set (mgetOr [] (inPartitions input) t) \<and>
     (\<exists>m \<in> set (inMembers input). t \<in> set (mTopics m))}"

text \<open>The state of \<open>Compute\<close> after the distribution.\<close>

definition subscribersOf :: "Inputs \<Rightarrow> (string, string list) gomap" where
  "subscribersOf input = subscribers (memberByID (inMembers input)) (memberIDs (inMembers input))"

definition stickyOf :: "Inputs \<Rightarrow> Plan \<times> freePool" where
  "stickyOf input = stickyPass (subscribersOf input) (inPrevious input) (memberIDs (inMembers input))
     (initPool (inPartitions input))"

definition distributed :: "Inputs \<Rightarrow> Plan \<times> (string, int) gomap" where
  "distributed input =
     (let ids = memberIDs (inMembers input); sticky = stickyOf input
      in distribute (subscribersOf input) (weights (memberByID (inMembers input)) ids) ids
           (fst sticky, loadsOf (fst sticky)) (pool_remaining (snd sticky)))"

lemma Compute_unfold:
  "inMembers input \<noteq> [] \<Longrightarrow>
   Compute ord input = sortPlan (fst (feasibility ord (inPartitions input) (subscribersOf input)
     (memberByID (inMembers input)) (memberIDs (inMembers input)) (distributed input)))"
  by (simp add: Compute_def distributed_def stickyOf_def subscribersOf_def Let_def)

lemma Compute_empty: "inMembers input = [] \<Longrightarrow> Compute ord input = []"
  by (simp add: Compute_def)

lemma subscribersOf_iff:
  assumes "wfInputs input"
  shows "mid \<in> set (mgetOr [] (subscribersOf input) t) \<longleftrightarrow>
    (\<exists>m \<in> set (inMembers input). mMemberID m = mid \<and> t \<in> set (mTopics m))"
  using assms topicsOf_member [of "inMembers input"]
  by (auto simp: subscribersOf_def set_subscribers wfInputs_def)

lemma subscribersOf_ids:
  "wfInputs input \<Longrightarrow> set (mgetOr [] (subscribersOf input) t) \<subseteq> set (memberIDs (inMembers input))"
  by (auto simp: subscribersOf_iff)

lemma ids_nonempty: "wfInputs input \<Longrightarrow> '''' \<notin> set (memberIDs (inMembers input))"
  by (simp add: wfInputs_def)

lemma stickyOf_inv:
  "wfInputs input \<Longrightarrow> stickyInv (subscribersOf input) (allPairs (inPartitions input)) (stickyOf input)"
  unfolding stickyOf_def by (rule stickyPass_inv) (auto simp: wfInputs_def initPool_ok)

lemma distributed_inv:
  assumes wf: "wfInputs input"
  shows "feasInv (subscribersOf input) (mset_set (wanted input)) (distributed input)"
proof -
  let ?subs = "subscribersOf input" and ?K = "allPairs (inPartitions input)" and ?s = "stickyOf input"
  let ?Q = "\<lambda>k. mgetOr [] ?subs (fst k) \<noteq> []"
  note sticky = stickyOf_inv [OF wf, unfolded stickyInv_def]
  have "planInv ?subs (fst ?s, loadsOf (fst ?s))"
    using sticky by (auto simp: planInv_def wfplan_def loadsOf_total)
  then have plan: "planInv ?subs (distributed input)"
    unfolding distributed_def Let_def
    by (rule distribute_inv [OF _ ids_nonempty [OF wf] subscribersOf_ids [OF wf]])
  have owned: "filter_mset ?Q (image_mset snd (triples (fst ?s))) = image_mset snd (triples (fst ?s))"
    using sticky by (subst filter_mset_eq_conv) (auto, metis empty_iff list.set(1))
  have "image_mset snd (triples (fst (distributed input)))
      = image_mset snd (triples (fst ?s)) + filter_mset ?Q (mset_set (poolKeys (snd ?s)))"
    using distribute_pairs [OF ids_nonempty [OF wf] subscribersOf_ids [OF wf]] sticky
    by (simp add: distributed_def Let_def mset_remaining)
  also have "\<dots> = filter_mset ?Q (mset_set ?K)"
    using sticky owned by (metis filter_union_mset)
  also have "\<dots> = mset_set (wanted input)"
  proof -
    have "finite ?K"
      using wf initPool_ok(2) [of "inPartitions input"] finite_poolKeys by (metis wfInputs_def)
    moreover have "{k \<in> ?K. ?Q k} = wanted input"
      using subscribersOf_iff [OF wf] unfolding allPairs_def wanted_def
      by (auto simp: neq_Nil_conv) (metis list.set_intros(1), metis empty_iff list.set(1) neq_Nil_conv)
    ultimately show ?thesis by (simp add: filter_mset_mset_set)
  qed
  finally show ?thesis using plan by (simp add: feasInv_def)
qed

lemma Compute_exact:
  assumes wf: "wfInputs input"
  shows "image_mset snd (triples (Compute ord input)) = mset_set (wanted input) \<and>
    wfplan (Compute ord input) \<and>
    (\<forall>mid t p. (mid, t, p) \<in># triples (Compute ord input) \<longrightarrow> mid \<in> set (mgetOr [] (subscribersOf input) t))"
proof (cases "inMembers input = []")
  case True
  then show ?thesis by (simp add: Compute_empty wanted_def)
next
  case False
  have "feasInv (subscribersOf input) (mset_set (wanted input))
      (feasibility ord (inPartitions input) (subscribersOf input) (memberByID (inMembers input))
        (memberIDs (inMembers input)) (distributed input))"
    by (rule feasibility_inv [OF distributed_inv [OF wf]]) (simp add: subscribersOf_def)
  then show ?thesis
    by (simp add: Compute_unfold [OF False] triples_sortPlan wfplan_sortPlan feasInv_def planInv_def)
qed

lemma count_pair_ge:
  "count T (m, k) \<le> count (image_mset snd T) k"
proof -
  have "replicate_mset (count T (m, k)) (m, k) \<subseteq># T"
    by (simp flip: count_le_replicate_mset_subset_eq)
  from image_mset_subseteq_mono [OF this, of snd] show ?thesis
    by (simp add: count_le_replicate_mset_subset_eq)
qed

lemma two_owners:
  assumes "m \<noteq> m'" "(m, k) \<in># T" "(m', k) \<in># T"
  shows "2 \<le> count (image_mset snd T) k"
proof -
  have "{#(m, k), (m', k)#} \<subseteq># T" using assms by (simp add: insert_subset_eq_iff in_diff_count)
  from mset_subset_eq_count [OF image_mset_subseteq_mono [OF this, of snd], of k] show ?thesis by simp
qed

lemma finite_wanted: "wfInputs input \<Longrightarrow> finite (wanted input)"
proof -
  assume "wfInputs input"
  then have "finite (allPairs (inPartitions input))"
    using initPool_ok(2) [of "inPartitions input"] finite_poolKeys by (metis wfInputs_def)
  then show ?thesis by (rule rev_finite_subset) (auto simp: wanted_def allPairs_def)
qed

lemma count_le_one_distinct: "(\<And>x. count_list xs x \<le> 1) \<Longrightarrow> distinct xs"
proof (induction xs)
  case (Cons y ys)
  have "count_list ys x \<le> 1" for x using Cons.prems [of x] by (simp split: if_splits)
  moreover have "count_list ys y = 0" using Cons.prems [of y] by simp
  ultimately show ?case using Cons.IH by (simp add: count_list_0_iff)
qed simp

lemma Compute_sound:
  assumes "wfInputs input" and "p \<in> set (partsOf (Compute ord input) mid t)"
  shows "p \<in> set (mgetOr [] (inPartitions input) t) \<and>
    (\<exists>m \<in> set (inMembers input). mMemberID m = mid \<and> t \<in> set (mTopics m))"
proof -
  note exact = Compute_exact [OF assms(1), of ord]
  have "(mid, t, p) \<in># triples (Compute ord input)"
    using assms(2) exact by (simp add: in_triples)
  then have "(t, p) \<in># mset_set (wanted input)" "mid \<in> set (mgetOr [] (subscribersOf input) t)"
    using exact by (metis image_eqI multiset.set_map snd_conv, blast)
  then show ?thesis
    using assms(1) finite_wanted [OF assms(1)] by (simp add: subscribersOf_iff wanted_def)
qed

lemma Compute_one_owner:
  assumes "wfInputs input" and "p \<in> set (mgetOr [] (inPartitions input) t)"
    and "m \<in> set (inMembers input)" "t \<in> set (mTopics m)"
  shows "\<exists>!mid. p \<in> set (partsOf (Compute ord input) mid t)"
proof -
  note exact = Compute_exact [OF assms(1), of ord] and fin = finite_wanted [OF assms(1)]
  have one: "count (image_mset snd (triples (Compute ord input))) (t, p) = 1"
    using exact fin assms(2-4) by (simp add: count_mset_set') (auto simp: wanted_def)
  then have "(t, p) \<in># image_mset snd (triples (Compute ord input))"
    by (metis count_greater_zero_iff zero_less_one)
  then obtain mid where "(mid, t, p) \<in># triples (Compute ord input)" by auto
  moreover have "mid = mid'" if "(mid, t, p) \<in># triples (Compute ord input)"
      "(mid', t, p) \<in># triples (Compute ord input)" for mid mid'
    using two_owners [of mid mid' "(t, p)"] that one by fastforce
  ultimately show ?thesis using exact by (auto simp flip: in_triples)
qed

section \<open>Properties\<close>

text \<open>
  A group of three members over two topics, with a previous plan: member \<open>b\<close> lags, \<open>c\<close> only
  reads the second topic, and the previous plan names a partition that is gone.
\<close>

definition sampleInputs :: Inputs where
  "sampleInputs = \<lparr>inGroupID = ''g'',
     inMembers = [\<lparr>mMemberID = ''b'', mTopics = [''x'', ''y''], mLag = 50000\<rparr>,
                  \<lparr>mMemberID = ''a'', mTopics = [''x''], mLag = 0\<rparr>,
                  \<lparr>mMemberID = ''c'', mTopics = [''y''], mLag = 0\<rparr>],
     inPartitions = [(''y'', [1, 0]), (''x'', [2, 0, 1]), (''z'', [0])],
     inPrevious = Some [(''b'', [(''x'', [1, 7])])]\<rparr>"

lemma wf_sampleInputs: "wfInputs sampleInputs"
  by (simp add: wfInputs_def sampleInputs_def wfmap_def mkeys_def)

text \<open>
  C12: whatever the previous plan and the iteration order of the donor search, a plan gives a
  member only partitions that exist, of topics that the member subscribes to.
\<close>

theorem plan_sound:
  assumes "wfInputs input" and "p \<in> set (partsOf (Compute ord input) mid t)"
  shows "p \<in> set (mgetOr [] (inPartitions input) t) \<and>
    (\<exists>m \<in> set (inMembers input). mMemberID m = mid \<and> t \<in> set (mTopics m))"
  using assms by (rule Compute_sound)

theorem plan_sound_witness:
  "1 \<in> set (partsOf (Compute rev sampleInputs) ''b'' ''x'') \<and>
   (\<exists>m \<in> set (inMembers sampleInputs). mMemberID m = ''b'' \<and> ''x'' \<in> set (mTopics m))"
proof -
  have "1 \<in> set (partsOf (Compute rev sampleInputs) ''b'' ''x'')" by code_simp
  with plan_sound [OF wf_sampleInputs this] show ?thesis by blast
qed

text \<open>
  C11: a plan assigns every partition of every topic that some member subscribes to, and to
  exactly one member.
\<close>

theorem plan_exactly_one_owner:
  assumes "wfInputs input" and "p \<in> set (mgetOr [] (inPartitions input) t)"
    and "m \<in> set (inMembers input)" "t \<in> set (mTopics m)"
  shows "\<exists>!mid. p \<in> set (partsOf (Compute ord input) mid t)"
  using assms by (rule Compute_one_owner)

theorem plan_exactly_one_owner_witness:
  "\<exists>!mid. 0 \<in> set (partsOf (Compute rev sampleInputs) mid ''y'')"
  using plan_exactly_one_owner [OF wf_sampleInputs, of 0 "''y''" "\<lparr>mMemberID = ''c'', mTopics = [''y''], mLag = 0\<rparr>" rev]
  by (simp add: sampleInputs_def mgetOr_def mget_def)

text \<open>
  The partitions that a plan lists for a member and a topic are in increasing order, without
  repetition, even when the metadata or the previous plan repeats a partition.
\<close>

theorem plan_lists_sorted:
  assumes "wfInputs input"
  shows "sorted_wrt (\<lambda>p q. sint p < sint q) (partsOf (Compute ord input) mid t)"
proof -
  let ?ps = "partsOf (Compute ord input) mid t"
  note exact = Compute_exact [OF assms, of ord] and fin = finite_wanted [OF assms]
  have "count_list ?ps p \<le> 1" for p
    using count_pair_ge [of "triples (Compute ord input)" mid "(t, p)"] exact fin
    by (simp add: count_triples count_mset_set' split: if_splits)
  then have "distinct ?ps"
    by (intro count_le_one_distinct)
  moreover have "sorted (map sint ?ps)"
    by (cases "inMembers input = []")
      (simp_all add: Compute_unfold Compute_empty partsOf_sortPlan, simp add: partsOf_def)
  ultimately have "sorted_wrt (<) (map sint ?ps)"
    by (auto simp: strict_sorted_iff distinct_map inj_on_def intro: signed_word_eqI)
  then show ?thesis by (simp add: sorted_wrt_map)
qed

theorem plan_lists_sorted_witness:
  "partsOf (Compute rev sampleInputs) ''a'' ''x'' = [0, 2] \<and>
   sorted_wrt (\<lambda>p q. sint p < sint q) (partsOf (Compute rev sampleInputs) ''a'' ''x'')"
proof -
  have "partsOf (Compute rev sampleInputs) ''a'' ''x'' = [0, 2]" by code_simp
  then show ?thesis using plan_lists_sorted [OF wf_sampleInputs] by simp
qed

end
