(* ===== verification/PlanOrder.thy ===== *)
theory PlanOrder
  imports PlanCorrect
begin

text \<open>
  \<open>plan.Compute\<close> and the order of its inputs: the result does not depend on the order in which
  the \<open>Partitions\<close> map is iterated nor on the order of the members, but it does depend on the
  order in which the donor search iterates the subscriber set.
\<close>

lemma foldl_rel:
  assumes "R a b" "\<And>x a b. x \<in> set xs \<Longrightarrow> R a b \<Longrightarrow> R (f a x) (g b x)"
  shows "R (foldl f a xs) (foldl g b xs)"
  using assms by (induction xs arbitrary: a b) auto

lemma sort_perm: "mset xs = mset ys \<Longrightarrow> sort xs = sort (ys :: 'a::linorder list)"
  by (metis sorted_list_of_multiset_mset)

lemma sort_key_perm:
  assumes "mset xs = mset ys" "inj f"
  shows "sort_key f xs = sort_key f ys"
proof -
  have "mset (map f (sort_key f xs)) = mset (map f (sort_key f ys))" using assms(1) by simp
  then have "sort (map f (sort_key f xs)) = sort (map f (sort_key f ys))" by (rule sort_perm)
  then have "map f (sort_key f xs) = map f (sort_key f ys)"
    by (simp add: sorted_sort_id)
  then show ?thesis using assms(2) by (simp add: inj_map_eq_map)
qed

text \<open>Two pools that hold the same keys, whatever the order in which they were added.\<close>

definition poolRel :: "freePool \<Rightarrow> freePool \<Rightarrow> bool" where
  "poolRel f f' \<longleftrightarrow> poolInv f \<and> poolInv f' \<and> poolKeys f = poolKeys f'"

definition stickyRel :: "Plan \<times> freePool \<Rightarrow> Plan \<times> freePool \<Rightarrow> bool" where
  "stickyRel s s' \<longleftrightarrow> fst s = fst s' \<and> poolRel (snd s) (snd s')"

lemma inj_freeKey: "inj (\<lambda>(t :: string, p :: int32). (t, sint p))"
  by (auto simp: inj_def intro: signed_word_eqI)

lemma remaining_rel: "poolRel f f' \<Longrightarrow> pool_remaining f = pool_remaining f'"
proof -
  assume r: "poolRel f f'"
  have "mset (filter (\<lambda>k. mget (fpindex g) k \<noteq> None) (fpkeys g)) = mset_set (poolKeys g)" if "poolInv g" for g
    using mset_remaining [OF that] by (simp add: pool_remaining_def)
  with r show ?thesis
    unfolding pool_remaining_def poolRel_def by (intro sort_key_perm inj_freeKey) simp
qed

lemma stickyPart_rel:
  assumes "stickyRel s s'"
  shows "stickyRel (stickyPart mid t s p) (stickyPart mid t s' p)"
proof -
  obtain b f where r: "pool_remove (snd s) t p = (b, f)" by fastforce
  obtain b' f' where r': "pool_remove (snd s') t p = (b', f')" by fastforce
  have "b = b' \<and> poolRel f f'"
    using assms poolKeys_remove [OF r] poolKeys_remove [OF r'] poolInv_remove [OF _ r] poolInv_remove [OF _ r']
    by (simp add: stickyRel_def poolRel_def)
  with assms show ?thesis by (cases b) (auto simp: stickyPart_def r r' stickyRel_def)
qed

lemma stickyParts_rel:
  "stickyRel s s' \<Longrightarrow> stickyRel (foldl (stickyPart mid t) s ps) (foldl (stickyPart mid t) s' ps)"
  by (rule foldl_rel) (auto intro: stickyPart_rel)

lemma stickyTopic_rel: "stickyRel s s' \<Longrightarrow> stickyRel (stickyTopic subs mid s e) (stickyTopic subs mid s' e)"
  by (simp add: stickyTopic_def stickyParts_rel)

lemma stickyMember_rel:
  "stickyRel s s' \<Longrightarrow> stickyRel (stickyMember subs prev s mid) (stickyMember subs prev s' mid)"
  unfolding stickyMember_def by (erule foldl_rel) (rule stickyTopic_rel)

lemma stickyPass_rel:
  assumes "poolRel f f'"
  shows "stickyRel (stickyPass subs previous ids f) (stickyPass subs previous ids f')"
proof (cases previous)
  case None
  then show ?thesis using assms by (simp add: stickyPass_def stickyRel_def)
next
  case (Some prev)
  have "stickyRel (foldl (stickyMember subs prev) ([], f) ids) (foldl (stickyMember subs prev) ([], f') ids)"
    by (rule foldl_rel) (use assms in \<open>auto simp: stickyRel_def [of "([], f)"] intro: stickyMember_rel\<close>)
  then show ?thesis by (simp add: Some stickyPass_def)
qed

lemma mget_memberByID_perm:
  assumes "distinct (map mMemberID ms)" "mset ms = mset ms'"
  shows "mget (memberByID ms) = mget (memberByID ms')"
proof
  fix k
  have d: "distinct (map mMemberID ms')" using assms by (metis mset_eq_imp_distinct_iff mset_map)
  have s: "set ms = set ms'" using assms(2) by (rule mset_eq_setD)
  show "mget (memberByID ms) k = mget (memberByID ms') k"
  proof (cases "k \<in> mMemberID ` set ms")
    case True
    then obtain m where "m \<in> set ms" "k = mMemberID m" by auto
    then show ?thesis using mget_memberByID [OF assms(1)] mget_memberByID [OF d] s by simp
  next
    case False
    then show ?thesis using s
      mget_foldl_put_other [of k mMemberID ms "\<lambda>m. m" "[]"] mget_foldl_put_other [of k mMemberID ms' "\<lambda>m. m" "[]"]
      by (simp add: memberByID_def)
  qed
qed

section \<open>Properties\<close>

text \<open>
  C16: the plan is the same list for list when the members arrive in another order and when Go
  iterates the \<open>Partitions\<close> map in another order.
\<close>

theorem plan_order_independent:
  assumes "wfInputs input" "mset ms = mset (inMembers input)" "mset ps = mset (inPartitions input)"
  shows "Compute ord (input\<lparr>inMembers := ms, inPartitions := ps\<rparr>) = Compute ord input"
proof -
  let ?ms = "inMembers input" and ?ps = "inPartitions input"
  from assms have wf: "wfmap ?ps" "'''' \<notin> set (mkeys ?ps)" and d: "distinct (map mMemberID ?ms)"
    by (auto simp: wfInputs_def)
  have wf': "wfmap ps" "'''' \<notin> set (mkeys ps)"
    using wf assms(3) by (metis mkeys_def mset_eq_imp_distinct_iff mset_map wfmap_def,
        metis mkeys_def mset_eq_setD mset_map assms(3))
  have ids: "memberIDs ms = memberIDs ?ms"
    unfolding memberIDs_def using assms(2) by (intro sort_perm) simp
  have get: "mget (memberByID ms) = mget (memberByID ?ms)"
    by (rule mget_memberByID_perm [OF d assms(2) [symmetric], symmetric])
  then have tops: "topicsOf (memberByID ms) = topicsOf (memberByID ?ms)"
    and lags: "lagOf (memberByID ms) = lagOf (memberByID ?ms)"
    by (auto simp: topicsOf_def [abs_def] lagOf_def [abs_def])
  have parts: "mget ps = mget ?ps" using mget_perm [OF wf'(1) assms(3)] .
  have pool: "poolRel (initPool ps) (initPool ?ps)"
    using initPool_ok [OF wf] initPool_ok [OF wf'] parts by (simp add: poolRel_def allPairs_def mgetOr_def)
  let ?sub = "subscribers (memberByID ?ms) (memberIDs ?ms)"
  have subs: "subscribers (memberByID ms) (memberIDs ?ms) = ?sub"
    by (simp add: subscribers_def tops)
  have rel: "stickyRel (stickyPass ?sub (inPrevious input) (memberIDs ?ms) (initPool ps))
      (stickyPass ?sub (inPrevious input) (memberIDs ?ms) (initPool ?ps))"
    by (rule stickyPass_rel [OF pool])
  have wts: "weights (memberByID ms) ids' = weights (memberByID ?ms) ids'" for ids'
    by (simp add: weights_def lags)
  have steal: "stealFor ord ps s mid st ts = stealFor ord ?ps s mid st ts" for s mid st ts
    by (induction ts) (simp_all add: mgetOr_def parts Let_def)
  have feas: "feasibility ord ps s (memberByID ms) ids' st = feasibility ord ?ps s (memberByID ?ms) ids' st" for s ids' st
    by (simp add: feasibility_def feasibleMember_def [abs_def] steal tops cong: if_cong)
  have len: "length ms = length ?ms" using assms(2) by (rule mset_eq_length)
  from rel have same: "fst (stickyPass ?sub (inPrevious input) (memberIDs ?ms) (initPool ps))
      = fst (stickyPass ?sub (inPrevious input) (memberIDs ?ms) (initPool ?ps))"
    and rem: "pool_remaining (snd (stickyPass ?sub (inPrevious input) (memberIDs ?ms) (initPool ps)))
      = pool_remaining (snd (stickyPass ?sub (inPrevious input) (memberIDs ?ms) (initPool ?ps)))"
    by (simp_all add: stickyRel_def remaining_rel)
  show ?thesis
    by (simp add: Compute_def ids subs wts feas len Let_def same rem)
qed

theorem plan_order_independent_witness:
  "Compute rev (sampleInputs\<lparr>inMembers := rev (inMembers sampleInputs),
     inPartitions := [(''z'', [0]), (''y'', [1, 0]), (''x'', [2, 0, 1])]\<rparr>) = Compute rev sampleInputs"
  using plan_order_independent [OF wf_sampleInputs, of "rev (inMembers sampleInputs)"
      "[(''z'', [0]), (''y'', [1, 0]), (''x'', [2, 0, 1])]" rev]
  by (simp add: sampleInputs_def add_mset_commute)

text \<open>
  The donor search breaks ties by iteration order: three members of one topic, the third lagging
  so far that the distribution leaves it nothing, and two donors with the same load.  Which of
  them gives a partition up, and which partition, depends on the order of the map iteration.
\<close>

definition tieInputs :: Inputs where
  "tieInputs = \<lparr>inGroupID = ''g'',
     inMembers = [\<lparr>mMemberID = ''a'', mTopics = [''x''], mLag = 0\<rparr>,
                  \<lparr>mMemberID = ''b'', mTopics = [''x''], mLag = 0\<rparr>,
                  \<lparr>mMemberID = ''c'', mTopics = [''x''], mLag = 1000000\<rparr>],
     inPartitions = [(''x'', [0, 1, 2, 3])], inPrevious = None\<rparr>"

theorem plan_depends_on_donor_order:
  "partsOf (Compute (\<lambda>xs. xs) tieInputs) ''c'' ''x'' = [2] \<and>
   partsOf (Compute rev tieInputs) ''c'' ''x'' = [3]"
  by code_simp

end
