(* ===== verification/PlanFair.thy ===== *)
theory PlanFair
  imports PlanCorrect
begin

text \<open>
  How \<open>plan.Compute\<close> treats the members: what it keeps of the previous plan, that no member of a
  one-topic group is left without a partition when there are enough, and that members of equal
  capacity end up with loads that differ by at most one.
\<close>

section \<open>Loads\<close>

lemma total_nonneg: "0 \<le> total out mid"
proof -
  have "0 \<le> msum (\<lambda>t ps. int (length ps)) bt" for bt :: "(string, int32 list) gomap"
    unfolding msum_def by (rule sum_list_nonneg) auto
  then show ?thesis by (simp add: total_def)
qed

lemma total_ge: "wfplan out \<Longrightarrow> int (length (partsOf out mid t)) \<le> total out mid"
proof -
  assume "wfplan out"
  then have wf: "wfmap (mgetOr [] out mid)" by (simp add: wfplan_def)
  let ?bt = "mgetOr [] out mid" and ?len = "\<lambda>t ps. int (length ps)"
  have "int (length (partsOf out mid t)) = msum (\<lambda>t' ps. if t' = t then ?len t ps else 0) ?bt"
    using msum_single [OF wf, of ?len t "[]"] by (simp add: partsOf_def)
  also have "\<dots> \<le> total out mid"
    unfolding total_def msum_def by (rule sum_list_mono) auto
  finally show ?thesis .
qed

lemma total_zero_iff: "total out mid = 0 \<longleftrightarrow> \<not> hasAny (mgetOr [] out mid)"
proof -
  have "(msum (\<lambda>t ps. int (length ps)) bt = 0) = (\<not> hasAny bt)" for bt :: "(string, int32 list) gomap"
  proof (induction bt)
    case (Cons e bt)
    have "0 \<le> msum (\<lambda>t ps. int (length ps)) bt" unfolding msum_def by (rule sum_list_nonneg) auto
    moreover have "msum (\<lambda>t ps. int (length ps)) (e # bt)
        = int (length (snd e)) + msum (\<lambda>t ps. int (length ps)) bt" by (simp add: msum_def case_prod_beta')
    ultimately show ?case using Cons by (cases e) (auto simp: hasAny_def add_nonneg_eq_0_iff)
  qed (simp add: hasAny_def)
  then show ?thesis by (simp add: total_def)
qed

lemma size_triples:
  assumes "wfplan out" "finite A" "\<And>mid. mid \<notin> A \<Longrightarrow> total out mid = 0"
  shows "int (size (triples out)) = (\<Sum>mid\<in>A. total out mid)"
proof -
  let ?n = "\<lambda>_ bt. msum (\<lambda>t ps. int (length ps)) bt"
  have inner: "int (size (msum (\<lambda>t ps. mset (map (\<lambda>p. (mid, t, p)) ps)) bt)) = ?n mid bt"
    for mid :: string and bt :: "(string, int32 list) gomap"
    unfolding msum_def by (induction bt) auto
  have "int (size (triples out)) = msum ?n out"
    unfolding triples_def msum_def [of _ out]
    by (induction out) (auto simp: inner case_prod_beta' simp del: mset_map)
  also have "\<dots> = (\<Sum>mid\<in>A. total out mid)"
    unfolding total_def
  proof (rule msum_sum)
    show "wfmap out" using assms(1) by (simp add: wfplan_def)
    show "?n mid bt = 0" if "(mid, bt) \<in> set out" "mid \<notin> A" for mid bt
      using assms(1) assms(3) [OF that(2)] that(1) mget_in_set [of out mid bt]
      by (simp add: wfplan_def total_def mgetOr_def)
  qed (use assms in simp_all)
  finally show ?thesis .
qed

section \<open>Stickiness\<close>

text \<open>The pair is still in the pool or already with its previous owner.\<close>

definition held :: "string \<Rightarrow> freeKey \<Rightarrow> Plan \<times> freePool \<Rightarrow> bool" where
  "held mid k s \<longleftrightarrow> (mid, k) \<in># triples (fst s) \<or> k \<in> poolKeys (snd s)"

lemma stickyPart_triples:
  "triples (fst s) \<subseteq># triples (fst (stickyPart mid t s p))"
  by (auto simp: stickyPart_def triples_Add split: prod.splits bool.splits)

lemma stickyPart_held:
  assumes "held mid (t, p) s" "m \<noteq> mid \<Longrightarrow> (t', p') \<noteq> (t, p)"
  shows "held mid (t, p) (stickyPart m t' s p')"
proof -
  obtain b f where r: "pool_remove (snd s) t' p' = (b, f)" by fastforce
  note keys = poolKeys_remove [OF r]
  show ?thesis
    using assms keys by (cases b) (auto simp: held_def stickyPart_def r triples_Add)
qed

lemma stickyPart_takes:
  assumes "held mid (t, p) s"
  shows "(mid, t, p) \<in># triples (fst (stickyPart mid t s p))"
proof -
  obtain b f where r: "pool_remove (snd s) t p = (b, f)" by fastforce
  note keys = poolKeys_remove [OF r]
  show ?thesis
    using assms keys by (cases b) (auto simp: held_def stickyPart_def r triples_Add)
qed

lemma stickyParts_mono: "triples (fst s) \<subseteq># triples (fst (foldl (stickyPart m t) s ps))"
  by (rule foldl_inv) (auto intro: subset_mset.order_trans [OF _ stickyPart_triples])

lemma stickyTopic_mono: "triples (fst s) \<subseteq># triples (fst (stickyTopic subs m s e))"
  by (simp add: stickyTopic_def stickyParts_mono)

lemma stickyTopics_mono: "triples (fst s) \<subseteq># triples (fst (foldl (stickyTopic subs m) s es))"
  by (rule foldl_inv) (auto intro: subset_mset.order_trans [OF _ stickyTopic_mono])

lemma stickyMember_mono: "triples (fst s) \<subseteq># triples (fst (stickyMember subs prev s m))"
  unfolding stickyMember_def by (rule stickyTopics_mono)

lemma stickyMembers_mono: "triples (fst s) \<subseteq># triples (fst (foldl (stickyMember subs prev) s ids))"
  by (rule foldl_inv) (auto intro: subset_mset.order_trans [OF _ stickyMember_mono])

lemma stickyParts_held:
  "held mid (t, p) s \<Longrightarrow> (m \<noteq> mid \<Longrightarrow> t' = t \<Longrightarrow> p \<notin> set ps) \<Longrightarrow> held mid (t, p) (foldl (stickyPart m t') s ps)"
  by (rule foldl_inv) (auto intro!: stickyPart_held)

lemma stickyTopic_held:
  "held mid (t, p) s \<Longrightarrow> (m \<noteq> mid \<Longrightarrow> fst e = t \<Longrightarrow> p \<notin> set (snd e)) \<Longrightarrow> held mid (t, p) (stickyTopic subs m s e)"
  by (simp add: stickyTopic_def stickyParts_held)

lemma mgetOr_entry: "wfmap bt \<Longrightarrow> e \<in> set bt \<Longrightarrow> mgetOr d bt (fst e) = snd e"
  using mget_in_set [of bt "fst e" "snd e"] by (simp add: mgetOr_def)

lemma stickyMember_held:
  assumes "held mid (t, p) s" "wfmap (mgetOr [] prev m)" "m \<noteq> mid \<Longrightarrow> p \<notin> set (partsOf prev m t)"
  shows "held mid (t, p) (stickyMember subs prev s m)"
  unfolding stickyMember_def
proof (rule foldl_inv, rule assms(1), rule stickyTopic_held)
  fix e assume "e \<in> set (mgetOr [] prev m)" "m \<noteq> mid" "fst e = t"
  then show "p \<notin> set (snd e)"
    using assms(3) mgetOr_entry [OF assms(2), of e "[]"] by (simp add: partsOf_def)
qed

lemma stickyParts_takes:
  assumes "held mid (t, p) s" "p \<in> set ps"
  shows "(mid, t, p) \<in># triples (fst (foldl (stickyPart mid t) s ps))"
proof -
  obtain xs ys where ps: "ps = xs @ p # ys" using assms(2) by (meson split_list)
  let ?s = "foldl (stickyPart mid t) s xs"
  have "held mid (t, p) ?s" using assms(1) by (rule stickyParts_held) simp
  then have "(mid, t, p) \<in># triples (fst (stickyPart mid t ?s p))" by (rule stickyPart_takes)
  then show ?thesis using mset_subset_eqD [OF stickyParts_mono] by (simp add: ps)
qed
lemma stickyMember_takes:
  assumes "held mid (t, p) s" "wfmap (mgetOr [] prev mid)" "p \<in> set (partsOf prev mid t)"
    "mid \<in> set (mgetOr [] subs t)"
  shows "(mid, t, p) \<in># triples (fst (stickyMember subs prev s mid))"
proof -
  let ?bt = "mgetOr [] prev mid" and ?ps = "partsOf prev mid t"
  have "mget ?bt t = Some ?ps"
    using assms(3) by (cases "mget ?bt t") (auto simp: partsOf_def mgetOr_def [of "[]" ?bt])
  then have "(t, ?ps) \<in> set ?bt" using assms(2) by (simp add: mget_in_set)
  then obtain xs ys where bt: "?bt = xs @ (t, ?ps) # ys" by (meson split_list)
  let ?s = "foldl (stickyTopic subs mid) s xs"
  have "held mid (t, p) ?s"
    by (rule foldl_inv, rule assms(1), rule stickyTopic_held) simp_all
  then have "(mid, t, p) \<in># triples (fst (stickyTopic subs mid ?s (t, ?ps)))"
    using assms(3,4) by (simp add: stickyTopic_def stickyParts_takes)
  then show ?thesis
    unfolding stickyMember_def bt by (simp add: mset_subset_eqD [OF stickyTopics_mono])
qed

lemma stickyPass_keeps:
  assumes "held mid (t, p) ([], f)" "\<And>m. wfmap (mgetOr [] prev m)" "p \<in> set (partsOf prev mid t)"
    "mid \<in> set (mgetOr [] subs t)" "mid \<in> set ids"
    "\<And>m. m \<in> set ids \<Longrightarrow> m \<noteq> mid \<Longrightarrow> p \<notin> set (partsOf prev m t)"
  shows "(mid, t, p) \<in># triples (fst (stickyPass subs (Some prev) ids f))"
proof -
  obtain xs ys where ids: "ids = xs @ mid # ys" using assms(5) by (meson split_list)
  let ?s = "foldl (stickyMember subs prev) ([], f) xs"
  have "held mid (t, p) ?s"
    by (rule foldl_inv, rule assms(1), rule stickyMember_held) (use assms(2,6) in \<open>auto simp: ids\<close>)
  then have "(mid, t, p) \<in># triples (fst (stickyMember subs prev ?s mid))"
    by (rule stickyMember_takes) (use assms in auto)
  then show ?thesis
    using mset_subset_eqD [OF stickyMembers_mono] by (simp add: stickyPass_def ids)
qed

text \<open>In the feasibility pass a pair stays with its owner or goes to a member that owns nothing else.\<close>

definition settled :: "string \<Rightarrow> freeKey \<Rightarrow> Plan \<times> (string, int) gomap \<Rightarrow> bool" where
  "settled mid k s \<longleftrightarrow> (\<exists>m. (m, k) \<in># triples (fst s) \<and> (m = mid \<or> total (fst s) m = 1))"

lemma steal_settled:
  assumes inv: "planInv subs s" and set: "settled mid k s" and d: "donor \<noteq> x"
    and l: "1 < length (partsOf (fst s) donor t)" and x: "total (fst s) x = 0"
  shows "settled mid k (steal donor x t s)"
proof -
  let ?q = "last (partsOf (fst s) donor t)"
  from set obtain m where m: "(m, k) \<in># triples (fst s)" "m = mid \<or> total (fst s) m = 1"
    by (auto simp: settled_def)
  have wf: "wfplan (fst s)" using inv by (simp add: planInv_def)
  obtain t' p' where k: "k = (t', p')" by (cases k)
  have mem: "p' \<in> set (partsOf (fst s) m t')" using m(1) wf by (simp add: k in_triples)
  then have "0 < total (fst s) m"
    using total_ge [OF wf, of m t'] by (cases "partsOf (fst s) m t'") auto
  then have mx: "m \<noteq> x" using x by auto
  have donor: "2 \<le> total (fst s) donor" using total_ge [OF wf, of donor t] l by simp
  note after = triples_steal [OF l, of x] and tot = total_steal [OF d l]
  show ?thesis
  proof (cases "(m, k) = (donor, t, ?q)")
    case True
    have "(x, k) \<in># triples (fst (steal donor x t s))"
      using after True d by (metis (no_types) Pair_inject insert_iff set_mset_add_mset_insert)
    moreover have "total (fst (steal donor x t s)) x = 1" using tot [of x] x d by simp
    ultimately show ?thesis by (auto simp: settled_def)
  next
    case False
    then have "(m, k) \<in># triples (fst (steal donor x t s))"
      using m(1) arg_cong [OF after, of set_mset] by auto
    moreover have "m = mid \<or> total (fst (steal donor x t s)) m = 1"
      using m(2) tot [of m] mx donor by auto
    ultimately show ?thesis by (auto simp: settled_def)
  qed
qed

lemma feasibility_settled:
  assumes "feasInv subs K s" "subs = subscribers byID ids" "settled mid k s"
  shows "settled mid k (feasibility ord parts subs byID ids s)"
proof -
  have "feasInv subs K (feasibility ord parts subs byID ids s) \<and> settled mid k (feasibility ord parts subs byID ids s)"
    unfolding feasibility_def
  proof (rule foldl_inv)
    fix s x assume x: "x \<in> set ids" and s: "feasInv subs K s \<and> settled mid k s"
    have "feasInv subs K (feasibleMember ord parts subs byID s x)"
      by (rule feasibleMember_inv) (use s x in \<open>auto simp: assms(2) set_subscribers\<close>)
    moreover have "settled mid k (feasibleMember ord parts subs byID s x)"
      using feasibleMember_cases [of ord parts subs byID s x]
    proof (elim disjE bexE exE conjE)
      fix t donor
      assume "donor \<noteq> x" "1 < length (partsOf (fst s) donor t)" "\<not> hasAny (mgetOr [] (fst s) x)"
        "feasibleMember ord parts subs byID s x = steal donor x t s"
      with s show ?thesis using steal_settled [of subs s mid k donor x t] by (simp add: feasInv_def total_zero_iff)
    qed (use s in simp)
    ultimately show "feasInv subs K (feasibleMember ord parts subs byID s x) \<and>
        settled mid k (feasibleMember ord parts subs byID s x)" ..
  qed (use assms in simp)
  then show ?thesis ..
qed

lemma total_sortPlan: "total (sortPlan out) mid = total out mid"
  by (simp add: total_def mgetOr_sortPlan msum_map [where g = "\<lambda>_ ps. sort_key sint ps"])

section \<open>No starvation\<close>

text \<open>The donor search returns a most loaded subscriber other than the starved member.\<close>

lemma findDonor_max:
  assumes "\<And>d. 0 \<le> mgetOr 0 load d" "'''' \<notin> set subs" "d \<in> set subs" "d \<noteq> mid"
  shows "findDonor load mid subs \<noteq> '''' \<and> mgetOr 0 load d \<le> mgetOr 0 load (findDonor load mid subs)"
proof -
  let ?L = "mgetOr 0 load"
  define good where "good = (\<lambda>best :: string \<times> int. best = ('''', -1) \<or> fst best \<noteq> '''' \<and> snd best = ?L (fst best))"
  have step: "good (donorStep load mid best x) \<and> snd best \<le> snd (donorStep load mid best x) \<and>
      (x \<noteq> mid \<longrightarrow> ?L x \<le> snd (donorStep load mid best x))"
    if "good best" "x \<in> set subs" for best x
    using that assms(1) [of x] assms(2) by (cases best) (auto simp: donorStep_def good_def)
  have "good (foldl (donorStep load mid) best ys) \<and> snd best \<le> snd (foldl (donorStep load mid) best ys) \<and>
      (\<forall>x \<in> set ys. x \<noteq> mid \<longrightarrow> ?L x \<le> snd (foldl (donorStep load mid) best ys))"
    if "good best" "set ys \<subseteq> set subs" for best ys
    using that
  proof (induction ys arbitrary: best)
    case (Cons y ys)
    then show ?case using step [of best y] Cons.IH [of "donorStep load mid best y"] by force
  qed simp
  from this [of "('''', -1)" subs] have
    "good (foldl (donorStep load mid) ('''', -1) subs)" "?L d \<le> snd (foldl (donorStep load mid) ('''', -1) subs)"
    using assms(3,4) by (auto simp: good_def)
  then show ?thesis using assms(1) [of d] by (auto simp: findDonor_def good_def)
qed

lemma partsOf_empty: "wfplan out \<Longrightarrow> (\<And>p. (mid, t, p) \<notin># triples out) \<Longrightarrow> partsOf out mid t = []"
  by (metis in_triples list.set_intros(1) neq_Nil_conv)

lemma total_single:
  assumes wf: "wfplan out" and single: "\<And>m t' p. (m, t', p) \<in># triples out \<Longrightarrow> t' = t"
  shows "total out mid = int (length (partsOf out mid t))"
proof -
  let ?bt = "mgetOr [] out mid" and ?len = "\<lambda>t ps. int (length ps)"
  have bt: "wfmap ?bt" using wf by (simp add: wfplan_def)
  have "total out mid = msum (\<lambda>t' ps. if t' = t then ?len t ps else 0) ?bt"
    unfolding total_def
  proof (rule msum_cong)
    fix t' ps assume e: "(t', ps) \<in> set ?bt"
    have "ps = partsOf out mid t'" using mgetOr_entry [OF bt e, of "[]"] by (simp add: partsOf_def)
    then have "t' \<noteq> t \<Longrightarrow> ps = []"
      using single partsOf_empty [OF wf, of mid t'] by blast
    then show "?len t' ps = (if t' = t then ?len t ps else 0)" by simp
  qed
  also have "\<dots> = int (length (partsOf out mid t))"
    using msum_single [OF bt, of ?len t "[]"] by (simp add: partsOf_def)
  finally show ?thesis .
qed

text \<open>
  The state of the pass over a group in which everybody subscribes to one topic and nothing
  else: \<open>ids\<close> are the members, and there are at least as many assigned pairs as members.
\<close>

definition oneTopic :: "string \<Rightarrow> string list \<Rightarrow> Plan \<times> (string, int) gomap \<Rightarrow> bool" where
  "oneTopic t ids s \<longleftrightarrow>
     wfplan (fst s) \<and> (\<forall>mid. mgetOr 0 (snd s) mid = total (fst s) mid) \<and>
     (\<forall>m t' p. (m, t', p) \<in># triples (fst s) \<longrightarrow> m \<in> set ids \<and> t' = t) \<and>
     card (set ids) \<le> size (triples (fst s))"

lemma oneTopicD: "oneTopic t ids s \<Longrightarrow> (m, t', p) \<in># triples (fst s) \<Longrightarrow> m \<in> set ids \<and> t' = t"
  unfolding oneTopic_def by blast

lemma oneTopic_total: "oneTopic t ids s \<Longrightarrow> total (fst s) m = int (length (partsOf (fst s) m t))"
  by (rule total_single) (auto simp: oneTopic_def dest: oneTopicD)

lemma oneTopic_rich:
  assumes s: "oneTopic t ids s" and mid: "mid \<in> set ids" "total (fst s) mid = 0"
  shows "\<exists>d \<in> set ids. d \<noteq> mid \<and> 2 \<le> total (fst s) d"
proof (rule ccontr)
  assume "\<not> ?thesis"
  then have le: "total (fst s) d \<le> 1" if "d \<in> set ids - {mid}" for d using that by force
  have wf: "wfplan (fst s)" using s by (simp add: oneTopic_def)
  have zero: "total (fst s) m = 0" if "m \<notin> set ids" for m
    using partsOf_empty [OF wf, of m t] oneTopicD [OF s] oneTopic_total [OF s] that by fastforce
  have "int (card (set ids)) \<le> (\<Sum>m \<in> set ids. total (fst s) m)"
    using s size_triples [OF wf, of "set ids"] zero by (simp add: oneTopic_def)
  also have "\<dots> = (\<Sum>m \<in> set ids - {mid}. total (fst s) m)"
    using mid by (simp add: sum.remove)
  also have "\<dots> \<le> int (card (set ids - {mid}))"
    using sum_mono [of "set ids - {mid}" "total (fst s)" "\<lambda>_. 1"] le by simp
  also have "\<dots> < int (card (set ids))" using mid(1) by (simp add: card_Diff1_less del: card_Diff_insert)
  finally show False by simp
qed

lemma oneTopic_steal:
  assumes "oneTopic t ids s" "donor \<noteq> mid" "1 < length (partsOf (fst s) donor t)" "mid \<in> set ids"
  shows "oneTopic t ids (steal donor mid t s)"
proof -
  let ?s = "steal donor mid t s"
  note tr = triples_steal [OF assms(3), of mid]
  have "wfplan (fst ?s)"
    using assms(1) by (simp add: oneTopic_def steal_def Let_def wfplan_Add wfplan_setParts)
  moreover have "mgetOr 0 (snd ?s) m = total (fst ?s) m" for m
    unfolding total_steal [OF assms(2,3)] using assms(1,2) by (auto simp: oneTopic_def steal_def Let_def)
  moreover have "m \<in> set ids \<and> t' = t" if "(m, t', p) \<in># triples (fst ?s)" for m t' p
  proof -
    have "(m, t', p) \<in># add_mset (mid, t, last (partsOf (fst s) donor t)) (triples (fst s))"
      unfolding tr [symmetric] using that by simp
    then show ?thesis using oneTopicD [OF assms(1)] assms(4) by auto
  qed
  moreover have "size (triples (fst ?s)) = size (triples (fst s))"
    using arg_cong [OF tr, of size] by simp
  ultimately show ?thesis using assms(1) by (simp add: oneTopic_def)
qed

lemma oneTopic_feasible:
  assumes s: "oneTopic t ids s" and mid: "mid \<in> set ids" and ids: "'''' \<notin> set ids"
    and topics: "topicsOf byID mid = [t]" and subs: "set (mgetOr [] subs t) = set ids"
    and enough: "length (mgetOr [] subs t) \<le> length (mgetOr [] parts t)"
    and ord: "\<And>xs. set (ord xs) = set xs"
  shows "oneTopic t ids (feasibleMember ord parts subs byID s mid) \<and>
    1 \<le> total (fst (feasibleMember ord parts subs byID s mid)) mid \<and>
    (\<forall>m. 1 \<le> total (fst s) m \<longrightarrow> 1 \<le> total (fst (feasibleMember ord parts subs byID s mid)) m)"
proof (cases "hasAny (mgetOr [] (fst s) mid)")
  case True
  then have "total (fst s) mid \<noteq> 0" using total_zero_iff by blast
  then have "1 \<le> total (fst s) mid" using total_nonneg [of "fst s" mid] by linarith
  with True s show ?thesis by (simp add: feasibleMember_def)
next
  case False
  then have zero: "total (fst s) mid = 0" using total_zero_iff by blast
  have wf: "wfplan (fst s)" and ld: "\<And>m. mgetOr 0 (snd s) m = total (fst s) m"
    using s by (auto simp: oneTopic_def)
  obtain d where d: "d \<in> set ids" "d \<noteq> mid" "2 \<le> total (fst s) d"
    using oneTopic_rich [OF s mid zero] by blast
  let ?donor = "findDonor (snd s) mid (ord (mgetOr [] subs t))"
  have "?donor \<noteq> '''' \<and> mgetOr 0 (snd s) d \<le> mgetOr 0 (snd s) ?donor"
    by (rule findDonor_max) (use d ids in \<open>auto simp: ld total_nonneg ord subs\<close>)
  then have ne: "?donor \<noteq> ''''" and rich: "2 \<le> total (fst s) ?donor" using d by (auto simp: ld)
  have other: "?donor \<noteq> mid" using findDonor_in [OF ne] by blast
  have len: "1 < length (partsOf (fst s) ?donor t)"
    using rich oneTopic_total [OF s] by simp
  have "feasibleMember ord parts subs byID s mid = steal ?donor mid t s"
    using False enough ne len
    by (simp add: feasibleMember_def topics Let_def partsOf_def steal_def setParts_def)
  moreover have "total (fst (steal ?donor mid t s)) m
      = total (fst s) m + (if m = mid then 1 else 0) - (if m = ?donor then 1 else 0)" for m
    by (rule total_steal [OF other len])
  ultimately show ?thesis
    using oneTopic_steal [OF s other len mid] zero rich other by auto
qed

lemma oneTopic_feasibility:
  assumes "oneTopic t ids s" "'''' \<notin> set ids" "set xs \<subseteq> set ids"
    "\<And>mid. mid \<in> set ids \<Longrightarrow> topicsOf byID mid = [t]" "set (mgetOr [] subs t) = set ids"
    "length (mgetOr [] subs t) \<le> length (mgetOr [] parts t)" "\<And>xs. set (ord xs) = set xs"
  shows "\<forall>m. m \<in> set xs \<or> 1 \<le> total (fst s) m \<longrightarrow>
    1 \<le> total (fst (foldl (feasibleMember ord parts subs byID) s xs)) m"
  using assms(1,3)
proof (induction xs arbitrary: s)
  case (Cons x xs)
  let ?s = "feasibleMember ord parts subs byID s x"
  have "oneTopic t ids ?s \<and> 1 \<le> total (fst ?s) x \<and> (\<forall>m. 1 \<le> total (fst s) m \<longrightarrow> 1 \<le> total (fst ?s) m)"
    by (rule oneTopic_feasible) (use Cons.prems assms in auto)
  then show ?case using Cons.IH [of ?s] Cons.prems by auto
qed simp

lemma distributed_oneTopic:
  assumes wf: "wfInputs input" and topics: "\<And>m. m \<in> set (inMembers input) \<Longrightarrow> mTopics m = [t]"
    and ne: "inMembers input \<noteq> []"
    and enough: "length (inMembers input) \<le> card (set (mgetOr [] (inPartitions input) t))"
  shows "oneTopic t (memberIDs (inMembers input)) (distributed input)"
    and "set (mgetOr [] (subscribersOf input) t) = set (memberIDs (inMembers input))"
    and "length (mgetOr [] (subscribersOf input) t) \<le> length (mgetOr [] (inPartitions input) t)"
proof -
  let ?ids = "memberIDs (inMembers input)" and ?subs = "subscribersOf input"
  let ?parts = "mgetOr [] (inPartitions input) t"
  note inv = distributed_inv [OF wf, unfolded feasInv_def planInv_def]
  show subs: "set (mgetOr [] ?subs t) = set ?ids"
    using subscribersOf_iff [OF wf, of _ t] topics by auto
  have ids: "card (set ?ids) = length (inMembers input)"
    using wf distinct_card [of "map mMemberID (inMembers input)"] by (simp add: wfInputs_def)
  have "length (mgetOr [] ?subs t) = card (set ?ids)"
    using distinct_card [OF distinct_subscribers] subs by (metis subscribersOf_def)
  then show "length (mgetOr [] ?subs t) \<le> length ?parts"
    using ids enough card_length [of ?parts] by linarith
  have "wanted input = {t} \<times> set ?parts" using topics ne by (auto simp: wanted_def neq_Nil_conv)
  then have "size (triples (fst (distributed input))) = card (set ?parts)"
    using inv by (metis card_cartesian_product_singleton size_image_mset size_mset_set)
  then have "card (set ?ids) \<le> size (triples (fst (distributed input)))" using ids enough by simp
  moreover have "mid \<in> set ?ids \<and> t' = t" if "(mid, t', p) \<in># triples (fst (distributed input))" for mid t' p
    using inv that topics subscribersOf_iff [OF wf, of mid t'] by fastforce
  ultimately show "oneTopic t ?ids (distributed input)" using inv by (auto simp: oneTopic_def)
qed

section \<open>Balance\<close>

definition score :: "(string, int) gomap \<Rightarrow> (string, int) gomap \<Rightarrow> string \<Rightarrow> int" where
  "score weight load mid = mgetOr 0 weight mid * 8 - mgetOr 0 load mid"

lemma bestMember_max:
  assumes "'''' \<notin> set ids" "mid \<in> set ids" "mid \<in> set subs"
  shows "score weight load mid \<le> score weight load (bestMember weight load subs ids)"
proof -
  define good where "good = (\<lambda>best :: string \<times> int \<times> int. fst best = '''' \<or>
    best = (fst best, score weight load (fst best), mgetOr 0 load (fst best)))"
  let ?b = "better weight load subs"
  have step: "good (?b best x) \<and> (x \<in> set subs \<longrightarrow> fst (?b best x) \<noteq> '''' \<and> score weight load x \<le> fst (snd (?b best x))) \<and>
      (fst best \<noteq> '''' \<longrightarrow> fst (?b best x) \<noteq> '''' \<and> fst (snd best) \<le> fst (snd (?b best x)))"
    if "good best" "x \<noteq> ''''" for best x
    using that by (cases best) (auto simp: better_def good_def score_def Let_def)
  have "good (foldl ?b best xs) \<and>
      (fst best \<noteq> '''' \<longrightarrow> fst (foldl ?b best xs) \<noteq> '''' \<and> fst (snd best) \<le> fst (snd (foldl ?b best xs))) \<and>
      (\<forall>x \<in> set xs \<inter> set subs. fst (foldl ?b best xs) \<noteq> '''' \<and> score weight load x \<le> fst (snd (foldl ?b best xs)))"
    if "good best" "'''' \<notin> set xs" for best xs
    using that
  proof (induction xs arbitrary: best)
    case (Cons x xs)
    have "good best" "x \<noteq> ''''" "'''' \<notin> set xs" using Cons.prems by auto
    note st = step [OF this(1,2)]
    show ?case using st Cons.IH [OF st [THEN conjunct1] \<open>'''' \<notin> set xs\<close>] by auto
  qed simp
  from this [of "('''', -1, 0)" ids] assms
  have "good (foldl ?b ('''', -1, 0) ids) \<and> fst (foldl ?b ('''', -1, 0) ids) \<noteq> '''' \<and>
      score weight load mid \<le> fst (snd (foldl ?b ('''', -1, 0) ids))"
    by (auto simp: good_def)
  then show ?thesis unfolding good_def bestMember_def by (metis fst_conv snd_conv)
qed

lemma mget_weights: "mid \<in> set ids \<Longrightarrow> mgetOr 0 (weights byID ids) mid = weightOf (lagOf byID mid)"
proof -
  have "mid \<in> set xs \<Longrightarrow> mget (foldl (\<lambda>acc mid. mput mid (weightOf (lagOf byID mid)) acc) acc xs) mid
      = Some (weightOf (lagOf byID mid))" for xs acc
  proof (induction xs arbitrary: acc)
    case (Cons x xs)
    then show ?case
      using mget_foldl_put_other [of mid "\<lambda>m. m" xs "\<lambda>m. weightOf (lagOf byID m)"] by (cases "mid \<in> set xs") auto
  qed simp
  then show "mid \<in> set ids \<Longrightarrow> mgetOr 0 (weights byID ids) mid = weightOf (lagOf byID mid)"
    by (simp add: weights_def mgetOr_def)
qed

lemma weightOf_bounds: "1 \<le> weightOf lag \<and> weightOf lag \<le> 100"
proof (cases "0 < sint lag")
  case True
  then have "0 \<le> sint lag div 1000" by (intro pos_imp_zdiv_nonneg_iff [THEN iffD2]) auto
  then show ?thesis by (auto simp: weightOf_def Let_def)
qed (simp add: weightOf_def)

text \<open>Loads that differ by at most one stay so when the least loaded member gets the next pair.\<close>

definition balanced :: "string list \<Rightarrow> Plan \<Rightarrow> bool" where
  "balanced ids out \<longleftrightarrow> (\<forall>a \<in> set ids. \<forall>b \<in> set ids. total out a \<le> total out b + 1)"

lemma assignOne_balanced:
  assumes inv: "planInv subs s" and bal: "balanced ids (fst s)" and ids: "'''' \<notin> set ids"
    and sub: "set (mgetOr [] subs (fst k)) \<subseteq> set ids" "mgetOr [] subs (fst k) \<noteq> [] \<Longrightarrow> set ids \<subseteq> set (mgetOr [] subs (fst k))"
    and w: "\<And>a. a \<in> set ids \<Longrightarrow> mgetOr 0 weight a = w0"
  shows "balanced ids (fst (assignOne subs weight ids s k))"
proof (cases "mgetOr [] subs (fst k) = []")
  case True
  then show ?thesis using bal assignOne_none [of subs "fst k" weight ids s "snd k"] by simp
next
  case False
  let ?S = "mgetOr [] subs (fst k)"
  obtain best where best: "best \<in> set ?S" "best = bestMember weight (snd s) ?S ids"
    "assignOne subs weight ids s (fst k, snd k)
      = (Add (fst s) best (fst k) (snd k), mput best (mgetOr 0 (snd s) best + 1) (snd s))"
    by (rule assignOne_step [OF ids sub(1) False, of weight s "snd k"])
  have least: "total (fst s) best \<le> total (fst s) b" if "b \<in> set ids" for b
    using bestMember_max [OF ids that, of ?S weight "snd s"] that sub best(1) inv w False
    by (auto simp: score_def planInv_def best(2) [symmetric])
  show ?thesis
    unfolding balanced_def
  proof (intro ballI)
    fix a b assume ab: "a \<in> set ids" "b \<in> set ids"
    have "total (fst s) a \<le> total (fst s) b + 1" using bal ab by (simp add: balanced_def)
    then show "total (fst (assignOne subs weight ids s k)) a \<le> total (fst (assignOne subs weight ids s k)) b + 1"
      using least [OF ab(2)] best(3) by (auto simp: total_Add)
  qed
qed

lemma distribute_balanced:
  assumes "planInv subs s" "balanced ids (fst s)" "'''' \<notin> set ids"
    and "\<And>t. set (mgetOr [] subs t) \<subseteq> set ids" "\<And>t. mgetOr [] subs t \<noteq> [] \<Longrightarrow> set ids \<subseteq> set (mgetOr [] subs t)"
    and "\<And>a. a \<in> set ids \<Longrightarrow> mgetOr 0 weight a = w0"
  shows "balanced ids (fst (distribute subs weight ids s ks))"
proof -
  have "planInv subs (distribute subs weight ids s ks) \<and> balanced ids (fst (distribute subs weight ids s ks))"
    unfolding distribute_def
  proof (rule foldl_inv)
    fix s k assume "planInv subs s \<and> balanced ids (fst s)"
    then show "planInv subs (assignOne subs weight ids s k) \<and> balanced ids (fst (assignOne subs weight ids s k))"
      using assignOne_inv [OF _ assms(3,4)] assignOne_balanced [OF _ _ assms(3) assms(4,5,6)] by blast
  qed (use assms in simp)
  then show ?thesis ..
qed

text \<open>In a balanced plan the feasibility pass finds no donor with two partitions.\<close>

lemma feasibility_balanced:
  assumes bal: "balanced ids (fst s)" and inv: "planInv subs s"
    and subs: "\<And>t. set (mgetOr [] subs t) \<subseteq> set ids" and ord: "\<And>xs. set (ord xs) = set xs" and sub: "set xs \<subseteq> set ids"
  shows "foldl (feasibleMember ord parts subs byID) s xs = s"
  using sub
proof (induction xs)
  case (Cons x xs)
  have "feasibleMember ord parts subs byID s x = s"
    using feasibleMember_cases [of ord parts subs byID s x]
  proof (elim disjE bexE exE conjE)
    fix t donor
    assume d: "donor = findDonor (snd s) x (ord (mgetOr [] subs t))" "donor \<noteq> ''''"
      "1 < length (partsOf (fst s) donor t)" and x: "\<not> hasAny (mgetOr [] (fst s) x)"
    have "donor \<in> set ids" using findDonor_in [of "snd s" x "ord (mgetOr [] subs t)"] d subs [of t] ord by auto
    moreover have "2 \<le> total (fst s) donor"
      using total_ge [of "fst s" donor t] d(3) inv by (simp add: planInv_def)
    moreover have "total (fst s) x = 0" using x total_zero_iff by blast
    moreover have "total (fst s) donor \<le> total (fst s) x + 1" if "donor \<in> set ids"
      using bal that Cons.prems by (simp add: balanced_def)
    ultimately show ?thesis by simp
  qed
  then show ?case using Cons by simp
qed simp

section \<open>Properties\<close>

text \<open>
  C14: stickiness.  A partition that the previous plan gave to a member of the group that still
  subscribes to its topic, and to nobody else in the group, stays with that member; the only
  other owner it can get is a member that owns nothing else, namely one that the feasibility
  pass served.
\<close>

theorem plan_sticky:
  assumes "wfInputs input" "inPrevious input = Some prev" "wfplan prev"
    and "m \<in> set (inMembers input)" "mMemberID m = mid" "t \<in> set (mTopics m)"
    and "p \<in> set (mgetOr [] (inPartitions input) t)" "p \<in> set (partsOf prev mid t)"
    and "\<And>m'. m' \<in> set (inMembers input) \<Longrightarrow> mMemberID m' \<noteq> mid \<Longrightarrow> p \<notin> set (partsOf prev (mMemberID m') t)"
  shows "\<exists>owner. p \<in> set (partsOf (Compute ord input) owner t) \<and>
    (owner = mid \<or> total (Compute ord input) owner = 1)"
proof -
  let ?s = "distributed input"
  have ne: "inMembers input \<noteq> []" using assms(4) by auto
  have "(mid, t, p) \<in># triples (fst (stickyOf input))"
    unfolding stickyOf_def assms(2)
  proof (rule stickyPass_keeps)
    show "held mid (t, p) ([], initPool (inPartitions input))"
      using assms(1,7) by (simp add: held_def initPool_ok wfInputs_def allPairs_def)
    show "mid \<in> set (mgetOr [] (subscribersOf input) t)"
      using assms(1,4,5,6) by (auto simp: subscribersOf_iff)
  qed (use assms in \<open>auto simp: wfplan_def\<close>)
  then have "(mid, t, p) \<in># triples (fst ?s)"
    using mset_subset_eqD [OF distribute_mono] by (simp add: distributed_def Let_def)
  then have "settled mid (t, p) ?s" by (auto simp: settled_def)
  then have "settled mid (t, p) (feasibility ord (inPartitions input) (subscribersOf input)
      (memberByID (inMembers input)) (memberIDs (inMembers input)) ?s)"
    by (rule feasibility_settled [OF distributed_inv [OF assms(1)], rotated]) (simp add: subscribersOf_def)
  then have "\<exists>owner. (owner, t, p) \<in># triples (Compute ord input) \<and>
      (owner = mid \<or> total (Compute ord input) owner = 1)"
    by (simp add: Compute_unfold [OF ne] settled_def triples_sortPlan total_sortPlan)
  then show ?thesis using Compute_exact [OF assms(1), of ord] by (simp add: in_triples)
qed

theorem plan_sticky_witness:
  "\<exists>owner. 1 \<in> set (partsOf (Compute rev sampleInputs) owner ''x'') \<and>
    (owner = ''b'' \<or> total (Compute rev sampleInputs) owner = 1)"
proof (rule plan_sticky [OF wf_sampleInputs])
  show "inPrevious sampleInputs = Some [(''b'', [(''x'', [1, 7])])]" by (simp add: sampleInputs_def)
  show "wfplan [(''b'', [(''x'', [1, 7])])]"
    by (simp add: wfplan_def wfmap_def mkeys_def mgetOr_def mget_def)
  show "\<lparr>mMemberID = ''b'', mTopics = [''x'', ''y''], mLag = 50000\<rparr> \<in> set (inMembers sampleInputs)"
    by (simp add: sampleInputs_def)
qed (auto simp: sampleInputs_def partsOf_def mgetOr_def mget_def)

text \<open>
  C13: no starvation.  In a group whose members all subscribe to one topic with at least as many
  partitions as there are members, every member owns a partition, however its lag weighs and
  whatever the previous plan gave away.
\<close>

theorem plan_no_starvation:
  assumes "wfInputs input" "\<And>m. m \<in> set (inMembers input) \<Longrightarrow> mTopics m = [t]"
    and "length (inMembers input) \<le> card (set (mgetOr [] (inPartitions input) t))"
    and "\<And>xs. set (ord xs) = set xs" and "m \<in> set (inMembers input)"
  shows "partsOf (Compute ord input) (mMemberID m) t \<noteq> []"
proof -
  let ?ids = "memberIDs (inMembers input)" and ?subs = "subscribersOf input" and ?s = "distributed input"
  have ne: "inMembers input \<noteq> []" using assms(5) by auto
  note one = distributed_oneTopic [OF assms(1,2) ne assms(3)]
  have "topicsOf (memberByID (inMembers input)) mid = [t]" if "mid \<in> set ?ids" for mid
    using that topicsOf_member [of "inMembers input"] assms(1,2) by (auto simp: wfInputs_def)
  then have "1 \<le> total (fst (feasibility ord (inPartitions input) ?subs (memberByID (inMembers input)) ?ids ?s)) (mMemberID m)"
    using oneTopic_feasibility [OF one(1) ids_nonempty [OF assms(1)] subset_refl _ one(2,3) assms(4)] assms(5)
    unfolding feasibility_def by auto
  then have pos: "1 \<le> total (Compute ord input) (mMemberID m)" by (simp add: Compute_unfold [OF ne] total_sortPlan)
  note exact = Compute_exact [OF assms(1), of ord]
  have "total (Compute ord input) (mMemberID m) = int (length (partsOf (Compute ord input) (mMemberID m) t))"
    using exact subscribersOf_iff [OF assms(1)] assms(2) by (intro total_single) fastforce+
  with pos show ?thesis by auto
qed

theorem plan_no_starvation_witness:
  "partsOf (Compute rev (sampleInputs\<lparr>inMembers := [\<lparr>mMemberID = ''a'', mTopics = [''x''], mLag = 0\<rparr>,
      \<lparr>mMemberID = ''b'', mTopics = [''x''], mLag = 900000\<rparr>]\<rparr>)) ''b'' ''x'' \<noteq> []"
  (is "partsOf (Compute rev ?in) _ _ \<noteq> _")
proof -
  have "partsOf (Compute rev ?in) (mMemberID \<lparr>mMemberID = ''b'', mTopics = [''x''], mLag = 900000\<rparr>) ''x'' \<noteq> []"
  proof (rule plan_no_starvation)
    show "wfInputs ?in" by (simp add: wfInputs_def sampleInputs_def wfmap_def mkeys_def)
    show "mTopics m = [''x'']" if "m \<in> set (inMembers ?in)" for m using that by auto
    show "length (inMembers ?in) \<le> card (set (mgetOr [] (inPartitions ?in) ''x''))"
      by (simp add: sampleInputs_def mgetOr_def mget_def)
  qed simp_all
  then show ?thesis by simp
qed

text \<open>
  C15: balance.  Without a previous plan, in a group whose members all have the same weight and subscribe
  to the same topics, the numbers of partitions of any two members differ by at most one.
\<close>

theorem plan_balanced:
  assumes "wfInputs input" "inPrevious input = None" "\<And>xs. set (ord xs) = set xs"
    and "\<And>m. m \<in> set (inMembers input) \<Longrightarrow> weightOf (mLag m) = w \<and> set (mTopics m) = ts"
    and "a \<in> set (inMembers input)" "b \<in> set (inMembers input)"
  shows "total (Compute ord input) (mMemberID a) \<le> total (Compute ord input) (mMemberID b) + 1"
proof -
  let ?ids = "memberIDs (inMembers input)" and ?subs = "subscribersOf input" and ?s = "distributed input"
  let ?byID = "memberByID (inMembers input)"
  have ne: "inMembers input \<noteq> []" using assms(5) by auto
  have inv: "planInv ?subs ?s" using distributed_inv [OF assms(1)] by (simp add: feasInv_def)
  have sticky: "fst (stickyOf input) = []" by (simp add: stickyOf_def stickyPass_def assms(2))
  have "planInv ?subs ([], loadsOf [])" by (simp add: planInv_def loadsOf_def total_def)
  moreover have "set ?ids \<subseteq> set (mgetOr [] ?subs t)" if "mgetOr [] ?subs t \<noteq> []" for t
    using that subscribersOf_iff [OF assms(1), of _ t] assms(4) by (cases "mgetOr [] ?subs t") auto
  moreover have "mgetOr 0 (weights ?byID ?ids) i = w" if "i \<in> set ?ids" for i
    using that assms(1,4) mget_memberByID [of "inMembers input"]
    by (auto simp: mget_weights lagOf_def wfInputs_def)
  ultimately have bal: "balanced ?ids (fst ?s)"
    unfolding distributed_def Let_def sticky
    by (intro distribute_balanced ids_nonempty subscribersOf_ids assms(1)) (auto simp: balanced_def total_def)
  have "feasibility ord (inPartitions input) ?subs ?byID ?ids ?s = ?s"
    unfolding feasibility_def
    by (rule feasibility_balanced [OF bal inv]) (use subscribersOf_ids [OF assms(1)] assms(3) in auto)
  then show ?thesis
    using bal assms(5,6) by (simp add: Compute_unfold [OF ne] total_sortPlan balanced_def)
qed

theorem plan_balanced_witness:
  "total (Compute rev (sampleInputs\<lparr>inMembers := [\<lparr>mMemberID = ''a'', mTopics = [''x'', ''y''], mLag = 10\<rparr>,
      \<lparr>mMemberID = ''b'', mTopics = [''y'', ''x''], mLag = 0\<rparr>], inPrevious := None\<rparr>)) ''a''
   \<le> total (Compute rev (sampleInputs\<lparr>inMembers := [\<lparr>mMemberID = ''a'', mTopics = [''x'', ''y''], mLag = 10\<rparr>,
      \<lparr>mMemberID = ''b'', mTopics = [''y'', ''x''], mLag = 0\<rparr>], inPrevious := None\<rparr>)) ''b'' + 1"
  (is "total (Compute rev ?in) _ \<le> _")
proof -
  let ?a = "\<lparr>mMemberID = ''a'', mTopics = [''x'', ''y''], mLag = 10\<rparr>"
  let ?b = "\<lparr>mMemberID = ''b'', mTopics = [''y'', ''x''], mLag = 0\<rparr>"
  have w: "weightOf 10 = 100 \<and> weightOf 0 = 100" by code_simp
  have "total (Compute rev ?in) (mMemberID ?a) \<le> total (Compute rev ?in) (mMemberID ?b) + 1"
  proof (rule plan_balanced)
    show "wfInputs ?in" by (simp add: wfInputs_def sampleInputs_def wfmap_def mkeys_def)
    show "weightOf (mLag m) = 100 \<and> set (mTopics m) = {''x'', ''y''}" if "m \<in> set (inMembers ?in)" for m
      using that w by auto
  qed (simp_all add: sampleInputs_def)
  then show ?thesis by simp
qed

text \<open>
  With more than one topic the feasibility pass can leave a member without a partition although
  its topic has partitions enough: the donor is the subscriber with the largest load over all
  topics, and when that donor owns none of the topic in question the pass gives up.  Here four
  partitions of topic \<open>A\<close> have three subscribers, \<open>m0\<close> owns all four of them and \<open>m2\<close> owns nothing.
\<close>

definition starvedInputs :: Inputs where
  "starvedInputs = \<lparr>inGroupID = ''g'',
     inMembers = [\<lparr>mMemberID = ''m0'', mTopics = [''A''], mLag = 0\<rparr>,
                  \<lparr>mMemberID = ''m1'', mTopics = [''A'', ''B''], mLag = 1000\<rparr>,
                  \<lparr>mMemberID = ''m2'', mTopics = [''A''], mLag = 1000000\<rparr>],
     inPartitions = [(''A'', [0, 1, 2, 3]), (''B'', [0, 1, 2, 3, 4, 5, 6, 7, 8, 9])], inPrevious = None\<rparr>"

theorem plan_can_starve:
  "partsOf (Compute (\<lambda>xs. xs) starvedInputs) ''m0'' ''A'' = [0, 1, 2, 3] \<and>
   total (Compute (\<lambda>xs. xs) starvedInputs) ''m2'' = 0"
  by code_simp

end
