(* ===== verification/SubscriptionStore.thy ===== *)
theory SubscriptionStore
  imports GoMap ConsumerProtocol
begin

text \<open>
  \<open>internal/subscription/store.go\<close>: the subscriptions learned from JoinGroup requests, by group
  and member, under a cap on the number of members.

  Every operation of the source runs under the store's lock, so an operation is a function on the
  store.  The \<open>onChange\<close> callback is called after the lock is released; the store records the
  calls in \<open>stCalls\<close>, newest last.  Times are nanoseconds.

  The locale \<open>bounded_kv\<close> is the contract the rest of the program relies on: a bounded table with
  insert, remove and lookup.  The interpretation shows that the two-level map with its checks in
  \<open>Put\<close> and the pruning in \<open>RemoveMember\<close> implements it.
\<close>

section \<open>The contract\<close>

locale bounded_kv =
  fixes get :: "'s \<Rightarrow> 'k \<Rightarrow> 'v option"
    and put :: "'s \<Rightarrow> 'u \<Rightarrow> bool \<times> 's"
    and key :: "'u \<Rightarrow> 'k"
    and norm :: "'u \<Rightarrow> 'v"
    and remove :: "'s \<Rightarrow> 'k \<Rightarrow> 's"
    and size_of :: "'s \<Rightarrow> nat"
    and cap :: "'s \<Rightarrow> nat option"
    and inv :: "'s \<Rightarrow> bool"
  assumes size_get: "inv s \<Longrightarrow> size_of s = card {k. get s k \<noteq> None}"
    and finite_get: "inv s \<Longrightarrow> finite {k. get s k \<noteq> None}"
    and put_result: "inv s \<Longrightarrow> fst (put s u) \<longleftrightarrow>
          get s (key u) \<noteq> None \<or> (case cap s of None \<Rightarrow> True | Some c \<Rightarrow> size_of s < c)"
    and put_get: "inv s \<Longrightarrow>
          get (snd (put s u)) k = (if fst (put s u) \<and> k = key u then Some (norm u) else get s k)"
    and put_inv: "inv s \<Longrightarrow> inv (snd (put s u))"
    and put_cap: "cap (snd (put s u)) = cap s"
    and remove_get: "inv s \<Longrightarrow> get (remove s k) k' = (if k' = k then None else get s k')"
    and remove_inv: "inv s \<Longrightarrow> inv (remove s k)"
    and remove_cap: "cap (remove s k) = cap s"
begin

definition within :: "'s \<Rightarrow> bool" where
  "within s \<longleftrightarrow> (case cap s of None \<Rightarrow> True | Some c \<Rightarrow> size_of s \<le> c)"

lemma size_put:
  assumes "inv s"
  shows "size_of (snd (put s u))
    = (if fst (put s u) \<and> get s (key u) = None then Suc (size_of s) else size_of s)"
proof -
  have "{k. get (snd (put s u)) k \<noteq> None}
      = (if fst (put s u) then insert (key u) {k. get s k \<noteq> None} else {k. get s k \<noteq> None})"
    using put_get [OF assms] by auto
  then show ?thesis
    using finite_get [OF assms] by (auto simp: size_get [OF put_inv [OF assms]] size_get [OF assms] card_insert_if)
qed

lemma put_within:
  assumes "inv s" "within s"
  shows "within (snd (put s u))"
  using assms(2) put_result [OF assms(1), of u]
  by (auto simp: within_def put_cap size_put [OF assms(1)] split: option.splits)

lemma remove_within:
  assumes "inv s" "within s"
  shows "within (remove s k)"
proof -
  have "{k'. get (remove s k) k' \<noteq> None} = {k'. get s k' \<noteq> None} - {k}"
    using remove_get [OF assms(1)] by auto
  then have "size_of (remove s k) \<le> size_of s"
    using finite_get [OF assms(1)] card_mono [of "{k'. get s k' \<noteq> None}" "{k'. get s k' \<noteq> None} - {k}"]
    by (simp add: size_get assms(1) remove_inv)
  with assms(2) show ?thesis by (auto simp: within_def remove_cap split: option.splits)
qed

end

section \<open>The store\<close>

record SubRecord =
  sbGroupID :: string
  sbMemberID :: string
  sbTopics :: "string list"
  sbOwnedPartitions :: "TopicPartitions list"
  sbGenerationID :: int32
  sbUpdatedAt :: int

record Store =
  stMax :: int
  byGroup :: "(string, (string, SubRecord) gomap) gomap"
  stOnChange :: bool
  stCalls :: "string list"

definition NewStore :: "int \<Rightarrow> Store" where
  "NewStore maxMembers = \<lparr>stMax = maxMembers, byGroup = [], stOnChange = False, stCalls = []\<rparr>"

definition SetOnChange :: "Store \<Rightarrow> bool \<Rightarrow> Store" where
  "SetOnChange s fn = s\<lparr>stOnChange := fn\<rparr>"

definition notifyChange :: "string \<Rightarrow> Store \<Rightarrow> Store" where
  "notifyChange g s = (if stOnChange s then s\<lparr>stCalls := stCalls s @ [g]\<rparr> else s)"

text \<open>\<open>dedupCopy\<close> carries the set of topics seen so far beside the output.\<close>

definition dedupStep :: "string set \<times> string list \<Rightarrow> string \<Rightarrow> string set \<times> string list" where
  "dedupStep acc t = (if t \<in> fst acc then acc else (insert t (fst acc), snd acc @ [t]))"

definition dedupCopy :: "string list \<Rightarrow> string list" where
  "dedupCopy topics = (if length topics = 0 then [] else snd (foldl dedupStep ({}, []) topics))"

definition cloneTopicParts :: "TopicPartitions list \<Rightarrow> TopicPartitions list" where
  "cloneTopicParts tps =
     (if length tps = 0 then []
      else map (\<lambda>tp. \<lparr>tpTopic = tpTopic tp, tpPartitions = [] @ tpPartitions tp\<rparr>) tps)"

definition totalLocked :: "Store \<Rightarrow> nat" where
  "totalLocked s = foldl (\<lambda>n (g, ms). n + length ms) 0 (byGroup s)"

definition copySub :: "int \<Rightarrow> SubRecord \<Rightarrow> SubRecord" where
  "copySub now sub =
     \<lparr>sbGroupID = sbGroupID sub, sbMemberID = sbMemberID sub, sbTopics = dedupCopy (sbTopics sub),
      sbOwnedPartitions = cloneTopicParts (sbOwnedPartitions sub),
      sbGenerationID = sbGenerationID sub, sbUpdatedAt = now\<rparr>"

definition Put :: "int \<Rightarrow> Store \<Rightarrow> SubRecord \<Rightarrow> bool \<times> Store" where
  "Put now s sub =
     (let cp = copySub now sub; g = mget (byGroup s) (sbGroupID cp) in
      if g = None \<and> stMax s > 0 \<and> int (totalLocked s) \<ge> stMax s then (False, s)
      else
        let s1 = (if g = None then s\<lparr>byGroup := mput (sbGroupID cp) [] (byGroup s)\<rparr> else s);
            ms = mgetOr [] (byGroup s1) (sbGroupID cp)
        in if mget ms (sbMemberID cp) = None \<and> stMax s1 > 0 \<and> int (totalLocked s1) \<ge> stMax s1
           then (False, s1)
           else (True, notifyChange (sbGroupID cp)
                   (s1\<lparr>byGroup := mput (sbGroupID cp) (mput (sbMemberID cp) cp ms) (byGroup s1)\<rparr>)))"

definition Get_sub :: "Store \<Rightarrow> string \<Rightarrow> string \<Rightarrow> SubRecord option" where
  "Get_sub s grp mem = (case mget (byGroup s) grp of None \<Rightarrow> None | Some g \<Rightarrow> mget g mem)"

definition MembersOf :: "Store \<Rightarrow> string \<Rightarrow> string list" where
  "MembersOf s grp =
     (let g = mgetOr [] (byGroup s) grp in if length g = 0 then [] else mkeys g)"

definition Groups :: "Store \<Rightarrow> string list" where
  "Groups s = mkeys (byGroup s)"

definition RemoveMember :: "Store \<Rightarrow> string \<Rightarrow> string \<Rightarrow> Store" where
  "RemoveMember s grp mem =
     (case mget (byGroup s) grp of
        None \<Rightarrow> s
      | Some g \<Rightarrow>
          if mget g mem = None then s
          else let g' = mdel mem g in
               notifyChange grp
                 (s\<lparr>byGroup := (if length g' = 0 then mdel grp (byGroup s) else mput grp g' (byGroup s))\<rparr>))"

definition Len_store :: "Store \<Rightarrow> nat" where
  "Len_store s = totalLocked s"

section \<open>Lemmas\<close>

lemma dedupStep_foldl:
  assumes "set (snd acc) = fst acc" "distinct (snd acc)"
  shows "set (snd (foldl dedupStep acc xs)) = fst acc \<union> set xs \<and> distinct (snd (foldl dedupStep acc xs)) \<and>
    (\<exists>ys. snd (foldl dedupStep acc xs) = snd acc @ ys)"
  using assms
proof (induction xs arbitrary: acc)
  case (Cons x xs)
  let ?a = "dedupStep acc x"
  have a: "set (snd ?a) = fst ?a" "distinct (snd ?a)" "fst ?a = insert x (fst acc)"
    "\<exists>ys. snd ?a = snd acc @ ys"
    using Cons.prems by (auto simp: dedupStep_def)
  then show ?case using Cons.IH [OF a(1,2)] by fastforce
qed simp

lemma dedupCopy_set: "set (dedupCopy ts) = set ts" "distinct (dedupCopy ts)"
  using dedupStep_foldl [of "({}, [])" ts] by (auto simp: dedupCopy_def)

lemma cloneTopicParts_id [simp]: "cloneTopicParts tps = tps"
  by (auto simp: cloneTopicParts_def intro!: map_idI)

lemma totalLocked_msum: "totalLocked s = msum (\<lambda>g ms. length ms) (byGroup s)"
proof -
  have "foldl (\<lambda>n (g, ms). n + length ms) k xs = k + msum (\<lambda>g ms. length ms) xs"
    for k and xs :: "(string, (string, SubRecord) gomap) gomap"
    by (induction xs arbitrary: k) (auto simp: msum_def)
  then show ?thesis by (simp add: totalLocked_def)
qed

lemma notifyChange_simps [simp]:
  "byGroup (notifyChange g s) = byGroup s" "stMax (notifyChange g s) = stMax s"
  "stOnChange (notifyChange g s) = stOnChange s"
  by (simp_all add: notifyChange_def)

text \<open>
  The invariant: proper maps, no empty group, every record stored under its own group and member,
  with distinct topics.
\<close>

definition storeInv :: "Store \<Rightarrow> bool" where
  "storeInv s \<longleftrightarrow>
     wfmap (byGroup s) \<and>
     (\<forall>g ms. mget (byGroup s) g = Some ms \<longrightarrow> wfmap ms \<and> ms \<noteq> []) \<and>
     (\<forall>g m r. Get_sub s g m = Some r \<longrightarrow> sbGroupID r = g \<and> sbMemberID r = m \<and> distinct (sbTopics r))"

definition subKey :: "SubRecord \<Rightarrow> string \<times> string" where
  "subKey sub = (sbGroupID sub, sbMemberID sub)"

definition getKey :: "Store \<Rightarrow> string \<times> string \<Rightarrow> SubRecord option" where
  "getKey s k = Get_sub s (fst k) (snd k)"

definition removeKey :: "Store \<Rightarrow> string \<times> string \<Rightarrow> Store" where
  "removeKey s k = RemoveMember s (fst k) (snd k)"

definition storeCap :: "Store \<Rightarrow> nat option" where
  "storeCap s = (if stMax s > 0 then Some (nat (stMax s)) else None)"

lemma storeInvD:
  assumes "storeInv s"
  shows "wfmap (byGroup s)" "mget (byGroup s) g = Some ms \<Longrightarrow> wfmap ms \<and> ms \<noteq> []"
    "Get_sub s g m = Some r \<Longrightarrow> sbGroupID r = g \<and> sbMemberID r = m \<and> distinct (sbTopics r)"
  using assms unfolding storeInv_def by blast+

lemma storeInv_new: "storeInv (NewStore n)"
  by (simp add: storeInv_def NewStore_def Get_sub_def)

lemma totalLocked_put_empty: "mget (byGroup s) g = None \<Longrightarrow> totalLocked (s\<lparr>byGroup := mput g [] (byGroup s)\<rparr>) = totalLocked s"
  using msum_mput [of "\<lambda>g (ms :: (string, SubRecord) gomap). length ms" g "[]" "[]" "byGroup s"]
  by (simp add: totalLocked_msum mgetOr_def)

lemma mput_mput [simp]: "mput k v (mput k w m) = mput k v m"
  by (induction m) (auto simp: mput_def)

text \<open>\<open>Put\<close> checks the cap twice, but both checks are the same one; an accepted record is stored.\<close>

lemma Put_eq:
  "Put now s sub =
     (if Get_sub s (sbGroupID sub) (sbMemberID sub) = None \<and> stMax s > 0 \<and> int (totalLocked s) \<ge> stMax s then (False, s)
      else (True, notifyChange (sbGroupID sub)
        (s\<lparr>byGroup := mput (sbGroupID sub)
             (mput (sbMemberID sub) (copySub now sub) (mgetOr [] (byGroup s) (sbGroupID sub))) (byGroup s)\<rparr>)))"
proof -
  have ids: "sbGroupID (copySub now sub) = sbGroupID sub" "sbMemberID (copySub now sub) = sbMemberID sub"
    by (simp_all add: copySub_def)
  show ?thesis
    by (cases "mget (byGroup s) (sbGroupID sub)")
      (auto simp: Put_def ids Let_def Get_sub_def mgetOr_def totalLocked_put_empty)
qed

lemma Get_sub_after:
  "Get_sub (s\<lparr>byGroup := mput g ms (byGroup s)\<rparr>) g' m = (if g' = g then mget ms m else Get_sub s g' m)"
  by (simp add: Get_sub_def)

lemma Get_sub_group: "Get_sub s g m = mget (mgetOr [] (byGroup s) g) m"
  by (simp add: Get_sub_def mgetOr_def split: option.splits)

lemma Get_sub_notify [simp]: "Get_sub (notifyChange g s) g' m = Get_sub s g' m"
  by (simp add: Get_sub_def)

lemma Put_get:
  "Get_sub (snd (Put now s sub)) g m
    = (if fst (Put now s sub) \<and> g = sbGroupID sub \<and> m = sbMemberID sub then Some (copySub now sub) else Get_sub s g m)"
  by (auto simp: Put_eq Get_sub_after Get_sub_group [of s, symmetric])

lemma mput_nonempty [simp]: "mput k v m \<noteq> []"
  by (cases m) (auto simp: mput_def)

lemma Put_inv:
  assumes "storeInv s"
  shows "storeInv (snd (Put now s sub))"
proof -
  let ?s = "snd (Put now s sub)"
  have groups: "wfmap ms \<and> ms \<noteq> []" if "mget (byGroup ?s) g = Some ms" for g ms
    using that storeInvD(2) [OF assms]
    by (auto simp: Put_eq mgetOr_def split: if_splits option.splits)
  have "wfmap (byGroup ?s)" using storeInvD(1) [OF assms] by (auto simp: Put_eq)
  moreover have "sbGroupID r = g \<and> sbMemberID r = m \<and> distinct (sbTopics r)" if "Get_sub ?s g m = Some r" for g m r
    using that storeInvD(3) [OF assms, of g m r] dedupCopy_set
    by (auto simp: Put_get copySub_def split: if_splits)
  ultimately show ?thesis using groups unfolding storeInv_def by blast
qed

lemma RemoveMember_get:
  assumes "storeInv s"
  shows "Get_sub (RemoveMember s g m) g' m' = (if g' = g \<and> m' = m then None else Get_sub s g' m')"
proof (cases "mget (byGroup s) g")
  case None
  then show ?thesis by (auto simp: RemoveMember_def Get_sub_def)
next
  case (Some ms)
  show ?thesis
  proof (cases "mget ms m = None")
    case True
    then show ?thesis using Some by (auto simp: RemoveMember_def Get_sub_def)
  next
    case False
    have "mget ms m' = None" if "mdel m ms = []" "m' \<noteq> m" for m'
      using that gm.lookup_del [of m ms m'] by simp
    then show ?thesis
      using Some False by (auto simp: RemoveMember_def Get_sub_def Let_def)
  qed
qed

lemma RemoveMember_inv:
  assumes "storeInv s"
  shows "storeInv (RemoveMember s g m)"
proof -
  let ?s = "RemoveMember s g m"
  have "wfmap ms \<and> ms \<noteq> []" if "mget (byGroup ?s) g' = Some ms" for g' ms
    using that storeInvD(2) [OF assms] by (auto simp: RemoveMember_def Let_def split: option.splits if_splits)
  moreover have "wfmap (byGroup ?s)"
    using storeInvD(1) [OF assms] by (auto simp: RemoveMember_def Let_def split: option.splits)
  moreover have "sbGroupID r = g' \<and> sbMemberID r = m' \<and> distinct (sbTopics r)" if "Get_sub ?s g' m' = Some r" for g' m' r
    using that storeInvD(3) [OF assms, of g' m' r] by (auto simp: RemoveMember_get [OF assms] split: if_splits)
  ultimately show ?thesis unfolding storeInv_def by blast
qed

lemma totalLocked_card:
  assumes "storeInv s"
  shows "totalLocked s = card {k. getKey s k \<noteq> None}" and "finite {k. getKey s k \<noteq> None}"
proof -
  let ?G = "set (mkeys (byGroup s))" and ?M = "\<lambda>g. set (mkeys (mgetOr [] (byGroup s) g))"
  have dom: "{k. getKey s k \<noteq> None} = Sigma ?G ?M"
    by (auto simp: getKey_def Get_sub_def in_mkeys mgetOr_def split: option.splits)
  then show "finite {k. getKey s k \<noteq> None}" by simp
  have wf: "wfmap (mgetOr [] (byGroup s) g)" for g
    using storeInvD(2) [OF assms, of g] by (auto simp: mgetOr_def split: option.splits)
  have "totalLocked s = (\<Sum>g \<in> ?G. length (mgetOr [] (byGroup s) g))"
    unfolding totalLocked_msum using storeInvD(1) [OF assms]
    by (rule msum_sum) (auto simp: mkeys_def image_iff)
  also have "\<dots> = (\<Sum>g \<in> ?G. card (?M g))"
    using gm.wf_ks [OF wf] by (simp add: distinct_card)
  also have "\<dots> = card (Sigma ?G ?M)" by simp
  finally show "totalLocked s = card {k. getKey s k \<noteq> None}" by (simp only: dom)
qed

interpretation store: bounded_kv getKey "Put now" subKey "copySub now" removeKey Len_store storeCap storeInv for now
proof unfold_locales
  fix s assume inv: "storeInv s"
  show "Len_store s = card {k. getKey s k \<noteq> None}" "finite {k. getKey s k \<noteq> None}"
    using totalLocked_card [OF inv] by (simp_all add: Len_store_def)
  show "fst (Put now s u) = (getKey s (subKey u) \<noteq> None \<or>
      (case storeCap s of None \<Rightarrow> True | Some c \<Rightarrow> Len_store s < c))" for u
    by (auto simp: Put_eq getKey_def subKey_def storeCap_def Len_store_def)
  show "getKey (snd (Put now s u)) k = (if fst (Put now s u) \<and> k = subKey u then Some (copySub now u) else getKey s k)" for u k
    by (cases k) (auto simp: getKey_def subKey_def Put_get)
  show "storeInv (snd (Put now s u))" for u by (rule Put_inv [OF inv])
  show "getKey (removeKey s k) k' = (if k' = k then None else getKey s k')" for k k'
    by (cases k; cases k') (simp add: getKey_def removeKey_def RemoveMember_get [OF inv])
  show "storeInv (removeKey s k)" for k by (simp add: removeKey_def RemoveMember_inv [OF inv])
next
  show "storeCap (snd (Put now s u)) = storeCap s" for s u by (simp add: Put_eq storeCap_def)
  show "storeCap (removeKey s k) = storeCap s" for s k
    by (auto simp: removeKey_def RemoveMember_def storeCap_def Let_def split: option.splits)
qed

section \<open>Properties\<close>

datatype storeOp = OpPut int SubRecord | OpRemove string string

fun applyOp :: "Store \<Rightarrow> storeOp \<Rightarrow> Store" where
  "applyOp s (OpPut now sub) = snd (Put now s sub)"
| "applyOp s (OpRemove g m) = RemoveMember s g m"

text \<open>The reference: a partial function from (group, member), and the number of its entries.\<close>

fun specOp :: "nat option \<Rightarrow> (string \<times> string \<rightharpoonup> SubRecord) \<Rightarrow> storeOp \<Rightarrow> (string \<times> string \<rightharpoonup> SubRecord)" where
  "specOp c f (OpPut now sub) =
     (if f (subKey sub) \<noteq> None \<or> (case c of None \<Rightarrow> True | Some n \<Rightarrow> card {k. f k \<noteq> None} < n)
      then f(subKey sub \<mapsto> copySub now sub) else f)"
| "specOp c f (OpRemove g m) = f((g, m) := None)"


lemma applyOp_refines:
  assumes "storeInv s"
  shows "getKey (applyOp s op) = specOp (storeCap s) (getKey s) op \<and> storeInv (applyOp s op) \<and>
    storeCap (applyOp s op) = storeCap s \<and> (store.within s \<longrightarrow> store.within (applyOp s op))"
proof (cases op)
  case (OpPut now sub)
  have r: "fst (Put now s sub) \<longleftrightarrow> getKey s (subKey sub) \<noteq> None \<or>
      (case storeCap s of None \<Rightarrow> True | Some c \<Rightarrow> card {k. getKey s k \<noteq> None} < c)"
    unfolding store.put_result [OF assms] store.size_get [OF assms] ..
  have "getKey (applyOp s op) = specOp (storeCap s) (getKey s) op"
    unfolding OpPut applyOp.simps specOp.simps by (rule ext) (simp only: store.put_get [OF assms] r fun_upd_apply, simp)
  then show ?thesis
    using store.put_within [OF assms] store.put_inv [OF assms] store.put_cap by (simp add: OpPut)
next
  case (OpRemove g m)
  have r: "applyOp s op = removeKey s (g, m)" by (simp add: OpRemove removeKey_def)
  show ?thesis
    unfolding r using store.remove_get [OF assms] store.remove_inv [OF assms] store.remove_cap store.remove_within [OF assms]
    by (auto simp: OpRemove fun_eq_iff)
qed

lemma applyOps:
  assumes "storeInv s" "store.within s"
  shows "storeInv (foldl applyOp s ops) \<and> store.within (foldl applyOp s ops) \<and>
    storeCap (foldl applyOp s ops) = storeCap s \<and>
    getKey (foldl applyOp s ops) = foldl (specOp (storeCap s)) (getKey s) ops"
  using assms
proof (induction ops arbitrary: s)
  case (Cons op ops)
  show ?case using Cons.IH [of "applyOp s op"] applyOp_refines [OF Cons.prems(1), of op] Cons.prems by simp
qed simp

lemma storeCap_new: "storeCap (NewStore n) = (if n > 0 then Some (nat n) else None)"
  by (simp add: storeCap_def NewStore_def)

lemma getKey_new: "getKey (NewStore n) = Map.empty"
  by (simp add: getKey_def Get_sub_def NewStore_def fun_eq_iff)

lemma within_new: "store.within (NewStore n)"
  by (simp add: store.within_def storeCap_new) (simp add: Len_store_def totalLocked_def NewStore_def)

text \<open>
  C18: after any sequence of \<open>Put\<close> and \<open>RemoveMember\<close>, \<open>Get\<close> answers as a bounded table does that
  applies the same operations: an accepted record replaces the one of the same group and member,
  a record refused for the cap changes nothing, a removal forgets exactly one member.
\<close>

theorem store_refines_table:
  "getKey (foldl applyOp (NewStore maxMembers) ops)
    = foldl (specOp (if maxMembers > 0 then Some (nat maxMembers) else None)) Map.empty ops"
  using applyOps [OF storeInv_new within_new, of maxMembers ops] by (simp add: getKey_new storeCap_new)

text \<open>
  C19: after any sequence of operations the store holds at most \<open>maxMembers\<close> members when a cap is
  set, \<open>Len\<close> is the number of members that \<open>Get\<close> finds, no group is left without members, and
  every record stands under its own group and member, its topics without repetition.
\<close>

theorem store_invariant:
  "let s = foldl applyOp (NewStore maxMembers) ops in
     (maxMembers > 0 \<longrightarrow> int (Len_store s) \<le> maxMembers) \<and>
     Len_store s = card {(g, m). Get_sub s g m \<noteq> None} \<and>
     (\<forall>g \<in> set (Groups s). MembersOf s g \<noteq> []) \<and>
     (\<forall>g m r. Get_sub s g m = Some r \<longrightarrow> sbGroupID r = g \<and> sbMemberID r = m \<and> distinct (sbTopics r))"
proof -
  let ?s = "foldl applyOp (NewStore maxMembers) ops"
  note ops = applyOps [OF storeInv_new within_new, of maxMembers ops]
  then have inv: "storeInv ?s" by simp
  have "maxMembers > 0 \<longrightarrow> int (Len_store ?s) \<le> maxMembers"
    using ops by (auto simp: store.within_def storeCap_new)
  moreover have "Len_store ?s = card {(g, m). Get_sub ?s g m \<noteq> None}"
    using totalLocked_card [OF inv] by (simp add: Len_store_def getKey_def case_prod_beta')
  moreover have "MembersOf ?s g \<noteq> []" if "g \<in> set (Groups ?s)" for g
  proof -
    from that obtain ms where ms: "mget (byGroup ?s) g = Some ms" by (auto simp: Groups_def in_mkeys)
    then have "ms \<noteq> []" using storeInvD(2) [OF inv] by blast
    then show ?thesis by (simp add: MembersOf_def mgetOr_def ms mkeys_def)
  qed
  ultimately show ?thesis using storeInvD(3) [OF inv] by (simp add: Let_def)
qed

theorem store_invariant_witness:
  "int (Len_store (foldl applyOp (NewStore 1)
     [OpPut 5 \<lparr>sbGroupID = ''g'', sbMemberID = ''a'', sbTopics = [''t'', ''t''], sbOwnedPartitions = [],
        sbGenerationID = 0, sbUpdatedAt = 0\<rparr>,
      OpPut 6 \<lparr>sbGroupID = ''h'', sbMemberID = ''b'', sbTopics = [], sbOwnedPartitions = [],
        sbGenerationID = 0, sbUpdatedAt = 0\<rparr>])) \<le> 1"
  using store_invariant [of 1 "[OpPut 5 \<lparr>sbGroupID = ''g'', sbMemberID = ''a'', sbTopics = [''t'', ''t''],
        sbOwnedPartitions = [], sbGenerationID = 0, sbUpdatedAt = 0\<rparr>,
      OpPut 6 \<lparr>sbGroupID = ''h'', sbMemberID = ''b'', sbTopics = [], sbOwnedPartitions = [],
        sbGenerationID = 0, sbUpdatedAt = 0\<rparr>]"] by (simp only: Let_def) simp

end
