(* ===== verification/Tracker.thy ===== *)
theory Tracker
  imports GoMap
begin

text \<open>
  \<open>internal/proxy/correlation.go\<close>: the requests of a connection whose responses the proxy wants to
  see, by correlation id, bounded in number and in age.  Times and durations are nanoseconds; the
  clock reading of an operation is its argument.  The closure in \<open>Rewrite\<close> is a value of a type
  parameter: package proxy does not look inside it.

  The locale \<open>pending_table\<close> is what the two pumps of a connection rely on.
\<close>

section \<open>The contract\<close>

datatype 'p trackerOp = TRegister int 'p | TTake "32 word"

locale pending_table =
  fixes find :: "'t \<Rightarrow> int32 \<Rightarrow> 'p option"
    and register :: "int \<Rightarrow> 't \<Rightarrow> 'p \<Rightarrow> bool \<times> 't"
    and takeP :: "'t \<Rightarrow> int32 \<Rightarrow> 'p option \<times> 't"
    and key :: "'p \<Rightarrow> int32"
    and inv :: "'t \<Rightarrow> bool"
  assumes register_found: "inv t \<Longrightarrow> register now t p = (True, t') \<Longrightarrow> find t' (key p) = Some p"
    and register_other: "inv t \<Longrightarrow> register now t p = (b, t') \<Longrightarrow> find t' k = Some q \<Longrightarrow>
          b \<and> k = key p \<and> q = p \<or> find t k = Some q"
    and register_inv: "inv t \<Longrightarrow> inv (snd (register now t p))"
    and take_result: "inv t \<Longrightarrow> fst (takeP t k) = find t k"
    and take_rest: "inv t \<Longrightarrow> find (snd (takeP t k)) k' = (if k' = k then None else find t k')"
    and take_inv: "inv t \<Longrightarrow> inv (snd (takeP t k))"
    and key_ok: "inv t \<Longrightarrow> find t k = Some p \<Longrightarrow> key p = k"
begin

fun apply_op :: "'t \<Rightarrow> 'p trackerOp \<Rightarrow> 't" where
  "apply_op t (TRegister now p) = snd (register now t p)"
| "apply_op t (TTake k) = snd (takeP t k)"

lemma apply_inv: "inv t \<Longrightarrow> inv (apply_op t op)"
  by (cases op) (auto intro: register_inv take_inv)

text \<open>
  Whatever the pumps do, an entry found at the end was registered by some step after which no
  step took it, or was there at the start.
\<close>

lemma found_was_registered:
  assumes "inv t" "find (foldl apply_op t ops) k = Some p"
  shows "find t k = Some p \<and> TTake k \<notin> set ops \<or>
    (\<exists>xs now ys. ops = xs @ TRegister now p # ys \<and> key p = k \<and> TTake k \<notin> set ys)"
  using assms
proof (induction ops rule: rev_induct)
  case (snoc op ops)
  let ?t = "foldl apply_op t ops"
  have inv: "inv ?t" using snoc.prems(1) by (rule foldl_inv) (rule apply_inv)
  show ?case
  proof (cases op)
    case (TRegister now q)
    obtain b t' where r: "register now ?t q = (b, t')" by fastforce
    from snoc.prems(2) have "find t' k = Some p" by (simp add: TRegister r)
    from register_other [OF inv r this] show ?thesis
    proof
      assume "b \<and> k = key q \<and> p = q"
      then show ?thesis using TRegister by fastforce
    next
      assume "find ?t k = Some p"
      from snoc.IH [OF snoc.prems(1) this] show ?thesis using TRegister by fastforce
    qed
  next
    case (TTake k')
    with snoc.prems(2) take_rest [OF inv] have "find ?t k = Some p" "k' \<noteq> k" by (auto split: if_splits)
    with snoc.IH [OF snoc.prems(1)] TTake show ?thesis by fastforce
  qed
qed simp

end

section \<open>The tracker\<close>

record 'f Pending =
  pAPIKey :: int16
  pAPIVersion :: int16
  pCorrelID :: int32
  pSent :: int
  pRewrite :: "'f option"
  pRewriteRequest :: "bytes option"

record 'f Tracker =
  entries :: "(int32, 'f Pending) gomap"
  tMaxSize :: int
  tMaxAge :: int
  sweepEvery :: int
  lastSweepNS :: int

definition second :: int where "second = 1000000000"

definition NewTracker :: "int \<Rightarrow> int \<Rightarrow> 'f Tracker" where
  "NewTracker maxSize maxAge =
     (let maxSize = (if maxSize \<le> 0 then 4096 else maxSize);
          maxAge = (if maxAge \<le> 0 then 5 * 60 * second else maxAge);
          sweep = min (maxAge div 4) second;
          sweep = (if sweep \<le> 0 then 1000 else sweep)
      in \<lparr>entries = [], tMaxSize = maxSize, tMaxAge = maxAge, sweepEvery = sweep, lastSweepNS = 0\<rparr>)"

definition evictExpiredLocked :: "int \<Rightarrow> 'f Tracker \<Rightarrow> 'f Tracker" where
  "evictExpiredLocked now t =
     t\<lparr>entries := filter (\<lambda>(id, p). \<not> (now - pSent p > tMaxAge t)) (entries t)\<rparr>"

definition Register :: "int \<Rightarrow> 'f Tracker \<Rightarrow> 'f Pending \<Rightarrow> bool \<times> 'f Tracker" where
  "Register now t p =
     (let t = (if int (length (entries t)) \<ge> tMaxSize t \<or> now - lastSweepNS t \<ge> sweepEvery t
               then (evictExpiredLocked now t)\<lparr>lastSweepNS := now\<rparr> else t)
      in if int (length (entries t)) \<ge> tMaxSize t then (False, t)
         else if mget (entries t) (pCorrelID p) \<noteq> None then (False, t)
         else (True, t\<lparr>entries := mput (pCorrelID p) p (entries t)\<rparr>))"

definition Take :: "'f Tracker \<Rightarrow> int32 \<Rightarrow> 'f Pending option \<times> 'f Tracker" where
  "Take t correlID =
     (case mget (entries t) correlID of
        None \<Rightarrow> (None, t)
      | Some p \<Rightarrow> (Some p, t\<lparr>entries := mdel correlID (entries t)\<rparr>))"

definition Len_tracker :: "'f Tracker \<Rightarrow> nat" where
  "Len_tracker t = length (entries t)"

section \<open>Lemmas\<close>

definition trackerInv :: "'f Tracker \<Rightarrow> bool" where
  "trackerInv t \<longleftrightarrow>
     wfmap (entries t) \<and> (\<forall>k p. mget (entries t) k = Some p \<longrightarrow> pCorrelID p = k) \<and>
     int (length (entries t)) \<le> tMaxSize t"

definition findPending :: "'f Tracker \<Rightarrow> int32 \<Rightarrow> 'f Pending option" where
  "findPending t k = mget (entries t) k"

lemma mget_filter:
  "wfmap m \<Longrightarrow> mget (filter P m) k = (case mget m k of Some v \<Rightarrow> if P (k, v) then Some v else None | None \<Rightarrow> None)"
  by (induction m) (auto simp: mget_def wfmap_def mkeys_def map_of_eq_None_iff split: option.splits)

lemma wfmap_filter: "wfmap m \<Longrightarrow> wfmap (filter P m)"
  by (simp add: wfmap_def mkeys_def distinct_map_filter)

text \<open>Registering after the sweep that may come first.\<close>

definition swept :: "int \<Rightarrow> 'f Tracker \<Rightarrow> 'f Tracker" where
  "swept now t =
     (if int (length (entries t)) \<ge> tMaxSize t \<or> now - lastSweepNS t \<ge> sweepEvery t
      then (evictExpiredLocked now t)\<lparr>lastSweepNS := now\<rparr> else t)"

lemma Register_swept:
  "Register now t p =
     (if int (length (entries (swept now t))) \<ge> tMaxSize (swept now t) then (False, swept now t)
      else if mget (entries (swept now t)) (pCorrelID p) \<noteq> None then (False, swept now t)
      else (True, (swept now t)\<lparr>entries := mput (pCorrelID p) p (entries (swept now t))\<rparr>))"
  by (simp add: Register_def swept_def Let_def)

lemma swept_find:
  "trackerInv t \<Longrightarrow> mget (entries (swept now t)) k = Some p \<Longrightarrow> mget (entries t) k = Some p"
  by (auto simp: swept_def evictExpiredLocked_def trackerInv_def mget_filter split: if_splits option.splits)

lemma swept_inv: "trackerInv t \<Longrightarrow> trackerInv (swept now t)"
proof -
  assume inv: "trackerInv t"
  have "int (length (entries (swept now t))) \<le> tMaxSize (swept now t)"
  proof -
    have "int (length (filter P (entries t))) \<le> tMaxSize t" for P
      using inv length_filter_le [of P "entries t"] unfolding trackerInv_def by linarith
    then show ?thesis using inv by (simp add: trackerInv_def swept_def evictExpiredLocked_def)
  qed
  moreover have "wfmap (entries (swept now t))"
    using inv by (simp add: trackerInv_def swept_def evictExpiredLocked_def wfmap_filter)
  ultimately show ?thesis
    using inv swept_find [OF inv] by (auto simp: trackerInv_def)
qed

lemma Register_inv:
  assumes "trackerInv t"
  shows "trackerInv (snd (Register now t p))"
proof -
  have inv: "trackerInv (swept now t)" by (rule swept_inv [OF assms])
  then have "length (entries ((swept now t)\<lparr>entries := mput (pCorrelID p) p (entries (swept now t))\<rparr>))
      \<le> Suc (length (entries (swept now t)))"
    using gm.size_put_le [of "entries (swept now t)"] by (simp add: trackerInv_def)
  with inv show ?thesis by (auto simp: Register_swept trackerInv_def)
qed

lemma Take_inv:
  assumes "trackerInv t"
  shows "trackerInv (snd (Take t k))"
proof -
  have "length (mdel k (entries t)) \<le> length (entries t)"
    using assms gm.size_del_le [of "entries t" k] by (simp add: trackerInv_def)
  with assms show ?thesis by (auto simp: Take_def trackerInv_def split: option.splits)
qed

interpretation tracker: pending_table findPending Register Take pCorrelID trackerInv
proof unfold_locales
  fix t :: "'f Tracker" assume inv: "trackerInv t"
  show "findPending t' (pCorrelID p) = Some p" if "Register now t p = (True, t')" for now p t'
    using that by (auto simp: Register_swept findPending_def split: if_splits)
  show "b \<and> k = pCorrelID p \<and> q = p \<or> findPending t k = Some q"
    if "Register now t p = (b, t')" "findPending t' k = Some q" for now p b t' k q
    using that swept_find [OF inv, of now k q] by (auto simp: Register_swept findPending_def split: if_splits)
  show "trackerInv (snd (Register now t p))" for now p by (rule Register_inv [OF inv])
  show "fst (Take t k) = findPending t k" for k by (simp add: Take_def findPending_def split: option.splits)
  show "findPending (snd (Take t k)) k' = (if k' = k then None else findPending t k')" for k k'
    by (auto simp: Take_def findPending_def split: option.splits)
  show "trackerInv (snd (Take t k))" for k by (rule Take_inv [OF inv])
  show "pCorrelID p = k" if "findPending t k = Some p" for k p
    using that inv by (simp add: trackerInv_def findPending_def)
qed

text \<open>One operation of a pump on the tracker.\<close>

fun applyTracker :: "'f Tracker \<Rightarrow> 'f Pending trackerOp \<Rightarrow> 'f Tracker" where
  "applyTracker t (TRegister now p) = snd (Register now t p)"
| "applyTracker t (TTake k) = snd (Take t k)"

lemma applyTracker_eq: "tracker.apply_op = applyTracker"
proof (intro ext)
  show "tracker.apply_op t op = applyTracker t op" for t :: "'f Tracker" and op by (cases op) simp_all
qed

lemmas tracker_apply_inv = tracker.apply_inv [unfolded applyTracker_eq]
lemmas tracker_found = tracker.found_was_registered [unfolded applyTracker_eq]

lemma NewTracker_inv: "trackerInv (NewTracker maxSize maxAge)"
  by (simp add: trackerInv_def NewTracker_def Let_def)

lemma run_inv: "trackerInv (foldl applyTracker (NewTracker maxSize maxAge) ops)"
  by (rule foldl_inv, rule NewTracker_inv) (rule tracker_apply_inv)

lemma Register_params:
  "tMaxAge (snd (Register now t p)) = tMaxAge t" "tMaxSize (snd (Register now t p)) = tMaxSize t"
  by (simp_all add: Register_swept swept_def evictExpiredLocked_def)

lemma Take_params: "tMaxAge (snd (Take t k)) = tMaxAge t" "tMaxSize (snd (Take t k)) = tMaxSize t"
  by (simp_all add: Take_def split: option.splits)

lemma op_params: "tMaxAge (applyTracker t op) = tMaxAge t \<and> tMaxSize (applyTracker t op) = tMaxSize t"
  by (cases op) (simp_all add: Register_params Take_params)

text \<open>A fresh entry survives a registration: it is neither swept nor replaced.\<close>

lemma Register_keeps:
  assumes inv: "trackerInv t" and q: "findPending t k = Some q" and age: "now - pSent q \<le> tMaxAge t"
  shows "findPending (snd (Register now t p)) k = Some q"
proof -
  have "mget (entries (swept now t)) k = Some q"
    using inv q age by (simp add: swept_def evictExpiredLocked_def findPending_def trackerInv_def mget_filter)
  then show ?thesis by (auto simp: Register_swept findPending_def)
qed

section \<open>Properties\<close>

text \<open>
  In every run of the two pumps the tracker holds at most its configured number of entries,
  each under its own correlation id.
\<close>

theorem tracker_bounded:
  "let t = foldl applyTracker (NewTracker maxSize maxAge) ops in
     int (Len_tracker t) \<le> (if maxSize \<le> 0 then 4096 else maxSize) \<and>
     (\<forall>k p. findPending t k = Some p \<longrightarrow> pCorrelID p = k)"
proof -
  let ?n = "NewTracker maxSize maxAge :: 'a Tracker" and ?t = "foldl applyTracker (NewTracker maxSize maxAge) ops"
  have "tMaxSize ?t = tMaxSize ?n"
    by (rule foldl_inv [where P = "\<lambda>t. tMaxSize t = tMaxSize ?n"]) (simp_all add: op_params)
  then show ?thesis
    using run_inv [of maxSize maxAge ops] by (simp add: Let_def trackerInv_def Len_tracker_def findPending_def NewTracker_def)
qed

definition samplePending :: "int32 \<Rightarrow> int \<Rightarrow> unit Pending" where
  "samplePending k sent = \<lparr>pAPIKey = 3, pAPIVersion = 9, pCorrelID = k, pSent = sent, pRewrite = Some (),
     pRewriteRequest = None\<rparr>"

theorem tracker_bounded_witness:
  "pCorrelID (samplePending 7 10) = 7 \<and>
   findPending (foldl applyTracker (NewTracker 1 0) [TRegister 10 (samplePending 7 10)]) 7 = Some (samplePending 7 10)"
proof -
  have f: "findPending (foldl applyTracker (NewTracker 1 0) [TRegister 10 (samplePending 7 10)]) 7 = Some (samplePending 7 10)"
    by code_simp
  then show ?thesis
    using tracker_bounded [of 1 0 "[TRegister 10 (samplePending 7 10)]"] unfolding Let_def by blast
qed

text \<open>
  C17: an entry that \<open>Take\<close> returns is one that the upstream pump registered under that correlation
  id and that no earlier \<open>Take\<close> has returned since: a response is never matched with the request
  of another correlation id, and a request never with two responses.
\<close>

theorem take_matches_registration:
  assumes "fst (Take (foldl applyTracker (NewTracker maxSize maxAge) ops) k) = Some p"
  shows "\<exists>xs now ys. ops = xs @ TRegister now p # ys \<and> pCorrelID p = k \<and> TTake k \<notin> set ys"
proof -
  let ?t = "NewTracker maxSize maxAge :: 'a Tracker"
  have "findPending (foldl applyTracker ?t ops) k = Some p"
    using assms tracker.take_result [OF run_inv, of maxSize maxAge ops k] by simp
  from tracker_found [OF NewTracker_inv this] show ?thesis
    by (auto simp: findPending_def NewTracker_def Let_def)
qed

theorem take_matches_registration_witness:
  "\<exists>xs now ys. [TRegister 10 (samplePending 7 10), TRegister 11 (samplePending 8 11)]
      = xs @ TRegister now (samplePending 7 10) # ys \<and> TTake 7 \<notin> set ys"
proof -
  have "fst (Take (foldl applyTracker (NewTracker 4 0) [TRegister 10 (samplePending 7 10),
      TRegister 11 (samplePending 8 11)]) 7) = Some (samplePending 7 10)" by code_simp
  from take_matches_registration [OF this] show ?thesis by blast
qed

text \<open>
  An entry that is not older than \<open>maxAge\<close> is still there when its response arrives: as long
  as no \<open>Take\<close> asks for its id and the clock readings stay within \<open>maxAge\<close> of its sending time, no
  sequence of other operations drops or replaces it.
\<close>

theorem tracker_keeps_live:
  assumes "trackerInv t" "findPending t k = Some q" "TTake k \<notin> set ops"
    and "\<And>now p. TRegister now p \<in> set ops \<Longrightarrow> now - pSent q \<le> tMaxAge t"
  shows "fst (Take (foldl applyTracker t ops) k) = Some q"
proof -
  have "trackerInv (foldl applyTracker t ops) \<and> findPending (foldl applyTracker t ops) k = Some q \<and>
      tMaxAge (foldl applyTracker t ops) = tMaxAge t"
  proof (rule foldl_inv)
    fix t' op assume op: "op \<in> set ops" and t': "trackerInv t' \<and> findPending t' k = Some q \<and> tMaxAge t' = tMaxAge t"
    have "findPending (applyTracker t' op) k = Some q"
      by (cases op) (use op t' assms(3,4) Register_keeps [of t' k q] tracker.take_rest [of t'] in auto)
    then show "trackerInv (applyTracker t' op) \<and> findPending (applyTracker t' op) k = Some q \<and>
        tMaxAge (applyTracker t' op) = tMaxAge t"
      using t' op_params [of t' op] tracker_apply_inv [of t' op] by simp
  qed (use assms in simp)
  then show ?thesis by (simp add: tracker.take_result)
qed

theorem tracker_keeps_live_witness:
  "fst (Take (foldl applyTracker (snd (Register 10 (NewTracker 2 0) (samplePending 7 10)))
     [TRegister 20 (samplePending 8 20), TTake 8, TRegister 30 (samplePending 9 30)]) 7) = Some (samplePending 7 10)"
proof (rule tracker_keeps_live)
  show "trackerInv (snd (Register 10 (NewTracker 2 0) (samplePending 7 10)))"
    by (rule Register_inv [OF NewTracker_inv])
  show "findPending (snd (Register 10 (NewTracker 2 0) (samplePending 7 10))) 7 = Some (samplePending 7 10)"
    by code_simp
  fix now p assume "TRegister now p \<in> set [TRegister 20 (samplePending 8 20), TTake 8, TRegister 30 (samplePending 9 30)]"
  then have "now \<le> 30" by auto
  moreover have "tMaxAge (snd (Register 10 (NewTracker 2 0) (samplePending 7 10))) = 300000000000"
    by (simp add: Register_params NewTracker_def Let_def second_def)
  ultimately show "now - pSent (samplePending 7 10) \<le> tMaxAge (snd (Register 10 (NewTracker 2 0) (samplePending 7 10)))"
    by (simp add: samplePending_def)
qed simp

end
