(* ===== verification/GoStd.thy ===== *)
theory GoStd
  imports Prelude
begin

text \<open>
  The functions of Go's standard library on which packages topology and obs rest: \<open>strconv.Itoa\<close> and
  \<open>strconv.ParseInt\<close> in base 10, \<open>strings.TrimSpace\<close>, \<open>strings.Split\<close> by one byte,
  \<open>strings.ToLower\<close>, \<open>net.SplitHostPort\<close> and \<open>net.ParseIP\<close>; and the UTF-8 decoding of a \<open>range\<close> loop over
  a string, which the demonstration clients use.

  Strings are byte sequences.  \<open>TrimSpace\<close> knows the UTF-8 forms of the Unicode spaces;
  \<open>ToLower\<close> maps ASCII itself and leaves a string with bytes beyond ASCII to its argument, the
  Unicode tables of the library.
\<close>

section \<open>Numbers\<close>

definition digitChar :: "int \<Rightarrow> char" where
  "digitChar d = char_of (48 + d)"

function intDigits :: "int \<Rightarrow> string" where
  "intDigits n = (if n < 10 then [digitChar n] else intDigits (n div 10) @ [digitChar (n mod 10)])"
  by pat_completeness auto
termination
  by (relation "measure nat") auto

declare intDigits.simps [simp del]

definition Itoa :: "int \<Rightarrow> string" where
  "Itoa i = (if i < 0 then CHR ''-'' # intDigits (- i) else intDigits i)"

definition digitVal :: "char \<Rightarrow> int option" where
  "digitVal c = (let n = of_char c in if 48 \<le> n \<and> n \<le> (57 :: int) then Some (n - 48) else None)"

fun parseDigits :: "int \<Rightarrow> string \<Rightarrow> int option" where
  "parseDigits acc [] = Some acc"
| "parseDigits acc (c # cs) = (case digitVal c of None \<Rightarrow> None | Some d \<Rightarrow> parseDigits (acc * 10 + d) cs)"

text \<open>\<open>ParseInt(s, 10, 32)\<close>: None stands for a syntax or a range error.\<close>

definition ParseInt32 :: "string \<Rightarrow> int option" where
  "ParseInt32 s =
     (let neg = (s \<noteq> [] \<and> hd s = CHR ''-'');
          ds = (if s \<noteq> [] \<and> (hd s = CHR ''-'' \<or> hd s = CHR ''+'') then tl s else s)
      in if ds = [] then None
         else case parseDigits 0 ds of
                None \<Rightarrow> None
              | Some n \<Rightarrow> (let i = (if neg then - n else n)
                          in if - (2 ^ 31) \<le> i \<and> i < 2 ^ 31 then Some i else None))"

section \<open>Strings\<close>

definition isUpperA :: "char \<Rightarrow> bool" where
  "isUpperA c = (let n = of_char c in 65 \<le> n \<and> n \<le> (90 :: int))"

definition lowerA :: "char \<Rightarrow> char" where
  "lowerA c = (if isUpperA c then char_of (of_char c + 32 :: int) else c)"

definition ToLower :: "(string \<Rightarrow> string) \<Rightarrow> string \<Rightarrow> string" where
  "ToLower uni s = (if list_all (\<lambda>c. of_char c < (128 :: int)) s then map lowerA s else uni s)"

definition byteStr :: "int list \<Rightarrow> string" where
  "byteStr bs = map char_of bs"

text \<open>The white space of \<open>unicode.IsSpace\<close>: ASCII spaces, then the others in UTF-8.\<close>

definition spaceSeqs :: "string list" where
  "spaceSeqs = map byteStr
     ([[9], [10], [11], [12], [13], [32], [0xC2, 0x85], [0xC2, 0xA0], [0xE1, 0x9A, 0x80],
       [0xE2, 0x80, 0xA8], [0xE2, 0x80, 0xA9], [0xE2, 0x80, 0xAF], [0xE2, 0x81, 0x9F], [0xE3, 0x80, 0x80]]
      @ map (\<lambda>b. [0xE2, 0x80, b]) [0x80, 0x81, 0x82, 0x83, 0x84, 0x85, 0x86, 0x87, 0x88, 0x89, 0x8A])"

definition stripOne :: "string list \<Rightarrow> string \<Rightarrow> string option" where
  "stripOne seqs s = map_option (\<lambda>w. drop (length w) s) (find (\<lambda>w. take (length w) s = w \<and> w \<noteq> []) seqs)"

lemma stripOne_less: "stripOne seqs s = Some r \<Longrightarrow> length r < length s"
  by (auto simp: stripOne_def find_Some_iff) (metis diff_less length_drop length_greater_0_conv take_eq_Nil2)

function trimLeftSeqs :: "string list \<Rightarrow> string \<Rightarrow> string" where
  "trimLeftSeqs seqs s = (case stripOne seqs s of None \<Rightarrow> s | Some r \<Rightarrow> trimLeftSeqs seqs r)"
  by pat_completeness auto
termination
  by (relation "measure (\<lambda>(seqs, s). length s)") (auto intro: stripOne_less)

declare trimLeftSeqs.simps [simp del]

definition TrimSpace :: "string \<Rightarrow> string" where
  "TrimSpace s = rev (trimLeftSeqs (map rev spaceSeqs) (rev (trimLeftSeqs spaceSeqs s)))"

text \<open>\<open>strings.Split\<close> by a separator of one byte: one more part than separators.\<close>

fun SplitByte :: "char \<Rightarrow> string \<Rightarrow> string list" where
  "SplitByte sep [] = [[]]"
| "SplitByte sep (c # cs) =
     (if c = sep then [] # SplitByte sep cs
      else case SplitByte sep cs of p # ps \<Rightarrow> (c # p) # ps | [] \<Rightarrow> [[c]])"

section \<open>Network addresses\<close>

definition indexByte :: "string \<Rightarrow> char \<Rightarrow> nat option" where
  "indexByte s c = (let p = takeWhile (\<lambda>x. x \<noteq> c) s in if length p < length s then Some (length p) else None)"

definition lastIndexByte :: "string \<Rightarrow> char \<Rightarrow> nat option" where
  "lastIndexByte s c = map_option (\<lambda>i. length s - 1 - i) (indexByte (rev s) c)"

datatype addrErr = MissingPort | TooManyColons | MissingBracket | UnexpectedOpen | UnexpectedClose

definition SplitHostPort :: "string \<Rightarrow> addrErr + string \<times> string" where
  "SplitHostPort s =
     (case lastIndexByte s (CHR '':'') of
        None \<Rightarrow> Inl MissingPort
      | Some i \<Rightarrow>
          let rest = (\<lambda>host j k.
                if CHR ''['' \<in> set (drop j s) then Inl UnexpectedOpen
                else if CHR '']'' \<in> set (drop k s) then Inl UnexpectedClose
                else Inr (host, drop (i + 1) s))
          in if hd s = CHR ''['' then
               (case indexByte s (CHR '']'') of
                  None \<Rightarrow> Inl MissingBracket
                | Some cl \<Rightarrow>
                    if cl + 1 = length s then Inl MissingPort
                    else if cl + 1 = i then rest (take (cl - 1) (drop 1 s)) 1 (cl + 1)
                    else if s ! (cl + 1) = CHR '':'' then Inl TooManyColons
                    else Inl MissingPort)
             else if CHR '':'' \<in> set (take i s) then Inl TooManyColons
             else rest (take i s) 0 0)"

text \<open>
  \<open>net.ParseIP\<close> is \<open>netip.ParseAddr\<close> without a zone: the first of \<open>.\<close>, \<open>:\<close> and \<open>%\<close> in the string
  decides between IPv4, IPv6 and an error.  Addresses are 16 bytes, IPv4 ones mapped.
\<close>

text \<open>\<open>parseIPv4Fields\<close>: exactly four decimal fields up to 255, no leading zeros, no empty field.\<close>

definition ipv4Field :: "string \<Rightarrow> int option" where
  "ipv4Field f =
     (if f = [] \<or> length f > 1 \<and> hd f = CHR ''0'' then None
      else case parseDigits 0 f of Some n \<Rightarrow> (if n \<le> 255 then Some n else None) | None \<Rightarrow> None)"

definition parseIPv4 :: "string \<Rightarrow> int list option" where
  "parseIPv4 s =
     (let fs = map ipv4Field (SplitByte (CHR ''.'') s)
      in if length fs = 4 \<and> list_all (\<lambda>f. f \<noteq> None) fs then Some (map the fs) else None)"

definition hexVal :: "char \<Rightarrow> int option" where
  "hexVal c =
     (let n = of_char c in
      if 48 \<le> n \<and> n \<le> (57 :: int) then Some (n - 48)
      else if 97 \<le> n \<and> n \<le> 102 then Some (n - 97 + 10)
      else if 65 \<le> n \<and> n \<le> 70 then Some (n - 65 + 10)
      else None)"

definition isHex :: "char \<Rightarrow> bool" where
  "isHex c = (hexVal c \<noteq> None)"

definition hexNum :: "string \<Rightarrow> int" where
  "hexNum ds = foldl (\<lambda>acc c. acc * 16 + (case hexVal c of Some d \<Rightarrow> d | None \<Rightarrow> 0)) 0 ds"

text \<open>
  The loop over the colon-separated fields: \<open>n\<close> is the number of iterations left (eight fields
  fill the address), \<open>ip\<close> the bytes read so far, \<open>ell\<close> the position of the ellipsis.
\<close>

fun ipv6Loop :: "nat \<Rightarrow> int list \<Rightarrow> nat option \<Rightarrow> string \<Rightarrow> (int list \<times> nat option \<times> string) option" where
  "ipv6Loop 0 ip ell s = Some (ip, ell, s)"
| "ipv6Loop (Suc n) ip ell s =
     (let ds = takeWhile isHex s; r = dropWhile isHex s in
      if length ds > 4 \<or> ds = [] then None
      else if r \<noteq> [] \<and> hd r = CHR ''.'' then
        (if ell = None \<and> length ip \<noteq> 12 \<or> length ip + 4 > 16 then None
         else case parseIPv4 s of None \<Rightarrow> None | Some v4 \<Rightarrow> Some (ip @ v4, ell, []))
      else
        let ip1 = ip @ [hexNum ds div 256, hexNum ds mod 256] in
        if r = [] then Some (ip1, ell, [])
        else if hd r \<noteq> CHR '':'' \<or> length r = 1 then None
        else let r1 = tl r in
             if hd r1 = CHR '':'' then
               (if ell \<noteq> None then None
                else if tl r1 = [] then Some (ip1, Some (length ip1), [])
                else ipv6Loop n ip1 (Some (length ip1)) (tl r1))
             else ipv6Loop n ip1 ell r1)"

definition parseIPv6 :: "string \<Rightarrow> int list option" where
  "parseIPv6 s =
     (let lead = (length s \<ge> 2 \<and> s ! 0 = CHR '':'' \<and> s ! 1 = CHR '':''); s1 = (if lead then drop 2 s else s) in
      if lead \<and> s1 = [] then Some (replicate 16 0)
      else case ipv6Loop 8 [] (if lead then Some 0 else None) s1 of
             None \<Rightarrow> None
           | Some (ip, ell, r) \<Rightarrow>
               if r \<noteq> [] then None
               else if length ip < 16 then
                 (case ell of None \<Rightarrow> None
                  | Some e \<Rightarrow> Some (take e ip @ replicate (16 - length ip) 0 @ drop e ip))
               else if ell \<noteq> None then None else Some ip)"

definition ParseIP :: "string \<Rightarrow> int list option" where
  "ParseIP s =
     (case dropWhile (\<lambda>c. c \<noteq> CHR ''.'' \<and> c \<noteq> CHR '':'' \<and> c \<noteq> CHR ''%'') s of
        [] \<Rightarrow> None
      | c # _ \<Rightarrow>
          if c = CHR ''.'' then map_option (\<lambda>v4. replicate 10 0 @ [255, 255] @ v4) (parseIPv4 s)
          else if c = CHR '':'' then (if CHR ''%'' \<in> set s then None else parseIPv6 s)
          else None)"

text \<open>\<open>ip.To4() == nil\<close>: the address is not an IPv4-mapped one.\<close>

definition isIPv6 :: "string \<Rightarrow> bool" where
  "isIPv6 s = (case ParseIP s of None \<Rightarrow> False | Some ip \<Rightarrow> take 12 ip \<noteq> replicate 10 0 @ [255, 255])"

section \<open>UTF-8\<close>

text \<open>
  \<open>utf8.DecodeRuneInString\<close>, which a \<open>range\<close> over a string calls: the code point and its width.  What
  is not a valid encoding is the replacement character, one byte wide.
\<close>

definition byteIn :: "int \<Rightarrow> int \<Rightarrow> char \<Rightarrow> bool" where
  "byteIn lo hi c \<longleftrightarrow> lo \<le> of_char c \<and> of_char c \<le> hi"

definition RuneError :: int where "RuneError = 0xFFFD"

text \<open>The range of the second byte of a three-byte and of a four-byte sequence.\<close>

definition second3 :: "char \<Rightarrow> char \<Rightarrow> bool" where
  "second3 b0 = byteIn (if of_char b0 = (0xE0 :: int) then 0xA0 else 0x80) (if of_char b0 = (0xED :: int) then 0x9F else 0xBF)"

definition second4 :: "char \<Rightarrow> char \<Rightarrow> bool" where
  "second4 b0 = byteIn (if of_char b0 = (0xF0 :: int) then 0x90 else 0x80) (if of_char b0 = (0xF4 :: int) then 0x8F else 0xBF)"

definition validRune :: "string \<Rightarrow> (int \<times> nat) option" where
  "validRune s =
     (case s of
        [] \<Rightarrow> None
      | b0 # r \<Rightarrow>
          if byteIn 0 0x7F b0 then Some (of_char b0, 1)
          else if byteIn 0xC2 0xDF b0 \<and> length r \<ge> 1 \<and> byteIn 0x80 0xBF (r ! 0) then
            Some ((of_char b0 - 0xC0) * 64 + (of_char (r ! 0) - 0x80), 2)
          else if byteIn 0xE0 0xEF b0 \<and> length r \<ge> 2 \<and> second3 b0 (r ! 0) \<and> byteIn 0x80 0xBF (r ! 1) then
            Some ((of_char b0 - 0xE0) * 4096 + (of_char (r ! 0) - 0x80) * 64 + (of_char (r ! 1) - 0x80), 3)
          else if byteIn 0xF0 0xF4 b0 \<and> length r \<ge> 3 \<and> second4 b0 (r ! 0) \<and> byteIn 0x80 0xBF (r ! 1) \<and> byteIn 0x80 0xBF (r ! 2) then
            Some ((of_char b0 - 0xF0) * 262144 + (of_char (r ! 0) - 0x80) * 4096 + (of_char (r ! 1) - 0x80) * 64 +
              (of_char (r ! 2) - 0x80), 4)
          else None)"

definition DecodeRune :: "string \<Rightarrow> int \<times> nat" where
  "DecodeRune s = (case validRune s of Some rw \<Rightarrow> rw | None \<Rightarrow> (RuneError, 1))"

text \<open>The runes that a \<open>range\<close> loop visits, and \<open>string(c)\<close>.\<close>

fun runes :: "string \<Rightarrow> int list" where
  "runes [] = []"
| "runes (b # r) = (let (c, w) = DecodeRune (b # r) in c # runes (drop (w - 1) r))"

definition encodeRune :: "int \<Rightarrow> string" where
  "encodeRune c =
     (if 0 \<le> c \<and> c \<le> 0x7F then byteStr [c]
      else if 0 \<le> c \<and> c \<le> 0x7FF then byteStr [0xC0 + c div 64, 0x80 + c mod 64]
      else if c < 0 \<or> c > 0x10FFFF \<or> 0xD800 \<le> c \<and> c \<le> 0xDFFF then byteStr [0xEF, 0xBF, 0xBD]
      else if c \<le> 0xFFFF then byteStr [0xE0 + c div 4096, 0x80 + c div 64 mod 64, 0x80 + c mod 64]
      else byteStr [0xF0 + c div 262144, 0x80 + c div 4096 mod 64, 0x80 + c div 64 mod 64, 0x80 + c mod 64])"

fun validUTF8 :: "string \<Rightarrow> bool" where
  "validUTF8 [] \<longleftrightarrow> True"
| "validUTF8 (b # r) \<longleftrightarrow> (case validRune (b # r) of None \<Rightarrow> False | Some (c, w) \<Rightarrow> validUTF8 (drop (w - 1) r))"

section \<open>Lemmas\<close>

lemma digitVal_digitChar: "0 \<le> d \<Longrightarrow> d < 10 \<Longrightarrow> digitVal (digitChar d) = Some d"
  by (simp add: digitVal_def digitChar_def Let_def)

lemma parseDigits_append:
  "parseDigits acc (xs @ ys) = (case parseDigits acc xs of None \<Rightarrow> None | Some n \<Rightarrow> parseDigits n ys)"
  by (induction xs arbitrary: acc) (auto split: option.splits)

definition isDigit :: "char \<Rightarrow> bool" where
  "isDigit c = (digitVal c \<noteq> None)"

lemma isDigit_digitChar: "0 \<le> d \<Longrightarrow> d < 10 \<Longrightarrow> isDigit (digitChar d)"
  by (simp add: isDigit_def digitVal_digitChar)

lemma intDigits_ok:
  "0 \<le> n \<Longrightarrow> parseDigits 0 (intDigits n) = Some n \<and> intDigits n \<noteq> [] \<and> list_all isDigit (intDigits n)"
proof (induction n rule: intDigits.induct)
  case (1 n)
  show ?case
  proof (cases "n < 10")
    case True
    then show ?thesis using 1 by (subst (1 2 3) intDigits.simps) (simp add: digitVal_digitChar isDigit_digitChar)
  next
    case False
    then show ?thesis using 1
      by (subst (1 2 3) intDigits.simps) (simp add: parseDigits_append digitVal_digitChar isDigit_digitChar)
  qed
qed

text \<open>Printing a port and reading it back.\<close>

lemma ParseInt32_Itoa:
  assumes "0 \<le> i" "i < 2 ^ 31"
  shows "ParseInt32 (Itoa i) = Some i"
proof -
  note d = intDigits_ok [OF assms(1)]
  then have "isDigit (hd (intDigits i))" by (auto simp: list_all_iff)
  then have "hd (intDigits i) \<noteq> CHR ''-''" "hd (intDigits i) \<noteq> CHR ''+''"
    by (auto simp: isDigit_def digitVal_def)
  then show ?thesis using assms d by (simp add: ParseInt32_def Itoa_def Let_def)
qed

lemma takeWhile_break: "x \<notin> set xs \<Longrightarrow> takeWhile (\<lambda>y. y \<noteq> x) (xs @ x # ys) = xs"
  by (induction xs) auto

lemma indexByte_append: "c \<notin> set xs \<Longrightarrow> indexByte (xs @ c # ys) c = Some (length xs)"
  by (simp add: indexByte_def takeWhile_break Let_def)

lemma lastIndexByte_append: "c \<notin> set ys \<Longrightarrow> lastIndexByte (xs @ c # ys) c = Some (length xs)"
  by (simp add: lastIndexByte_def indexByte_append)

lemma Itoa_digits: "0 \<le> i \<Longrightarrow> Itoa i \<noteq> [] \<and> list_all isDigit (Itoa i)"
  using intDigits_ok by (simp add: Itoa_def)

lemma not_digit: "\<not> isDigit (CHR '':'')" "\<not> isDigit (CHR ''['')" "\<not> isDigit (CHR '']'')"
  by (simp_all add: isDigit_def digitVal_def)

lemma SplitHostPort_plain:
  assumes "CHR '':'' \<notin> set h" "CHR ''['' \<notin> set h" "CHR '']'' \<notin> set h" "list_all isDigit p"
  shows "SplitHostPort (h @ '':'' @ p) = Inr (h, p)"
proof -
  have p: "CHR '':'' \<notin> set p" "CHR ''['' \<notin> set p" "CHR '']'' \<notin> set p"
    using assms(4) not_digit by (auto simp: list_all_iff)
  have "lastIndexByte (h @ CHR '':'' # p) (CHR '':'') = Some (length h)" by (rule lastIndexByte_append [OF p(1)])
  moreover have "hd (h @ CHR '':'' # p) \<noteq> CHR ''[''" using assms(2) by (cases h) auto
  ultimately show ?thesis using assms p by (simp add: SplitHostPort_def Let_def)
qed

lemma SplitHostPort_bracketed:
  assumes "CHR ''['' \<notin> set h" "CHR '']'' \<notin> set h" "list_all isDigit p"
  shows "SplitHostPort (''['' @ h @ '']:'' @ p) = Inr (h, p)"
proof -
  have p: "CHR '':'' \<notin> set p" "CHR ''['' \<notin> set p" "CHR '']'' \<notin> set p"
    using assms(3) not_digit by (auto simp: list_all_iff)
  have "lastIndexByte ((CHR ''['' # h @ [CHR '']'']) @ CHR '':'' # p) (CHR '':'') = Some (length (CHR ''['' # h @ [CHR '']'']))"
    by (rule lastIndexByte_append [OF p(1)])
  moreover have "indexByte ((CHR ''['' # h) @ CHR '']'' # CHR '':'' # p) (CHR '']'') = Some (length (CHR ''['' # h))"
    using assms(2) by (intro indexByte_append) auto
  ultimately show ?thesis using assms p by (simp add: SplitHostPort_def Let_def)
qed

section \<open>Strings in UTF-8\<close>

lemma byteStr_of_chars: "byteStr (map of_char cs) = cs"
  by (simp add: byteStr_def comp_def)

lemma sextet:
  fixes q b :: int
  assumes "0x80 \<le> b" "b \<le> 0xBF"
  shows "(q * 64 + (b - 0x80)) div 64 = q" "(q * 64 + (b - 0x80)) mod 64 = b - 0x80"
proof -
  define x where "x = b - 0x80"
  have "0 \<le> x" "x < 64" using assms by (simp_all add: x_def)
  then show "(q * 64 + (b - 0x80)) div 64 = q" "(q * 64 + (b - 0x80)) mod 64 = b - 0x80"
    unfolding x_def [symmetric] by simp_all
qed

text \<open>The code point of a sequence determines its bytes.\<close>

lemma encode2:
  assumes "0xC2 \<le> a" "a \<le> 0xDF" "0x80 \<le> b" "b \<le> 0xBF"
  shows "encodeRune ((a - 0xC0) * 64 + (b - 0x80)) = byteStr [a, b]"
proof -
  let ?c = "(a - 0xC0) * 64 + (b - 0x80)"
  have "?c div 64 = a - 0xC0" "?c mod 64 = b - 0x80" using assms(3,4) by (rule sextet)+
  moreover have "0x80 \<le> ?c" "?c \<le> 0x7FF" using assms by simp_all
  ultimately show ?thesis by (simp add: encodeRune_def)
qed

lemma encodeRune_3:
  assumes "0x800 \<le> c" "c \<le> 0xFFFF" "c < 0xD800 \<or> 0xDFFF < c"
  shows "encodeRune c = byteStr [0xE0 + c div 64 div 64, 0x80 + c div 64 mod 64, 0x80 + c mod 64]"
  using assms zdiv_zmult2_eq [of 64 c 64] by (auto simp: encodeRune_def)

lemma encodeRune_4:
  assumes "0x10000 \<le> c" "c \<le> 0x10FFFF"
  shows "encodeRune c = byteStr [0xF0 + c div 64 div 64 div 64, 0x80 + c div 64 div 64 mod 64, 0x80 + c div 64 mod 64, 0x80 + c mod 64]"
proof -
  have "c div 4096 = c div 64 div 64" using zdiv_zmult2_eq [of 64 c 64] by simp
  moreover from this have "c div 262144 = c div 64 div 64 div 64" using zdiv_zmult2_eq [of 64 c 4096] by simp
  moreover have "\<not> c \<le> 0x7F" "\<not> c \<le> 0x7FF" "\<not> (c < 0 \<or> c > 0x10FFFF \<or> 0xD800 \<le> c \<and> c \<le> 0xDFFF)" "\<not> c \<le> 0xFFFF"
    using assms by auto
  ultimately show ?thesis by (simp only: encodeRune_def simp_thms if_False)
qed

lemma encode3:
  assumes "0xE0 \<le> a" "a \<le> 0xEF" "0x80 \<le> b" "b \<le> 0xBF" "a = 0xE0 \<longrightarrow> 0xA0 \<le> b" "a = 0xED \<longrightarrow> b \<le> 0x9F"
    "0x80 \<le> d" "d \<le> 0xBF"
  shows "encodeRune ((a - 0xE0) * 4096 + (b - 0x80) * 64 + (d - 0x80)) = byteStr [a, b, d]"
proof -
  let ?q = "(a - 0xE0) * 64 + (b - 0x80)"
  define c where "c = ?q * 64 + (d - 0x80)"
  have "c div 64 = ?q" "c mod 64 = d - 0x80" "?q div 64 = a - 0xE0" "?q mod 64 = b - 0x80"
    using sextet [OF assms(7,8), of ?q] sextet [OF assms(3,4), of "a - 0xE0"] by (simp_all only: c_def)
  moreover have "0x800 \<le> c" using assms by (cases "a = 0xE0") (simp_all add: c_def)
  moreover have "c \<le> 0xFFFF" using assms by (simp add: c_def)
  moreover have "a \<le> 0xEC \<or> a = 0xED \<or> 0xEE \<le> a" by linarith
  then have "c < 0xD800 \<or> 0xDFFF < c" using assms by (elim disjE) (simp_all add: c_def)
  ultimately have "encodeRune c = byteStr [a, b, d]" by (simp only: encodeRune_3) simp
  moreover have "(a - 0xE0) * 4096 + (b - 0x80) * 64 + (d - 0x80) = c" by (simp add: c_def)
  ultimately show ?thesis by (simp only:)
qed

lemma encode4:
  assumes "0xF0 \<le> a" "a \<le> 0xF4" "0x80 \<le> b" "b \<le> 0xBF" "a = 0xF0 \<longrightarrow> 0x90 \<le> b" "a = 0xF4 \<longrightarrow> b \<le> 0x8F"
    "0x80 \<le> d" "d \<le> 0xBF" "0x80 \<le> e" "e \<le> 0xBF"
  shows "encodeRune ((a - 0xF0) * 262144 + (b - 0x80) * 4096 + (d - 0x80) * 64 + (e - 0x80)) = byteStr [a, b, d, e]"
proof -
  let ?p = "(a - 0xF0) * 64 + (b - 0x80)"
  let ?q = "?p * 64 + (d - 0x80)"
  define c where "c = ?q * 64 + (e - 0x80)"
  have d: "c div 64 = ?q" "c mod 64 = e - 0x80" "?q div 64 = ?p" "?q mod 64 = d - 0x80" "?p div 64 = a - 0xF0" "?p mod 64 = b - 0x80"
    using sextet [OF assms(9,10), of ?q] sextet [OF assms(7,8), of ?p] sextet [OF assms(3,4), of "a - 0xF0"]
    by (simp_all only: c_def)
  have "0x10000 \<le> c" using assms by (cases "a = 0xF0") (simp_all add: c_def)
  moreover have "c \<le> 0x10FFFF" using assms by (cases "a = 0xF4") (simp_all add: c_def)
  ultimately have "encodeRune c = byteStr [a, b, d, e]" by (subst encodeRune_4) (simp_all only: d, simp)
  moreover have "(a - 0xF0) * 262144 + (b - 0x80) * 4096 + (d - 0x80) * 64 + (e - 0x80) = c" by (simp add: c_def)
  ultimately show ?thesis by (simp only:)
qed

lemma take_nths: "length r \<ge> 1 \<Longrightarrow> take 1 r = [r ! 0]" "length r \<ge> 2 \<Longrightarrow> take 2 r = [r ! 0, r ! 1]"
    "length r \<ge> 3 \<Longrightarrow> take 3 r = [r ! 0, r ! 1, r ! 2]"
  by (auto simp: neq_Nil_conv Suc_le_length_iff numeral_2_eq_2 numeral_3_eq_3)

lemma encode_valid:
  assumes "validRune s = Some (c, w)"
  shows "encodeRune c = take w s \<and> 1 \<le> w"
proof (cases s)
  case (Cons b r)
  have bytes: "byteStr [of_char b] = [b]" "byteStr [of_char b, of_char (r ! 0)] = [b, r ! 0]"
      "byteStr [of_char b, of_char (r ! 0), of_char (r ! 1)] = [b, r ! 0, r ! 1]"
      "byteStr [of_char b, of_char (r ! 0), of_char (r ! 1), of_char (r ! 2)] = [b, r ! 0, r ! 1, r ! 2]"
    by (simp_all add: byteStr_def)
  show ?thesis
    using assms bytes encode2 [of "of_char b" "of_char (r ! 0)"] encode3 [of "of_char b" "of_char (r ! 0)" "of_char (r ! 1)"]
      encode4 [of "of_char b" "of_char (r ! 0)" "of_char (r ! 1)" "of_char (r ! 2)"]
    unfolding Cons
    by (auto simp: validRune_def byteIn_def second3_def second4_def take_nths encodeRune_def [of "of_char b"] simp flip: One_nat_def split: if_splits)
qed (use assms in \<open>simp add: validRune_def\<close>)

lemma encode_runes: "validUTF8 s \<Longrightarrow> concat (map encodeRune (runes s)) = s"
proof (induction s rule: validUTF8.induct)
  case (2 b r)
  then obtain c w where v: "validRune (b # r) = Some (c, w)" "validUTF8 (drop (w - 1) r)"
    by (auto split: option.splits)
  then have "concat (map encodeRune (runes (drop (w - 1) r))) = drop (w - 1) r" using 2 by auto
  moreover have "encodeRune c = take w (b # r)" "1 \<le> w" using encode_valid [OF v(1)] by auto
  then have "encodeRune c @ drop (w - 1) r = b # r" by (cases w) auto
  ultimately show ?case using v(1) by (simp add: DecodeRune_def)
qed simp

section \<open>Trimming and splitting\<close>

definition graphic :: "char \<Rightarrow> bool" where
  "graphic c = byteIn 33 126 c"

lemma stripOne_graphic:
  assumes "\<forall>w\<in>set seqs. w \<noteq> [] \<longrightarrow> \<not> graphic (hd w)" "s \<noteq> [] \<longrightarrow> graphic (hd s)"
  shows "stripOne seqs s = None"
proof -
  have "\<not> (take (length w) s = w \<and> w \<noteq> [])" if "w \<in> set seqs" for w
  proof
    assume w: "take (length w) s = w \<and> w \<noteq> []"
    then have "s \<noteq> []" "hd w = hd s" by (auto, metis hd_append2 append_take_drop_id)
    then show False using w assms that by auto
  qed
  then have "find (\<lambda>w. take (length w) s = w \<and> w \<noteq> []) seqs = None" by (auto simp: find_None_iff)
  then show ?thesis by (simp add: stripOne_def)
qed

lemma spaces_not_graphic:
  "\<forall>w\<in>set spaceSeqs. w \<noteq> [] \<longrightarrow> \<not> graphic (hd w)" "\<forall>w\<in>set (map rev spaceSeqs). w \<noteq> [] \<longrightarrow> \<not> graphic (hd w)"
  by (simp_all add: spaceSeqs_def byteStr_def graphic_def byteIn_def)

lemma space_char: "CHR '' '' = char_of (n :: int) \<longleftrightarrow> n mod 256 = 32"
proof
  assume "n mod 256 = 32"
  then have "of_char (char_of n) = (of_char (CHR '' '') :: int)" by simp
  then show "CHR '' '' = char_of n" by (metis char_of_char)
next
  assume "CHR '' '' = char_of n"
  then have "of_char (char_of n) = (of_char (CHR '' '') :: int)" by simp
  then show "n mod 256 = 32" by simp
qed

lemma TrimSpace_graphic:
  assumes "list_all graphic s"
  shows "TrimSpace s = s" "TrimSpace (CHR '' '' # s) = s"
proof -
  have "s \<noteq> [] \<longrightarrow> graphic (hd s)" "rev s \<noteq> [] \<longrightarrow> graphic (hd (rev s))"
    using assms by (auto simp: list_all_iff hd_rev)
  then have trim: "trimLeftSeqs spaceSeqs s = s" "trimLeftSeqs (map rev spaceSeqs) (rev s) = rev s"
    using stripOne_graphic [OF spaces_not_graphic(1), of s] stripOne_graphic [OF spaces_not_graphic(2), of "rev s"]
    by (simp_all add: trimLeftSeqs.simps)
  then show "TrimSpace s = s" by (simp add: TrimSpace_def)
  have "stripOne spaceSeqs (CHR '' '' # s) = Some s"
    by (simp add: stripOne_def spaceSeqs_def byteStr_def space_char)
  then have "trimLeftSeqs spaceSeqs (CHR '' '' # s) = s" using trim(1) by (simp add: trimLeftSeqs.simps [of _ "CHR '' '' # s"])
  then show "TrimSpace (CHR '' '' # s) = s" using trim(2) by (simp add: TrimSpace_def)
qed

lemma isDigit_graphic: "isDigit c \<Longrightarrow> graphic c"
  by (auto simp: isDigit_def digitVal_def graphic_def byteIn_def Let_def split: if_splits)

lemma Itoa_graphic: "list_all graphic (Itoa i)"
proof -
  have "list_all isDigit (intDigits (if i < 0 then - i else i))" using intDigits_ok [of "if i < 0 then - i else i"] by simp
  then show ?thesis by (auto simp: Itoa_def list_all_iff isDigit_graphic) (simp add: graphic_def byteIn_def)
qed

lemma SplitByte_none: "c \<notin> set s \<Longrightarrow> SplitByte c s = [s]"
  by (induction s) auto

lemma SplitByte_append: "c \<notin> set s \<Longrightarrow> SplitByte c (s @ c # r) = s # SplitByte c r"
  by (induction s) auto

lemma SplitByte_not_Nil: "SplitByte c s \<noteq> []"
  by (cases s) (auto split: list.splits)

lemma SplitByte_glue:
  "SplitByte c (s @ r) = butlast (SplitByte c s) @ (last (SplitByte c s) @ hd (SplitByte c r)) # tl (SplitByte c r)"
proof (induction s)
  case Nil
  then show ?case by (simp add: SplitByte_not_Nil)
next
  case (Cons a s)
  then show ?case by (cases "SplitByte c s") (auto simp: SplitByte_not_Nil split: list.splits)
qed

end
