(* ===== verification/Topology.thy ===== *)
theory Topology
  imports GoStd GoMap MetadataCodec FindCoordinatorCodec
begin

text \<open>
  \<open>internal/topology\<close>: the mapping from real broker endpoints to the endpoints kproxy advertises
  (\<open>topology.go\<close>), and the rewriting of Metadata and FindCoordinator responses (\<open>rewriter.go\<close>).

  \<open>Add\<close> mutates the mapping and may then fail, so it returns the error beside the mapping.  A nil
  \<open>*Mapping\<close> is \<open>None\<close>.  The argument \<open>uni\<close> is what \<open>strings.ToLower\<close> does beyond ASCII.
\<close>

section \<open>Mappings\<close>

record Endpoint =
  epHost :: string
  epPort :: int32

definition String :: "Endpoint \<Rightarrow> string" where
  "String e =
     (if isIPv6 (epHost e) then ''['' @ epHost e @ '']:'' @ Itoa (sint (epPort e))
      else epHost e @ '':'' @ Itoa (sint (epPort e)))"

record Mapping =
  byNodeID :: "(int32, Endpoint) gomap"
  byHostPt :: "(string, Endpoint) gomap"

definition NewMapping :: Mapping where
  "NewMapping = \<lparr>byNodeID = [], byHostPt = []\<rparr>"

datatype topoErr =
    InvalidReal Endpoint | InvalidAdvertised Endpoint | NodeConflict int32 | HostConflict string
  | BadEntry string | BadNodeID string | BadRealEndpoint string | BadAdvertisedEndpoint string

definition Add_mapping :: "Mapping \<Rightarrow> int32 \<Rightarrow> Endpoint \<Rightarrow> Endpoint \<Rightarrow> topoErr option \<times> Mapping" where
  "Add_mapping m nodeID realEP advertised =
     (if epHost realEP = '''' \<or> sint (epPort realEP) \<le> 0 then (Some (InvalidReal realEP), m)
      else if epHost advertised = '''' \<or> sint (epPort advertised) \<le> 0 then (Some (InvalidAdvertised advertised), m)
      else if sint nodeID \<ge> 0 \<and> (case mget (byNodeID m) nodeID of Some ex \<Rightarrow> ex \<noteq> advertised | None \<Rightarrow> False)
        then (Some (NodeConflict nodeID), m)
      else
        let m1 = (if sint nodeID \<ge> 0 then m\<lparr>byNodeID := mput nodeID advertised (byNodeID m)\<rparr> else m);
            key = String realEP
        in if (case mget (byHostPt m1) key of Some ex \<Rightarrow> ex \<noteq> advertised | None \<Rightarrow> False)
           then (Some (HostConflict key), m1)
           else (None, m1\<lparr>byHostPt := mput key advertised (byHostPt m1)\<rparr>))"

definition Lookup :: "(string \<Rightarrow> string) \<Rightarrow> Mapping option \<Rightarrow> int32 \<Rightarrow> string \<Rightarrow> int32 \<Rightarrow> Endpoint option" where
  "Lookup uni m nodeID host port =
     (case m of None \<Rightarrow> None
      | Some m \<Rightarrow>
          (case (if sint nodeID \<ge> 0 then mget (byNodeID m) nodeID else None) of
             Some e \<Rightarrow> Some e
           | None \<Rightarrow> mget (byHostPt m) (String \<lparr>epHost = ToLower uni host, epPort = port\<rparr>)))"

definition Len_mapping :: "Mapping option \<Rightarrow> nat" where
  "Len_mapping m = (case m of None \<Rightarrow> 0 | Some m \<Rightarrow> length (byNodeID m))"

section \<open>Parsing\<close>

datatype epErr = EmptyEndpoint | Addr addrErr | BadPort | PortOutOfRange int

definition parseEndpoint :: "string \<Rightarrow> epErr + Endpoint" where
  "parseEndpoint s =
     (if s = '''' then Inl EmptyEndpoint
      else case SplitHostPort s of
             Inl e \<Rightarrow> Inl (Addr e)
           | Inr (host, portStr) \<Rightarrow>
               (case ParseInt32 portStr of
                  None \<Rightarrow> Inl BadPort
                | Some port \<Rightarrow>
                    if port \<le> 0 \<or> port > 65535 then Inl (PortOutOfRange port)
                    else Inr \<lparr>epHost = host, epPort = of_int port\<rparr>))"

text \<open>One entry \<open>nodeID=real=advertised\<close> of the flag, already trimmed and not empty.\<close>

definition parseEntry :: "Mapping \<Rightarrow> string \<Rightarrow> topoErr + Mapping" where
  "parseEntry m part =
     (case SplitByte (CHR ''='') part of
        [f0, f1, f2] \<Rightarrow>
          (case ParseInt32 (TrimSpace f0) of
             None \<Rightarrow> Inl (BadNodeID part)
           | Some nid \<Rightarrow>
               (case parseEndpoint (TrimSpace f1) of
                  Inl _ \<Rightarrow> Inl (BadRealEndpoint part)
                | Inr realEP \<Rightarrow>
                    (case parseEndpoint (TrimSpace f2) of
                       Inl _ \<Rightarrow> Inl (BadAdvertisedEndpoint part)
                     | Inr adv \<Rightarrow>
                         (case Add_mapping m (of_int nid) realEP adv of
                            (Some e, _) \<Rightarrow> Inl e
                          | (None, m') \<Rightarrow> Inr m'))))
      | _ \<Rightarrow> Inl (BadEntry part))"

fun parseEntries :: "Mapping \<Rightarrow> string list \<Rightarrow> topoErr + Mapping" where
  "parseEntries m [] = Inr m"
| "parseEntries m (raw # raws) =
     (let part = TrimSpace raw in
      if part = '''' then parseEntries m raws
      else case parseEntry m part of Inl e \<Rightarrow> Inl e | Inr m' \<Rightarrow> parseEntries m' raws)"

definition ParseFlag :: "string \<Rightarrow> topoErr + Mapping" where
  "ParseFlag spec =
     (if TrimSpace spec = '''' then Inr NewMapping else parseEntries NewMapping (SplitByte (CHR '','') spec))"

text \<open>
  \<open>LoadFile\<close> behind the file and the JSON decoder: the loop over the decoded entries.
\<close>

record FileEntry =
  feNode :: int32
  feReal :: string
  feAdvertised :: string

fun loadEntries :: "Mapping \<Rightarrow> FileEntry list \<Rightarrow> topoErr + Mapping" where
  "loadEntries m [] = Inr m"
| "loadEntries m (e # es) =
     (case parseEndpoint (feReal e) of
        Inl _ \<Rightarrow> Inl (BadRealEndpoint (feReal e))
      | Inr realEP \<Rightarrow>
          (case parseEndpoint (feAdvertised e) of
             Inl _ \<Rightarrow> Inl (BadAdvertisedEndpoint (feAdvertised e))
           | Inr adv \<Rightarrow>
               (case Add_mapping m (feNode e) realEP adv of
                  (Some err, _) \<Rightarrow> Inl err
                | (None, m') \<Rightarrow> loadEntries m' es)))"

text \<open>
  \<open>LoadFile\<close>: the file (its bytes, or the failure to open or read it), the outcome of closing it and
  the JSON decoder are arguments.
\<close>

datatype loadErr = FileUnreadable | FileTooLarge | BadJSON | BadEntry topoErr | CloseFailed

definition maxTopologyBytes :: nat where "maxTopologyBytes = 2 ^ 20"

definition LoadFile ::
  "(string \<Rightarrow> bytes option) \<Rightarrow> (string \<Rightarrow> bool) \<Rightarrow> (bytes \<Rightarrow> FileEntry list option) \<Rightarrow> string \<Rightarrow> loadErr + Mapping" where
  "LoadFile readFile closes unmarshal path =
     (case readFile path of
        None \<Rightarrow> Inl FileUnreadable
      | Some content \<Rightarrow>
          let b = take (maxTopologyBytes + 1) content in
          if length b > maxTopologyBytes then Inl FileTooLarge
          else case unmarshal b of
                 None \<Rightarrow> Inl BadJSON
               | Some entries \<Rightarrow>
                   (case loadEntries NewMapping entries of
                      Inl e \<Rightarrow> Inl (BadEntry e)
                    | Inr m \<Rightarrow> if closes path then Inr m else Inl CloseFailed))"

section \<open>Rewriting\<close>

definition rewriteBroker :: "(string \<Rightarrow> string) \<Rightarrow> Mapping \<Rightarrow> MetadataBroker \<Rightarrow> MetadataBroker" where
  "rewriteBroker uni m b =
     (case Lookup uni (Some m) (mbNodeID b) (mbHost b) (mbPort b) of
        Some e \<Rightarrow> b\<lparr>mbHost := epHost e, mbPort := epPort e\<rparr>
      | None \<Rightarrow> b)"

definition brokerMapped :: "(string \<Rightarrow> string) \<Rightarrow> Mapping \<Rightarrow> MetadataBroker \<Rightarrow> bool" where
  "brokerMapped uni m b = (Lookup uni (Some m) (mbNodeID b) (mbHost b) (mbPort b) \<noteq> None)"

definition RewriteMetadataResponse ::
  "(string \<Rightarrow> string) \<Rightarrow> MetadataResponse \<Rightarrow> Mapping option \<Rightarrow> nat \<times> MetadataResponse" where
  "RewriteMetadataResponse uni r m =
     (case m of None \<Rightarrow> (0, r)
      | Some m \<Rightarrow> (length (filter (brokerMapped uni m) (mrBrokers r)),
                   r\<lparr>mrBrokers := map (rewriteBroker uni m) (mrBrokers r)\<rparr>))"

definition entryMapped :: "(string \<Rightarrow> string) \<Rightarrow> Mapping \<Rightarrow> FindCoordinatorEntry \<Rightarrow> bool" where
  "entryMapped uni m c =
     (\<not> (feHost c = '''' \<or> sint (fePort c) \<le> 0) \<and> Lookup uni (Some m) (feNodeID c) (feHost c) (fePort c) \<noteq> None)"

definition rewriteEntry :: "(string \<Rightarrow> string) \<Rightarrow> Mapping \<Rightarrow> FindCoordinatorEntry \<Rightarrow> FindCoordinatorEntry" where
  "rewriteEntry uni m c =
     (if feHost c = '''' \<or> sint (fePort c) \<le> 0 then c
      else case Lookup uni (Some m) (feNodeID c) (feHost c) (fePort c) of
             Some e \<Rightarrow> c\<lparr>feHost := epHost e, fePort := epPort e\<rparr>
           | None \<Rightarrow> c)"

definition RewriteFindCoordinatorResponse ::
  "(string \<Rightarrow> string) \<Rightarrow> FindCoordinatorResponse \<Rightarrow> Mapping option \<Rightarrow> nat \<times> FindCoordinatorResponse" where
  "RewriteFindCoordinatorResponse uni r m =
     (case m of None \<Rightarrow> (0, r)
      | Some m \<Rightarrow>
          if sint (fcVersion r) \<le> 3 then
            (if fcHost r \<noteq> '''' \<and> sint (fcPort r) > 0 then
               (case Lookup uni (Some m) (fcNodeID r) (fcHost r) (fcPort r) of
                  Some e \<Rightarrow> (1, r\<lparr>fcHost := epHost e, fcPort := epPort e\<rparr>)
                | None \<Rightarrow> (0, r))
             else (0, r))
          else (length (filter (entryMapped uni m) (fcCoordinators r)),
                r\<lparr>fcCoordinators := map (rewriteEntry uni m) (fcCoordinators r)\<rparr>))"

section \<open>Lemmas\<close>

definition validEndpoint :: "Endpoint \<Rightarrow> bool" where
  "validEndpoint e \<longleftrightarrow> epHost e \<noteq> '''' \<and> 0 < sint (epPort e)"

definition mappingInv :: "Mapping \<Rightarrow> bool" where
  "mappingInv m \<longleftrightarrow> wfmap (byNodeID m) \<and> wfmap (byHostPt m) \<and>
     (\<forall>n e. mget (byNodeID m) n = Some e \<longrightarrow> validEndpoint e \<and> 0 \<le> sint n) \<and>
     (\<forall>k e. mget (byHostPt m) k = Some e \<longrightarrow> validEndpoint e)"

lemma mappingInv_new: "mappingInv NewMapping"
  by (simp add: mappingInv_def NewMapping_def)

lemma mappingInv_Add: "mappingInv m \<Longrightarrow> mappingInv (snd (Add_mapping m n real adv))"
  by (auto simp: mappingInv_def Add_mapping_def Let_def validEndpoint_def split: option.splits if_splits)

lemma Add_node:
  "fst (Add_mapping m n real adv) = None \<Longrightarrow>
   mget (byNodeID (snd (Add_mapping m n real adv))) k = (if k = n \<and> 0 \<le> sint n then Some adv else mget (byNodeID m) k)"
  by (auto simp: Add_mapping_def Let_def split: if_splits option.splits)

lemma Add_host:
  "fst (Add_mapping m n real adv) = None \<Longrightarrow>
   mget (byHostPt (snd (Add_mapping m n real adv))) k = (if k = String real then Some adv else mget (byHostPt m) k)"
  by (auto simp: Add_mapping_def Let_def split: if_splits option.splits)

lemma Add_stable_node:
  "mget (byNodeID m) k = Some e \<Longrightarrow> mget (byNodeID (snd (Add_mapping m n real adv))) k = Some e"
  by (auto simp: Add_mapping_def Let_def split: option.splits)

lemma Add_stable_host:
  "mget (byHostPt m) k = Some e \<Longrightarrow> mget (byHostPt (snd (Add_mapping m n real adv))) k = Some e"
  by (auto simp: Add_mapping_def Let_def split: option.splits)

lemma Lookup_valid:
  "mappingInv m \<Longrightarrow> Lookup uni (Some m) n h p = Some e \<Longrightarrow> validEndpoint e"
  by (auto simp: Lookup_def mappingInv_def split: option.splits if_splits)

text \<open>What a successful load does to the mapping: every entry was added.\<close>

lemma parseEntry_Add:
  "parseEntry m part = Inr m' \<Longrightarrow> \<exists>n real adv. Add_mapping m n real adv = (None, m')"
  by (auto simp: parseEntry_def split: list.splits option.splits sum.splits prod.splits)

lemma parseEntries_inv: "mappingInv m \<Longrightarrow> parseEntries m raws = Inr m' \<Longrightarrow> mappingInv m'"
proof (induction raws arbitrary: m)
  case (Cons raw raws)
  show ?case
  proof (cases "TrimSpace raw = ''''")
    case True
    then show ?thesis using Cons by simp
  next
    case False
    with Cons.prems obtain m1 where m1: "parseEntry m (TrimSpace raw) = Inr m1" "parseEntries m1 raws = Inr m'"
      by (auto split: sum.splits)
    from parseEntry_Add [OF m1(1)] have "mappingInv m1"
      using mappingInv_Add [OF Cons.prems(1)] by (metis snd_conv)
    then show ?thesis using Cons.IH m1(2) by blast
  qed
qed simp

lemma ParseFlag_inv: "ParseFlag spec = Inr m \<Longrightarrow> mappingInv m"
  by (auto simp: ParseFlag_def mappingInv_new split: if_splits intro: parseEntries_inv [OF mappingInv_new])

lemma loadEntries_inv: "mappingInv m \<Longrightarrow> loadEntries m es = Inr m' \<Longrightarrow> mappingInv m'"
proof (induction es arbitrary: m)
  case (Cons e es)
  from Cons.prems(2) obtain real adv m1 where "Add_mapping m (feNode e) real adv = (None, m1)" "loadEntries m1 es = Inr m'"
    by (auto split: sum.splits prod.splits option.splits)
  then show ?case using Cons.IH mappingInv_Add [OF Cons.prems(1), of "feNode e" real adv] by simp
qed simp

lemma endpoint_eta: "\<lparr>epHost = epHost e, epPort = epPort e\<rparr> = (e :: Endpoint)"
  by simp

section \<open>Properties\<close>

text \<open>
  Parsing the printed form of an endpoint gives the endpoint back, for host names, IPv4 and
  IPv6 addresses (which are printed in brackets) and every valid port.
\<close>

theorem endpoint_roundtrip:
  assumes "1 \<le> sint (epPort e)" "sint (epPort e) \<le> 65535"
    and "CHR ''['' \<notin> set (epHost e)" "CHR '']'' \<notin> set (epHost e)"
    and "CHR '':'' \<in> set (epHost e) \<longrightarrow> isIPv6 (epHost e)"
  shows "parseEndpoint (String e) = Inr e"
proof -
  let ?p = "Itoa (sint (epPort e))"
  have d: "list_all isDigit ?p" using Itoa_digits assms(1) by simp
  have split: "SplitHostPort (String e) = Inr (epHost e, ?p)"
    using SplitHostPort_plain [of "epHost e" ?p] SplitHostPort_bracketed [of "epHost e" ?p] assms d
    by (auto simp: String_def)
  have "ParseInt32 ?p = Some (sint (epPort e))" using assms by (intro ParseInt32_Itoa) auto
  moreover have "String e \<noteq> ''''" by (simp add: String_def)
  ultimately show ?thesis using split assms(1,2) by (simp add: parseEndpoint_def)
qed

theorem endpoint_roundtrip_witness:
  "String \<lparr>epHost = ''::1'', epPort = 9092\<rparr> = ''[::1]:9092'' \<and>
   parseEndpoint ''[::1]:9092'' = Inr \<lparr>epHost = ''::1'', epPort = 9092\<rparr>"
proof -
  have v6: "isIPv6 ''::1''" by code_simp
  have s: "String \<lparr>epHost = ''::1'', epPort = 9092\<rparr> = ''[::1]:9092''" by code_simp
  have "parseEndpoint (String \<lparr>epHost = ''::1'', epPort = 9092\<rparr>) = Inr \<lparr>epHost = ''::1'', epPort = 9092\<rparr>"
    by (rule endpoint_roundtrip) (use v6 in simp_all)
  then show ?thesis by (simp add: s)
qed

text \<open>
  A successful \<open>Add\<close> makes the node id resolve to the advertised endpoint wherever the broker
  claims to be, makes the real endpoint resolve to it when the node id is unknown and the host is
  in lower case, and changes no other node id; an \<open>Add\<close> that fails never changes what was mapped
  before.
\<close>

theorem add_then_lookup:
  assumes "Add_mapping m n real adv = (err, m')"
  shows "(err = None \<longrightarrow> 0 \<le> sint n \<longrightarrow> Lookup uni (Some m') n h p = Some adv) \<and>
    (err = None \<longrightarrow> ToLower uni (epHost real) = epHost real \<longrightarrow>
       Lookup uni (Some m') (-1) (epHost real) (epPort real) = Some adv) \<and>
    (k \<noteq> n \<longrightarrow> mget (byNodeID m') k = mget (byNodeID m) k) \<and>
    (mget (byNodeID m) k = Some e \<longrightarrow> mget (byNodeID m') k = Some e) \<and>
    (mget (byHostPt m) hp = Some e \<longrightarrow> mget (byHostPt m') hp = Some e)"
proof -
  have m': "m' = snd (Add_mapping m n real adv)" and err: "err = fst (Add_mapping m n real adv)"
    using assms by simp_all
  have "mget (byNodeID m') k = mget (byNodeID m) k" if "k \<noteq> n"
    using that unfolding m' by (auto simp: Add_mapping_def Let_def)
  then show ?thesis
    using Add_node [of m n real adv] Add_host [of m n real adv] Add_stable_node [of m k e n real adv]
      Add_stable_host [of m hp e n real adv]
    by (auto simp: m' err Lookup_def endpoint_eta split: option.splits)
qed

theorem add_then_lookup_witness:
  "\<exists>m'. Add_mapping NewMapping 1 \<lparr>epHost = ''k1'', epPort = 9092\<rparr> \<lparr>epHost = ''px'', epPort = 19092\<rparr> = (None, m') \<and>
     Lookup (\<lambda>s. s) (Some m') 1 ''elsewhere'' 1 = Some \<lparr>epHost = ''px'', epPort = 19092\<rparr>"
proof -
  let ?real = "\<lparr>epHost = ''k1'', epPort = 9092\<rparr>" and ?adv = "\<lparr>epHost = ''px'', epPort = 19092\<rparr>"
  obtain err m' where a: "Add_mapping NewMapping 1 ?real ?adv = (err, m')" by fastforce
  have "fst (Add_mapping NewMapping 1 ?real ?adv) = None" by code_simp
  with a have "err = None" by simp
  then show ?thesis using a add_then_lookup [OF a, of "\<lambda>s. s" "''elsewhere''" 1] by auto
qed

text \<open>
  A mapping loaded from the flag or from a file maps only to valid endpoints (a host and a
  positive port), so a rewritten response never advertises an empty host or a port that is not
  positive.
\<close>

theorem loaded_mapping_valid:
  assumes "ParseFlag spec = Inr m \<or> loadEntries NewMapping es = Inr m" and "Lookup uni (Some m) n h p = Some e"
  shows "epHost e \<noteq> '''' \<and> 0 < sint (epPort e)"
  using assms ParseFlag_inv loadEntries_inv [OF mappingInv_new] Lookup_valid validEndpoint_def by metis

theorem loaded_mapping_valid_witness:
  "\<exists>m. ParseFlag '' 1 = k1:9092 = px:19092 , 2=k2:9092=px:19093,'' = Inr m \<and>
     Lookup (\<lambda>s. s) (Some m) 2 ''?'' 0 = Some \<lparr>epHost = ''px'', epPort = 19093\<rparr> \<and> 0 < sint (19093 :: int32)"
proof -
  let ?m = "\<lparr>byNodeID = [(1, \<lparr>epHost = ''px'', epPort = 19092\<rparr>), (2, \<lparr>epHost = ''px'', epPort = 19093\<rparr>)],
    byHostPt = [(''k1:9092'', \<lparr>epHost = ''px'', epPort = 19092\<rparr>), (''k2:9092'', \<lparr>epHost = ''px'', epPort = 19093\<rparr>)]\<rparr>"
  have p: "ParseFlag '' 1 = k1:9092 = px:19092 , 2=k2:9092=px:19093,'' = Inr ?m" by code_simp
  have l: "Lookup (\<lambda>s. s) (Some ?m) 2 ''?'' 0 = Some \<lparr>epHost = ''px'', epPort = 19093\<rparr>" by code_simp
  from loaded_mapping_valid [OF disjI1 [OF p] l] have "0 < sint (19093 :: int32)" by simp
  with p l show ?thesis by blast
qed

text \<open>
  A real endpoint with a capital letter in its host is stored as written, but \<open>Lookup\<close> asks for the
  lower-case form, so the host and port fallback never finds it.
\<close>

theorem uppercase_host_never_matches:
  "fst (Add_mapping NewMapping (-1) \<lparr>epHost = ''Kafka-1'', epPort = 9092\<rparr> \<lparr>epHost = ''px'', epPort = 19092\<rparr>) = None \<and>
   Lookup (\<lambda>s. s) (Some (snd (Add_mapping NewMapping (-1) \<lparr>epHost = ''Kafka-1'', epPort = 9092\<rparr>
     \<lparr>epHost = ''px'', epPort = 19092\<rparr>))) (-1) ''Kafka-1'' 9092 = None"
  by code_simp

end
