(* ===== verification/Metrics.thy ===== *)
theory Metrics
  imports GoStd
begin

text \<open>
  \<open>internal/obs/metrics.go\<close>: the counters and gauges of the proxy.  Every field is an
  \<open>atomic.Int64\<close>, so an increment wraps at 64 bits; the rendering of the two values in seconds is a
  parameter of \<open>PromText\<close>.
\<close>

section \<open>Counters\<close>

record Metrics =
  FramesClientToBroker :: int64
  FramesBrokerToClient :: int64
  InterceptsTotal :: int64
  InterceptsRewrote :: int64
  InterceptsPassthru :: int64
  InterceptsTimeout :: int64
  InterceptsError :: int64
  UnmappedBrokers :: int64
  TrackerDropped :: int64
  PlanDurationNanosSum :: int64
  PlanCount :: int64
  Panics :: int64
  MetadataRefreshErrors :: int64
  ConnActive :: int64
  TelemetryAgeNS :: int64
  SubscriptionLen :: int64

definition NewMetrics :: Metrics where
  "NewMetrics = \<lparr>FramesClientToBroker = 0, FramesBrokerToClient = 0, InterceptsTotal = 0,
     InterceptsRewrote = 0, InterceptsPassthru = 0, InterceptsTimeout = 0, InterceptsError = 0,
     UnmappedBrokers = 0, TrackerDropped = 0, PlanDurationNanosSum = 0, PlanCount = 0, Panics = 0,
     MetadataRefreshErrors = 0, ConnActive = 0, TelemetryAgeNS = 0, SubscriptionLen = 0\<rparr>"

definition IncClientToBroker :: "Metrics \<Rightarrow> Metrics" where
  "IncClientToBroker m = m\<lparr>FramesClientToBroker := FramesClientToBroker m + 1\<rparr>"

definition IncBrokerToClient :: "Metrics \<Rightarrow> Metrics" where
  "IncBrokerToClient m = m\<lparr>FramesBrokerToClient := FramesBrokerToClient m + 1\<rparr>"

definition IncTrackerDropped :: "Metrics \<Rightarrow> Metrics" where
  "IncTrackerDropped m = m\<lparr>TrackerDropped := TrackerDropped m + 1\<rparr>"

text \<open>The map that \<open>New\<close> publishes as an \<open>expvar\<close>.\<close>

definition expvarMap :: "Metrics \<Rightarrow> (string \<times> int64) list" where
  "expvarMap m =
     [(''frames_client_to_broker'', FramesClientToBroker m), (''frames_broker_to_client'', FramesBrokerToClient m),
      (''intercepts_total'', InterceptsTotal m), (''intercepts_rewrote'', InterceptsRewrote m),
      (''intercepts_passthrough'', InterceptsPassthru m), (''intercepts_timeout'', InterceptsTimeout m),
      (''intercepts_error'', InterceptsError m), (''unmapped_brokers'', UnmappedBrokers m),
      (''tracker_dropped'', TrackerDropped m), (''plan_duration_nanos_total'', PlanDurationNanosSum m),
      (''plan_count'', PlanCount m), (''conn_active'', ConnActive m), (''telemetry_age_nanos'', TelemetryAgeNS m),
      (''subscription_len'', SubscriptionLen m), (''panics'', Panics m), (''metadata_refresh_errors'', MetadataRefreshErrors m)]"

text \<open>Two records of metrics that publish the same map are equal: nothing that is counted is left out.\<close>

lemma expvarMap_inj: "expvarMap m = expvarMap m' \<Longrightarrow> m = m'"
  by (cases m; cases m') (simp add: expvarMap_def)

section \<open>Prometheus text\<close>

definition newline :: char where "newline = char_of (10::nat)"

definition quote :: char where "quote = char_of (34::nat)"

definition appendSimple :: "string \<Rightarrow> string \<Rightarrow> int64 \<Rightarrow> string" where
  "appendSimple dst name v = dst @ name @ '' '' @ Itoa (sint v) @ [newline]"

definition appendCounter :: "string \<Rightarrow> string \<Rightarrow> string \<Rightarrow> string \<Rightarrow> int64 \<Rightarrow> string" where
  "appendCounter dst name label value v =
     dst @ name @ ''{'' @ label @ ''='' @ [quote] @ value @ [quote] @ ''} '' @ Itoa (sint v) @ [newline]"

definition appendFloat :: "(int64 \<Rightarrow> string) \<Rightarrow> string \<Rightarrow> string \<Rightarrow> int64 \<Rightarrow> string" where
  "appendFloat seconds dst name nanos = dst @ name @ '' '' @ seconds nanos @ [newline]"

definition PromText :: "(int64 \<Rightarrow> string) \<Rightarrow> Metrics \<Rightarrow> string" where
  "PromText seconds m =
     (let b = appendCounter [] ''kproxy_frames_total'' ''direction'' ''client_to_broker'' (FramesClientToBroker m);
          b = appendCounter b ''kproxy_frames_total'' ''direction'' ''broker_to_client'' (FramesBrokerToClient m);
          b = appendCounter b ''kproxy_intercepts_total'' ''outcome'' ''any'' (InterceptsTotal m);
          b = appendCounter b ''kproxy_intercepts_total'' ''outcome'' ''rewrote'' (InterceptsRewrote m);
          b = appendCounter b ''kproxy_intercepts_total'' ''outcome'' ''passthrough'' (InterceptsPassthru m);
          b = appendCounter b ''kproxy_intercepts_total'' ''outcome'' ''timeout'' (InterceptsTimeout m);
          b = appendCounter b ''kproxy_intercepts_total'' ''outcome'' ''error'' (InterceptsError m);
          b = appendSimple b ''kproxy_unmapped_brokers_total'' (UnmappedBrokers m);
          b = appendSimple b ''kproxy_tracker_dropped_total'' (TrackerDropped m);
          b = appendSimple b ''kproxy_plan_count_total'' (PlanCount m);
          b = appendFloat seconds b ''kproxy_plan_duration_seconds_sum'' (PlanDurationNanosSum m);
          b = appendSimple b ''kproxy_conn_active'' (ConnActive m);
          b = appendFloat seconds b ''kproxy_telemetry_age_seconds'' (TelemetryAgeNS m);
          b = appendSimple b ''kproxy_subscription_len'' (SubscriptionLen m);
          b = appendSimple b ''kproxy_panics_total'' (Panics m);
          b = appendSimple b ''kproxy_metadata_refresh_errors_total'' (MetadataRefreshErrors m)
      in b)"

end
