(* ===== verification/ProxyConn.thy ===== *)
theory ProxyConn
  imports Tracker Frame Headers Metrics
begin

text \<open>
  \<open>internal/proxy/conn.go\<close> and \<open>intercept.go\<close>: one proxied connection.  The upstream pump reads
  request frames from the client, asks the interceptor and forwards them to the broker; the
  downstream pump reads response frames from the broker, has those of registered requests
  rewritten and forwards them to the client.

  The interceptor is what the two pumps call of it, the record \<open>Hooks\<close>; its state is of a type
  parameter.  One iteration of a pump is one step: it accesses what it shares with the other pump,
  the tracker, once (\<open>Register\<close>, \<open>Take\<close>), under the tracker's lock; everything else it touches, its
  reader, its writer and its buffers, belongs to it alone.  The scratch buffers that the source
  reuses between iterations carry no information and are not in the state.
\<close>

section \<open>The interceptor interface\<close>

record ('i, 'f) Hooks =
  hkOnRequest :: "RequestHeader \<Rightarrow> bytes \<Rightarrow> 'i \<Rightarrow> 'f Pending option \<times> 'i"
  hkRewrite :: "'i \<Rightarrow> 'f \<Rightarrow> bytes \<Rightarrow> bytes \<Rightarrow> 'f Pending \<Rightarrow> (kerr + bytes) \<times> 'i"

definition NoopInterceptor :: "('i, 'f) Hooks" where
  "NoopInterceptor = \<lparr>hkOnRequest = (\<lambda>h body i. (None, i)), hkRewrite = (\<lambda>i f dst body p. (Inr body, i))\<rparr>"

section \<open>The connection\<close>

datatype connErr =
    IOErr ioerr
  | DeadlineErr ioerr
  | HeaderErr nat kerr
  | CodecErr kerr
  | TrackerFull int16

record Config =
  cfgMaxFrameSize :: int
  cfgIdleTimeout :: int
  cfgMaxInflight :: int
  cfgPendingMaxAge :: int
  cfgFrames :: "Metrics option"

record 'f Conn =
  coIdleTimeout :: int
  coFrames :: "Metrics option"
  coTracker :: "'f Tracker"
  coClientR :: Reader
  coClientW :: outstream
  coBrokerR :: Reader
  coBrokerW :: outstream
  coUpBuf :: Buffer
  coDownBuf :: Buffer

text \<open>A network connection is the stream of what it delivers and the stream of what it accepts.\<close>

definition NewConn ::
  "Config \<Rightarrow> instream \<times> outstream \<Rightarrow> instream \<times> outstream \<Rightarrow> Buffer \<Rightarrow> Buffer \<Rightarrow> 'f Conn" where
  "NewConn cfg client broker upBuf downBuf =
     (let maxSize = (if cfgMaxFrameSize cfg \<le> 0 then MaxFrameSize else cfgMaxFrameSize cfg) in
      \<lparr>coIdleTimeout = cfgIdleTimeout cfg, coFrames = cfgFrames cfg,
       coTracker = NewTracker (cfgMaxInflight cfg) (cfgPendingMaxAge cfg),
       coClientR = NewReader (fst client) maxSize, coClientW = snd client,
       coBrokerR = NewReader (fst broker) maxSize, coBrokerW = snd broker,
       coUpBuf = upBuf, coDownBuf = downBuf\<rparr>)"

text \<open>
  What an iteration finds in its surroundings: the result of \<open>SetReadDeadline\<close> and its two clock
  readings (the \<open>Sent\<close> time of the pending request, and the one in \<open>Register\<close>).
\<close>

record PumpEnv =
  peDeadline :: "ioerr option"
  peSent :: int
  peNow :: int

definition setDeadline :: "PumpEnv \<Rightarrow> 'f Conn \<Rightarrow> ioerr option" where
  "setDeadline pe c = (if coIdleTimeout c > 0 then peDeadline pe else None)"

definition countFrames :: "(Metrics \<Rightarrow> Metrics) \<Rightarrow> 'f Conn \<Rightarrow> 'f Conn" where
  "countFrames f c = c\<lparr>coFrames := map_option f (coFrames c)\<rparr>"

section \<open>The upstream pump\<close>

definition forwardUp :: "bytes \<Rightarrow> 'f Conn \<Rightarrow> connErr option \<times> 'f Conn" where
  "forwardUp out c =
     (case WriteFrame (coBrokerW c) out of
        (Some e, w) \<Rightarrow> (Some (IOErr e), c\<lparr>coBrokerW := w\<rparr>)
      | (None, w) \<Rightarrow> (None, countFrames IncClientToBroker (c\<lparr>coBrokerW := w\<rparr>)))"

text \<open>The fields that the pump fills in before it registers a pending request.\<close>

definition stampPending :: "RequestHeader \<Rightarrow> int \<Rightarrow> 'f Pending \<Rightarrow> 'f Pending" where
  "stampPending h now p =
     p\<lparr>pAPIKey := APIKey h, pAPIVersion := APIVersion h, pCorrelID := CorrelID h, pSent := now\<rparr>"

definition spliceRequest :: "RequestHeader \<Rightarrow> bytes \<Rightarrow> 'f Pending \<Rightarrow> bytes" where
  "spliceRequest h body p =
     (case pRewriteRequest p of None \<Rightarrow> body | Some req \<Rightarrow> take (HeaderSize h) body @ req)"

definition handleRequest ::
  "('i, 'f) Hooks \<Rightarrow> PumpEnv \<Rightarrow> RequestHeader \<Rightarrow> bytes \<Rightarrow> 'f Conn \<Rightarrow> 'i \<Rightarrow> connErr option \<times> 'f Conn \<times> 'i" where
  "handleRequest hk pe h body c i =
     (case hkOnRequest hk h (drop (HeaderSize h) body) i of
        (None, i') \<Rightarrow> (let (e, c') = forwardUp body c in (e, c', i'))
      | (Some p0, i') \<Rightarrow>
          let p = stampPending h (peSent pe) p0;
              out = spliceRequest h body p;
              (ok, t) = Register (peNow pe) (coTracker c) p;
              c1 = c\<lparr>coTracker := t\<rparr>
          in if ok then let (e, c') = forwardUp out c1 in (e, c', i')
             else let c2 = countFrames IncTrackerDropped c1 in
                  if pRewrite p \<noteq> None then (Some (TrackerFull (APIKey h)), c2, i')
                  else let (e, c') = forwardUp out c2 in (e, c', i'))"

definition upstreamPump ::
  "('i, 'f) Hooks \<Rightarrow> PumpEnv \<Rightarrow> 'f Conn \<Rightarrow> 'i \<Rightarrow> connErr option \<times> 'f Conn \<times> 'i" where
  "upstreamPump hk pe c i =
     (case setDeadline pe c of
        Some e \<Rightarrow> (Some (DeadlineErr e), c, i)
      | None \<Rightarrow>
          (case ReadFrame (coClientR c) (coUpBuf c) of
             Inl e \<Rightarrow> (Some (IOErr e), c, i)
           | Inr (body, b, r) \<Rightarrow>
               let c1 = c\<lparr>coClientR := r, coUpBuf := b\<rparr> in
               (case DecodeRequestHeader body of
                  Inl e \<Rightarrow> (Some (HeaderErr (length body) e), c1, i)
                | Inr h \<Rightarrow> handleRequest hk pe h body c1 i)))"

section \<open>The downstream pump\<close>

definition forwardDown :: "bytes \<Rightarrow> 'f Conn \<Rightarrow> connErr option \<times> 'f Conn" where
  "forwardDown out c =
     (case WriteFrame (coClientW c) out of
        (Some e, w) \<Rightarrow> (Some (IOErr e), c\<lparr>coClientW := w\<rparr>)
      | (None, w) \<Rightarrow> (None, countFrames IncBrokerToClient (c\<lparr>coClientW := w\<rparr>)))"

definition handleResponse ::
  "('i, 'f) Hooks \<Rightarrow> bytes \<Rightarrow> 'f Pending \<Rightarrow> 'f \<Rightarrow> 'f Conn \<Rightarrow> 'i \<Rightarrow> connErr option \<times> 'f Conn \<times> 'i" where
  "handleResponse hk body p rw c i =
     (case DecodeResponseHeader body (pAPIKey p) (pAPIVersion p) of
        Inl e \<Rightarrow> (Some (CodecErr e), c, i)
      | Inr rh \<Rightarrow>
          (case hkRewrite hk i rw [] (drop (RespHeaderSize rh) body) p of
             (Inl e, i') \<Rightarrow> (Some (CodecErr e), c, i')
           | (Inr newPayload, i') \<Rightarrow>
               let out = AppendResponseHeader [] (pAPIKey p) (pAPIVersion p) (pCorrelID p) @ newPayload;
                   (e, c') = forwardDown out c
               in (e, c', i')))"

definition downstreamPump ::
  "('i, 'f) Hooks \<Rightarrow> PumpEnv \<Rightarrow> 'f Conn \<Rightarrow> 'i \<Rightarrow> connErr option \<times> 'f Conn \<times> 'i" where
  "downstreamPump hk pe c i =
     (case setDeadline pe c of
        Some e \<Rightarrow> (Some (DeadlineErr e), c, i)
      | None \<Rightarrow>
          (case ReadFrame (coBrokerR c) (coDownBuf c) of
             Inl e \<Rightarrow> (Some (IOErr e), c, i)
           | Inr (body, b, r) \<Rightarrow>
               let c1 = c\<lparr>coBrokerR := r, coDownBuf := b\<rparr> in
               (case PeekResponseCorrelID body of
                  Inl e \<Rightarrow> (Some (CodecErr e), c1, i)
                | Inr correlID \<Rightarrow>
                    let (po, t) = Take (coTracker c1) correlID;
                        c2 = c1\<lparr>coTracker := t\<rparr>
                    in (case po of
                          None \<Rightarrow> (let (e, c') = forwardDown body c2 in (e, c', i))
                        | Some p \<Rightarrow>
                            (case pRewrite p of
                               None \<Rightarrow> (let (e, c') = forwardDown body c2 in (e, c', i))
                             | Some rw \<Rightarrow> handleResponse hk body p rw c2 i)))))"

section \<open>Closing and running\<close>

fun isExpectedShutdownErr :: "connErr \<Rightarrow> bool" where
  "isExpectedShutdownErr (IOErr e) = (e = EOF \<or> e = netClosed)"
| "isExpectedShutdownErr (DeadlineErr e) = (e = EOF \<or> e = netClosed)"
| "isExpectedShutdownErr (HeaderErr n e) = False"
| "isExpectedShutdownErr (CodecErr e) = False"
| "isExpectedShutdownErr (TrackerFull k) = False"

definition closeIn :: "Reader \<Rightarrow> Reader" where
  "closeIn r = r\<lparr>rstream := \<lparr>pending = [], ending = netClosed\<rparr>\<rparr>"

definition closeOut :: "outstream \<Rightarrow> outstream" where
  "closeOut w = w\<lparr>room := 0, wfault := netClosed\<rparr>"

datatype pumpState = Running | Exited connErr

record ('i, 'f) Run =
  rnConn :: "'f Conn"
  rnIc :: 'i
  rnUp :: pumpState
  rnDown :: pumpState
  rnErrCh :: "connErr list"
  rnCtxDone :: bool
  rnClosed :: bool
  rnCloseErr :: "connErr option"

definition closeBoth :: "connErr option \<Rightarrow> ('i, 'f) Run \<Rightarrow> ('i, 'f) Run" where
  "closeBoth err s =
     (if rnClosed s then s
      else s\<lparr>rnClosed := True,
        rnCloseErr := (case err of None \<Rightarrow> None | Some e \<Rightarrow> if isExpectedShutdownErr e then None else Some e),
        rnConn := (rnConn s)\<lparr>coClientR := closeIn (coClientR (rnConn s)), coClientW := closeOut (coClientW (rnConn s)),
                    coBrokerR := closeIn (coBrokerR (rnConn s)), coBrokerW := closeOut (coBrokerW (rnConn s))\<rparr>\<rparr>)"

text \<open>One iteration of a pump inside \<open>Run\<close>: a pump that returns sends its error on \<open>errCh\<close>.\<close>

definition upStep :: "('i, 'f) Hooks \<Rightarrow> PumpEnv \<Rightarrow> ('i, 'f) Run \<Rightarrow> ('i, 'f) Run" where
  "upStep hk pe s =
     (case upstreamPump hk pe (rnConn s) (rnIc s) of
        (None, c, i) \<Rightarrow> s\<lparr>rnConn := c, rnIc := i\<rparr>
      | (Some e, c, i) \<Rightarrow> s\<lparr>rnConn := c, rnIc := i, rnUp := Exited e, rnErrCh := rnErrCh s @ [e]\<rparr>)"

definition downStep :: "('i, 'f) Hooks \<Rightarrow> PumpEnv \<Rightarrow> ('i, 'f) Run \<Rightarrow> ('i, 'f) Run" where
  "downStep hk pe s =
     (case downstreamPump hk pe (rnConn s) (rnIc s) of
        (None, c, i) \<Rightarrow> s\<lparr>rnConn := c, rnIc := i\<rparr>
      | (Some e, c, i) \<Rightarrow> s\<lparr>rnConn := c, rnIc := i, rnDown := Exited e, rnErrCh := rnErrCh s @ [e]\<rparr>)"

definition startRun :: "'f Conn \<Rightarrow> 'i \<Rightarrow> ('i, 'f) Run" where
  "startRun c i = \<lparr>rnConn = c, rnIc = i, rnUp = Running, rnDown = Running, rnErrCh = [], rnCtxDone = False,
     rnClosed = False, rnCloseErr = None\<rparr>"

text \<open>
  The goroutines of \<open>Run\<close>: the two pumps, the watcher that closes both sockets when the context is
  cancelled (\<open>ctx_done\<close> is its cancellation, by the owner of the context), and the caller that closes them
  with the first error it receives.
\<close>

inductive run_step :: "(nat \<Rightarrow> ('i, 'f) Hooks) \<Rightarrow> ('i, 'f) Run \<Rightarrow> ('i, 'f) Run \<Rightarrow> bool" for hk where
  up: "rnUp s = Running \<Longrightarrow> run_step hk s (upStep (hk n) pe s)"
| down: "rnDown s = Running \<Longrightarrow> run_step hk s (downStep (hk n) pe s)"
| ctx_done: "run_step hk s (s\<lparr>rnCtxDone := True\<rparr>)"
| cancel: "rnCtxDone s \<Longrightarrow> run_step hk s (closeBoth None s)"
| collect: "rnErrCh s = e # es \<Longrightarrow> run_step hk s (closeBoth (Some e) s)"

definition returned :: "('i, 'f) Run \<Rightarrow> bool" where
  "returned s \<longleftrightarrow> rnUp s \<noteq> Running \<and> rnDown s \<noteq> Running \<and> rnClosed s"

end
