(* ===== verification/ProxyCorrect.thy ===== *)
theory ProxyCorrect
  imports ProxyConn
begin

text \<open>
  What the pumps of a connection guarantee: a response that must be rewritten is never forwarded
  raw, everything else is forwarded byte for byte, and \<open>Run\<close> winds both pumps down and reports the
  first error.
\<close>

section \<open>Frames and headers\<close>

lemma AppendInt32_Uint32:
  assumes "Uint32 hdr = Inr v" "length hdr = 4"
  shows "AppendInt32 [] v = hdr"
proof -
  obtain a b c d where hdr: "hdr = [a, b, c, d]"
    using assms(2) by (auto simp: numeral_eq_Suc length_Suc_conv)
  have v: "v = ucast d OR push_bit 8 (ucast c) OR push_bit 16 (ucast b) OR push_bit 24 (ucast a)"
    using assms(1) by (simp add: hdr)
  have short: "bit x (8 + n) \<longleftrightarrow> False" "bit x (16 + n) \<longleftrightarrow> False" "bit x (24 + n) \<longleftrightarrow> False" for x :: byte and n
    by (auto dest: bit_imp_le_length)
  have "ucast (drop_bit 24 v) = a" "ucast (drop_bit 16 v) = b" "ucast (drop_bit 8 v) = c" "ucast v = d"
    unfolding v by (auto intro!: bit_word_eqI simp: bit_simps short)
  then show ?thesis by (simp add: AppendInt32_def hdr)
qed

lemma ReadFrame_frame:
  assumes "ReadFrame rd b = Inr (data, b', rd')"
  shows "pending (rstream rd) = encFrame data @ pending (rstream rd')"
  using ReadFrame_accepts [OF assms] AppendInt32_Uint32 by (auto simp: encFrame_def)

lemma WriteFrame_written:
  "WriteFrame w body = (None, w') \<Longrightarrow> written w' = written w @ encFrame body"
  by (auto simp: WriteFrame_def Write_def encFrame_def split: if_splits)

lemma WriteTo_prefix:
  "WriteTo w [x, y] = (e, w') \<Longrightarrow> written w' = written w @ take (room w) (x @ y)"
  by (auto simp: Write_def split: if_splits)

lemma WriteFrame_prefix:
  assumes "WriteFrame w body = (e, w')"
  shows "\<exists>n. written w' = written w @ take n (encFrame body)"
proof (cases "length body > 2 ^ 32 - 1")
  case True
  then show ?thesis using assms by (intro exI [of _ 0]) (simp add: WriteFrame_def)
next
  case False
  then have "WriteTo w [AppendInt32 [] (of_nat (length body)), body] = (e, w')"
    using assms by (simp add: WriteFrame_def del: WriteTo.simps)
  from WriteTo_prefix [OF this] show ?thesis unfolding encFrame_def by blast
qed

lemma WriteFrame_closed: "WriteFrame (closeOut w) body = (e, w') \<Longrightarrow> e \<noteq> None"
  by (auto simp: WriteFrame_def Write_def closeOut_def AppendInt32_def split: if_splits)

text \<open>The payload starts inside the frame, so the slices that the pumps take of a frame are in range.\<close>

lemma run_offset:
  assumes "safe m" "run m body = Inr v" "\<And>c c' v. m c = Inr (v, c') \<Longrightarrow> f v = off c'"
  shows "f v \<le> length body"
proof -
  obtain c' where m: "m (NewCursor body) = Inr (v, c')"
    using assms(2) by (auto simp: run_def split: sum.splits)
  have "wf_cursor (NewCursor body)" by (simp add: wf_cursor_def NewCursor_def)
  from safeD [OF assms(1) this m] show ?thesis
    using assms(3) [OF m] by (auto simp: wf_cursor_def NewCursor_def)
qed

lemma header_in_range: "DecodeRequestHeader body = Inr h \<Longrightarrow> HeaderSize h \<le> length body"
  unfolding DecodeRequestHeader_def case_prod_bnd
  by (erule run_offset [rotated]) ((auto simp: bnd_def Offset_def split: sum.splits)[1], intro safe_intros)

lemma response_header_in_range:
  "DecodeResponseHeader body k v = Inr rh \<Longrightarrow> RespHeaderSize rh \<le> length body"
  unfolding DecodeResponseHeader_def
  by (erule run_offset [rotated]) ((auto simp: bnd_def Offset_def split: sum.splits)[1], intro safe_intros)

section \<open>One iteration of a pump\<close>

lemma forwardUp_simps [simp]:
  "coTracker (snd (forwardUp out c)) = coTracker c" "coClientR (snd (forwardUp out c)) = coClientR c"
  "coClientW (snd (forwardUp out c)) = coClientW c" "coBrokerR (snd (forwardUp out c)) = coBrokerR c"
  by (auto simp: forwardUp_def countFrames_def split: prod.split option.split)

lemma forwardDown_simps [simp]:
  "coTracker (snd (forwardDown out c)) = coTracker c" "coClientR (snd (forwardDown out c)) = coClientR c"
  "coBrokerW (snd (forwardDown out c)) = coBrokerW c" "coBrokerR (snd (forwardDown out c)) = coBrokerR c"
  by (auto simp: forwardDown_def countFrames_def split: prod.split option.split)

lemma forwardUp_rest:
  "forwardUp out c = (e, c') \<Longrightarrow> coBrokerR c' = coBrokerR c \<and> coClientW c' = coClientW c \<and> coClientR c' = coClientR c"
  using forwardUp_simps [of out c] by simp

lemma forwardDown_rest:
  "forwardDown out c = (e, c') \<Longrightarrow> coClientR c' = coClientR c \<and> coBrokerW c' = coBrokerW c \<and> coBrokerR c' = coBrokerR c"
  using forwardDown_simps [of out c] by simp

lemma forwardUp_tracker: "forwardUp out c = (e, c') \<Longrightarrow> coTracker c' = coTracker c"
  using forwardUp_simps(1) [of out c] by simp

lemma forwardDown_tracker: "forwardDown out c = (e, c') \<Longrightarrow> coTracker c' = coTracker c"
  using forwardDown_simps(1) [of out c] by simp

lemma forwardUp_written:
  "fst (forwardUp out c) = None \<Longrightarrow> written (coBrokerW (snd (forwardUp out c))) = written (coBrokerW c) @ encFrame out"
  by (auto simp: forwardUp_def countFrames_def dest: WriteFrame_written split: prod.splits option.splits)

lemma forwardDown_written:
  "fst (forwardDown out c) = None \<Longrightarrow> written (coClientW (snd (forwardDown out c))) = written (coClientW c) @ encFrame out"
  by (auto simp: forwardDown_def countFrames_def dest: WriteFrame_written split: prod.splits option.splits)

lemma countFrames_simps [simp]:
  "coTracker (countFrames f c) = coTracker c" "coBrokerW (countFrames f c) = coBrokerW c"
  "coClientR (countFrames f c) = coClientR c" "coClientW (countFrames f c) = coClientW c"
  "coBrokerR (countFrames f c) = coBrokerR c"
  by (simp_all add: countFrames_def)

lemma rewrite_bypass:
  assumes "trackerInv (coTracker c)" "setDeadline pe c = None"
    and "ReadFrame (coClientR c) (coUpBuf c) = Inr (body, b, r)" "DecodeRequestHeader body = Inr h"
    and "hkOnRequest hk h (drop (HeaderSize h) body) i = (Some p, i')" "pRewrite p \<noteq> None"
    and "upstreamPump hk pe c i = (e, c', i'')"
  shows "if fst (Register (peNow pe) (coTracker c) (stampPending h (peSent pe) p))
    then findPending (coTracker c') (CorrelID h) = Some (stampPending h (peSent pe) p) \<and>
      (e = None \<longrightarrow> written (coBrokerW c') = written (coBrokerW c) @ encFrame (spliceRequest h body p))
    else e = Some (TrackerFull (APIKey h)) \<and> coBrokerW c' = coBrokerW c \<and>
      coFrames c' = map_option IncTrackerDropped (coFrames c)"
proof -
  let ?p = "stampPending h (peSent pe) p" and ?c = "c\<lparr>coClientR := r, coUpBuf := b\<rparr>"
  obtain ok t where reg: "Register (peNow pe) (coTracker c) ?p = (ok, t)" by fastforce
  have h: "handleRequest hk pe h body ?c i = (e, c', i'')"
    using assms(2-4,7) by (simp add: upstreamPump_def)
  have splice: "spliceRequest h body ?p = spliceRequest h body p" and rw: "pRewrite ?p \<noteq> None"
    using assms(6) by (simp_all add: spliceRequest_def stampPending_def)
  show ?thesis
  proof (cases ok)
    case True
    have "findPending t (CorrelID h) = Some ?p"
      using tracker.register_found [OF assms(1)] reg True by (fastforce simp: stampPending_def)
    moreover have "e = fst (forwardUp (spliceRequest h body p) (?c\<lparr>coTracker := t\<rparr>)) \<and>
        c' = snd (forwardUp (spliceRequest h body p) (?c\<lparr>coTracker := t\<rparr>))"
      using h True reg splice by (simp add: handleRequest_def assms(5) Let_def split: prod.splits)
    ultimately show ?thesis
      using True reg forwardUp_written [of "spliceRequest h body p" "?c\<lparr>coTracker := t\<rparr>"] by simp
  next
    case False
    then show ?thesis
      using h reg rw by (auto simp: handleRequest_def assms(5) Let_def countFrames_def)
  qed
qed

text \<open>
  C3: no topology bypass.  When the interceptor wants the response of a request rewritten, the
  request reaches the broker only with its pending entry, stamped with the header's key, version
  and correlation id, in the tracker; when the tracker refuses the entry, the pump stops with an
  error, nothing is written to the broker and the drop is counted.
\<close>

theorem rewrite_never_bypassed:
  assumes "trackerInv (coTracker c)" "setDeadline pe c = None"
    and "ReadFrame (coClientR c) (coUpBuf c) = Inr (body, b, r)" "DecodeRequestHeader body = Inr h"
    and "hkOnRequest hk h (drop (HeaderSize h) body) i = (Some p, i')" "pRewrite p \<noteq> None"
    and "upstreamPump hk pe c i = (e, c', i'')"
  shows "if fst (Register (peNow pe) (coTracker c) (stampPending h (peSent pe) p))
    then findPending (coTracker c') (CorrelID h) = Some (stampPending h (peSent pe) p) \<and>
      (e = None \<longrightarrow> written (coBrokerW c') = written (coBrokerW c) @ encFrame (spliceRequest h body p))
    else e = Some (TrackerFull (APIKey h)) \<and> coBrokerW c' = coBrokerW c \<and>
      coFrames c' = map_option IncTrackerDropped (coFrames c)"
  using assms by (rule rewrite_bypass)

lemma response_match:
  assumes "trackerInv (coTracker c)" "ReadFrame (coBrokerR c) (coDownBuf c) = Inr (body, b, r)"
    and "PeekResponseCorrelID body = Inr k" "downstreamPump hk pe c i = (None, c', i')"
  shows "findPending (coTracker c') k = None \<and>
    (case findPending (coTracker c) k of
       None \<Rightarrow> written (coClientW c') = written (coClientW c) @ encFrame body
     | Some p \<Rightarrow>
         (case pRewrite p of
            None \<Rightarrow> written (coClientW c') = written (coClientW c) @ encFrame body
          | Some rw \<Rightarrow> \<exists>rh payload. DecodeResponseHeader body (pAPIKey p) (pAPIVersion p) = Inr rh \<and>
              hkRewrite hk i rw [] (drop (RespHeaderSize rh) body) p = (Inr payload, i') \<and>
              written (coClientW c') = written (coClientW c) @
                encFrame (AppendResponseHeader [] (pAPIKey p) (pAPIVersion p) k @ payload)))"
proof -
  obtain t where take: "Take (coTracker c) k = (findPending (coTracker c) k, t)"
    using tracker.take_result [OF assms(1), of k] by (metis prod.collapse)
  let ?c = "c\<lparr>coBrokerR := r, coDownBuf := b, coTracker := t\<rparr>"
  have gone: "findPending (coTracker ?c) k = None"
    using tracker.take_rest [OF assms(1), of k k] by (simp add: take)
  have pump: "(case findPending (coTracker c) k of
       None \<Rightarrow> (let (e, c') = forwardDown body ?c in (e, c', i))
     | Some p \<Rightarrow> (case pRewrite p of
         None \<Rightarrow> (let (e, c') = forwardDown body ?c in (e, c', i))
       | Some rw \<Rightarrow> handleResponse hk body p rw ?c i)) = (None, c', i')"
    using assms(4) by (cases "setDeadline pe c") (simp_all add: downstreamPump_def assms(2,3) take Let_def)
  have raw: "findPending (coTracker c') k = None \<and> written (coClientW c') = written (coClientW c) @ encFrame body"
    if "forwardDown body ?c = (None, c')"
    using that gone forwardDown_written [of body ?c] forwardDown_simps(1) [of body ?c] by simp
  show ?thesis
  proof (cases "findPending (coTracker c) k")
    case None
    then show ?thesis using pump raw by (auto split: option.splits prod.splits)
  next
    case (Some p)
    show ?thesis
    proof (cases "pRewrite p")
      case None
      then show ?thesis using Some pump raw by (auto split: option.splits prod.splits)
    next
      case (Some rw)
      have k: "pCorrelID p = k" using tracker.key_ok [OF assms(1) \<open>findPending (coTracker c) k = Some p\<close>] .
      have "handleResponse hk body p rw ?c i = (None, c', i')"
        using Some \<open>findPending (coTracker c) k = Some p\<close> pump by (simp split: option.splits)
      then obtain rh payload where "DecodeResponseHeader body (pAPIKey p) (pAPIVersion p) = Inr rh"
          "hkRewrite hk i rw [] (drop (RespHeaderSize rh) body) p = (Inr payload, i')"
          "forwardDown (AppendResponseHeader [] (pAPIKey p) (pAPIVersion p) k @ payload) ?c = (None, c')"
        by (auto simp: handleResponse_def k Let_def split: sum.splits prod.splits)
      then show ?thesis
        using Some \<open>findPending (coTracker c) k = Some p\<close> gone
          forwardDown_written [of "AppendResponseHeader [] (pAPIKey p) (pAPIVersion p) k @ payload" ?c]
          forwardDown_simps(1) [of "AppendResponseHeader [] (pAPIKey p) (pAPIVersion p) k @ payload" ?c] by auto
    qed
  qed
qed

text \<open>
  C4: the downstream pump matches a response with the pending request of its correlation id.
  Without one, or when it does not want its response rewritten, the client gets the frame byte for
  byte; otherwise it gets the response header of that request and the rewritten payload, never the
  broker's bytes.  Either way the entry is used up.
\<close>

theorem response_matched:
  assumes "trackerInv (coTracker c)" "ReadFrame (coBrokerR c) (coDownBuf c) = Inr (body, b, r)"
    and "PeekResponseCorrelID body = Inr k" "downstreamPump hk pe c i = (None, c', i')"
  shows "findPending (coTracker c') k = None \<and>
    (case findPending (coTracker c) k of
       None \<Rightarrow> written (coClientW c') = written (coClientW c) @ encFrame body
     | Some p \<Rightarrow>
         (case pRewrite p of
            None \<Rightarrow> written (coClientW c') = written (coClientW c) @ encFrame body
          | Some rw \<Rightarrow> \<exists>rh payload. DecodeResponseHeader body (pAPIKey p) (pAPIVersion p) = Inr rh \<and>
              hkRewrite hk i rw [] (drop (RespHeaderSize rh) body) p = (Inr payload, i') \<and>
              written (coClientW c') = written (coClientW c) @
                encFrame (AppendResponseHeader [] (pAPIKey p) (pAPIVersion p) k @ payload)))"
  using assms by (rule response_match)

section \<open>What a pump leaves alone\<close>

lemma upstream_frame:
  assumes "upstreamPump hk pe c i = (e, c', i')"
  shows "coBrokerR c' = coBrokerR c" "coClientW c' = coClientW c"
  using assms
  by (auto simp: upstreamPump_def handleRequest_def Let_def split: option.splits sum.splits prod.splits if_splits
      dest!: forwardUp_rest)

lemma downstream_frame:
  assumes "downstreamPump hk pe c i = (e, c', i')"
  shows "coClientR c' = coClientR c" "coBrokerW c' = coBrokerW c"
  using assms
  by (auto simp: downstreamPump_def handleResponse_def Let_def split: option.splits sum.splits prod.splits
      dest!: forwardDown_rest)

lemma upstream_tracker:
  assumes "upstreamPump hk pe c i = (e, c', i')"
  shows "(coTracker c' = coTracker c \<and> (i' = i \<or> (\<exists>h body. hkOnRequest hk h body i = (None, i')))) \<or>
    (\<exists>h body p. hkOnRequest hk h body i = (Some p, i') \<and>
       coTracker c' = snd (Register (peNow pe) (coTracker c) (stampPending h (peSent pe) p)))"
  using assms
  by (auto simp: upstreamPump_def handleRequest_def Let_def split: option.splits sum.splits prod.splits if_splits
      dest!: forwardUp_tracker) (metis snd_conv)+

lemma downstream_tracker:
  assumes "downstreamPump hk pe c i = (e, c', i')"
  shows "(i' = i \<and> coTracker c' = coTracker c) \<or>
    (\<exists>k. coTracker c' = snd (Take (coTracker c) k) \<and>
       (i' = i \<or> (\<exists>rw payload p res. hkRewrite hk i rw [] payload p = (res, i'))))"
  using assms
  by (auto simp: downstreamPump_def handleResponse_def Let_def split: option.splits sum.splits prod.splits if_splits
      dest!: forwardDown_tracker) (metis snd_conv)+

text \<open>
  A pending request older than \<open>PendingMaxAge\<close> is evicted by the next sweep; when its response comes after all,
  no rewriter is found any more and the client gets the broker's own frame, also of a request whose
  response should have been rewritten.
\<close>

lemma late_response_forwarded_raw:
  assumes "trackerInv t" "findPending t k = Some q" "now - pSent q > tMaxAge t" "now - lastSweepNS t \<ge> sweepEvery t"
    and "pCorrelID p \<noteq> k" "coTracker c = snd (Register now t p)"
    and "ReadFrame (coBrokerR c) (coDownBuf c) = Inr (body, b, r)" "PeekResponseCorrelID body = Inr k"
    and "downstreamPump hk pe c i = (None, c', i')"
  shows "written (coClientW c') = written (coClientW c) @ encFrame body"
proof -
  have inv: "trackerInv (coTracker c)" unfolding assms(6) by (rule Register_inv [OF assms(1)])
  have "mget (entries (swept now t)) k = None"
    using assms(1-4) by (simp add: swept_def evictExpiredLocked_def findPending_def trackerInv_def mget_filter)
  then have "findPending (coTracker c) k = None"
    using assms(5) by (simp add: assms(6) Register_swept findPending_def)
  with response_match [OF inv assms(7-9)] show ?thesis by simp
qed

section \<open>Contract between the pumps and the interceptor\<close>

text \<open>
  An interceptor keeps a property \<open>ok\<close> of its own state and only asks for pending requests with the
  property \<open>good\<close>.  Then every entry that the downstream pump finds is good, in every interleaving.
\<close>

locale interceptor_contract =
  fixes hk :: "nat \<Rightarrow> ('i, 'f) Hooks" and ok :: "'i \<Rightarrow> bool" and good :: "'f Pending \<Rightarrow> bool"
  assumes request_ok: "ok i \<Longrightarrow> hkOnRequest (hk n) h body i = (po, i') \<Longrightarrow> ok i'"
    and request_good: "ok i \<Longrightarrow> hkOnRequest (hk n) h body i = (Some p, i') \<Longrightarrow> good (stampPending h now p)"
    and rewrite_ok: "ok i \<Longrightarrow> hkRewrite (hk n) i rw dst body p = (res, i') \<Longrightarrow> ok i'"
begin

definition connOk :: "'f Conn \<Rightarrow> 'i \<Rightarrow> bool" where
  "connOk c i \<longleftrightarrow> ok i \<and> trackerInv (coTracker c) \<and> (\<forall>k p. findPending (coTracker c) k = Some p \<longrightarrow> good p)"

lemma upstream_ok:
  assumes "connOk c i" "upstreamPump (hk n) pe c i = (e, c', i')"
  shows "connOk c' i'"
  using upstream_tracker [OF assms(2)]
proof (elim disjE exE conjE)
  fix h body and p :: "'f Pending"
  let ?p = "stampPending h (peSent pe) p"
  assume req: "hkOnRequest (hk n) h body i = (Some p, i')"
    and t: "coTracker c' = snd (Register (peNow pe) (coTracker c) ?p)"
  have ok: "ok i" and inv: "trackerInv (coTracker c)" using assms(1) by (simp_all add: connOk_def)
  have "good q" if "findPending (coTracker c') k = Some q" for k q
    using tracker.register_other [OF inv prod.collapse [symmetric] that [unfolded t]]
      request_good [OF ok req] assms(1) by (auto simp: connOk_def)
  then show ?thesis
    using t Register_inv [OF inv] request_ok [OF ok req] by (auto simp: connOk_def)
qed (use assms(1) request_ok in \<open>auto simp: connOk_def\<close>)

lemma downstream_ok:
  assumes "connOk c i" "downstreamPump (hk n) pe c i = (e, c', i')"
  shows "connOk c' i'"
proof -
  have "ok i'" using downstream_tracker [OF assms(2)] assms(1) rewrite_ok by (auto simp: connOk_def)
  moreover have "trackerInv (coTracker c') \<and> (\<forall>k p. findPending (coTracker c') k = Some p \<longrightarrow> good p)"
    using downstream_tracker [OF assms(2)] assms(1) Take_inv [of "coTracker c"] tracker.take_rest [of "coTracker c"]
    by (fastforce simp: connOk_def split: if_splits)
  ultimately show ?thesis by (simp add: connOk_def)
qed

definition runOk :: "('i, 'f) Run \<Rightarrow> bool" where
  "runOk s \<longleftrightarrow> connOk (rnConn s) (rnIc s)"

lemma close_ok: "runOk s \<Longrightarrow> runOk (closeBoth e s)"
  by (simp add: runOk_def connOk_def closeBoth_def)

lemma step_ok: "run_step hk s s' \<Longrightarrow> runOk s \<Longrightarrow> runOk s'"
  by (induction rule: run_step.induct)
    (auto simp: upStep_def downStep_def runOk_def split: prod.split option.split
      dest: upstream_ok downstream_ok intro: close_ok [unfolded runOk_def])

lemma start_ok: "ok i \<Longrightarrow> runOk (startRun (NewConn cfg client broker b1 b2) i)"
  by (simp add: runOk_def connOk_def startRun_def NewConn_def Let_def NewTracker_inv findPending_def)
    (simp add: NewTracker_def Let_def)

lemma run_ok: "(run_step hk)\<^sup>*\<^sup>* (startRun (NewConn cfg client broker b1 b2) i) s \<Longrightarrow> ok i \<Longrightarrow> runOk s"
  by (induction rule: rtranclp_induct) (auto intro: start_ok step_ok)

end

interpretation noop: interceptor_contract "\<lambda>n. NoopInterceptor" "\<lambda>i. True" "\<lambda>p. False"
  by unfold_locales (simp_all add: NoopInterceptor_def)

section \<open>Relaying\<close>

text \<open>
  One direction of an iteration that changes no bytes: it stops without writing, or it takes one
  frame off the reader and writes its bytes, all of them unless it stops.
\<close>

definition relayStep :: "Reader \<Rightarrow> outstream \<Rightarrow> connErr option \<Rightarrow> Reader \<Rightarrow> outstream \<Rightarrow> bool" where
  "relayStep r w e r' w' \<longleftrightarrow>
     (e \<noteq> None \<and> w' = w) \<or>
     (\<exists>body n. pending (rstream r) = encFrame body @ pending (rstream r') \<and>
        written w' = written w @ take n (encFrame body) \<and> (e = None \<longrightarrow> n = length (encFrame body)))"

lemma relay_stop: "relayStep r w (Some e) r' w"
  by (simp add: relayStep_def)

lemma relayStep_write:
  assumes "ReadFrame r b = Inr (body, b', r')" "WriteFrame w body = (e, w')"
  shows "relayStep r w (map_option IOErr e) r' w'"
proof (cases e)
  case None
  then have "written w' = written w @ take (length (encFrame body)) (encFrame body)"
    using assms(2) by (simp add: WriteFrame_written)
  then show ?thesis using ReadFrame_frame [OF assms(1)] unfolding relayStep_def by blast
next
  case (Some x)
  then show ?thesis
    using ReadFrame_frame [OF assms(1)] WriteFrame_prefix [OF assms(2)] by (auto simp: relayStep_def)
qed

lemma noop_up:
  assumes "upstreamPump NoopInterceptor pe c i = (e, c', i')"
  shows "relayStep (coClientR c) (coBrokerW c) e (coClientR c') (coBrokerW c')"
  using assms
  by (auto simp: upstreamPump_def handleRequest_def NoopInterceptor_def forwardUp_def Let_def relay_stop
      split: option.splits sum.splits prod.splits dest: relayStep_write)

lemma noop_down:
  assumes "downstreamPump NoopInterceptor pe c i = (e, c', i')" "noop.connOk c i"
  shows "relayStep (coBrokerR c) (coClientW c) e (coBrokerR c') (coClientW c')"
proof -
  have "findPending (coTracker c) k = None" for k
    using assms(2) by (simp add: noop.connOk_def)
  then have "Take (coTracker c) k = (None, coTracker c)" for k
    by (simp add: Take_def findPending_def)
  then show ?thesis
    using assms(1)
    by (auto simp: downstreamPump_def forwardDown_def Let_def relay_stop
        split: option.splits sum.splits prod.splits dest: relayStep_write)
qed

text \<open>
  The invariant of one direction: while the pump runs on open sockets, what it wrote is what it took
  off the reader; whatever happens later, what was written is a prefix of what the peer sent.
\<close>

definition relayed :: "bytes \<Rightarrow> bytes \<Rightarrow> bool \<Rightarrow> Reader \<Rightarrow> outstream \<Rightarrow> bool" where
  "relayed src w0 live r w \<longleftrightarrow>
     (if live then \<exists>done. src = done @ pending (rstream r) \<and> written w = w0 @ done
      else \<exists>n. written w = w0 @ take n src)"

lemma relayed_dead: "relayed src w0 live r w \<Longrightarrow> relayed src w0 False r' w"
proof (cases live)
  case True
  moreover assume "relayed src w0 live r w"
  ultimately obtain d where "src = d @ pending (rstream r)" "written w = w0 @ d" by (auto simp: relayed_def)
  then show ?thesis by (auto simp: relayed_def intro!: exI [of _ "length d"])
qed (simp add: relayed_def)

lemma relayed_step:
  assumes "relayed src w0 True r w" "relayStep r w e r' w'"
  shows "relayed src w0 (e = None) r' w'"
proof -
  obtain d where d: "src = d @ pending (rstream r)" "written w = w0 @ d"
    using assms(1) by (auto simp: relayed_def)
  show ?thesis
  proof (cases "e \<noteq> None \<and> w' = w")
    case True
    then show ?thesis using relayed_dead [OF assms(1)] by auto
  next
    case False
    then obtain body n where body: "pending (rstream r) = encFrame body @ pending (rstream r')"
        "written w' = written w @ take n (encFrame body)" "e = None \<longrightarrow> n = length (encFrame body)"
      using assms(2) unfolding relayStep_def by blast
    have "d @ take n (encFrame body) = take (length d + min n (length (encFrame body))) src"
      unfolding d(1) body(1) by (simp add: min_def)
    then have "written w' = w0 @ take (length d + min n (length (encFrame body))) src"
      using body(2) d(2) by (metis append.assoc)
    then have "relayed src w0 False r' w'" unfolding relayed_def if_False by blast
    then show ?thesis using body d by (cases e) (auto simp: relayed_def)
  qed
qed

lemma relayStep_closed: "pending (rstream r) = [] \<Longrightarrow> relayStep r w e r' w' \<Longrightarrow> e \<noteq> None \<and> w' = w"
  by (auto simp: relayStep_def encFrame_def AppendInt32_def)

lemma close_simps:
  "rnUp (closeBoth e s) = rnUp s" "rnDown (closeBoth e s) = rnDown s" "rnClosed (closeBoth e s)"
  "rnErrCh (closeBoth e s) = rnErrCh s" "rnIc (closeBoth e s) = rnIc s" "rnCtxDone (closeBoth e s) = rnCtxDone s"
  by (simp_all add: closeBoth_def)

lemma close_written:
  "written (coBrokerW (rnConn (closeBoth e s))) = written (coBrokerW (rnConn s))"
  "written (coClientW (rnConn (closeBoth e s))) = written (coClientW (rnConn s))"
  by (simp_all add: closeBoth_def closeOut_def)

definition closedInv :: "('i, 'f) Run \<Rightarrow> bool" where
  "closedInv s \<longleftrightarrow> rnClosed s \<longrightarrow>
     pending (rstream (coClientR (rnConn s))) = [] \<and> pending (rstream (coBrokerR (rnConn s))) = []"

lemma ReadFrame_empty: "pending (rstream r) = [] \<Longrightarrow> \<exists>e. ReadFrame r b = Inl e"
  by (simp add: ReadFrame_def ReadFull_def)

lemma closed_up:
  assumes "pending (rstream (coClientR c)) = []" "upstreamPump hk pe c i = (e, c', i')"
  shows "e \<noteq> None \<and> c' = c \<and> i' = i"
  using assms(2) ReadFrame_empty [OF assms(1), of "coUpBuf c"]
  by (auto simp: upstreamPump_def split: option.splits)

lemma closed_down:
  assumes "pending (rstream (coBrokerR c)) = []" "downstreamPump hk pe c i = (e, c', i')"
  shows "e \<noteq> None \<and> c' = c \<and> i' = i"
  using assms(2) ReadFrame_empty [OF assms(1), of "coDownBuf c"]
  by (auto simp: downstreamPump_def split: option.splits)

lemma upStep_simps [simp]: "rnDown (upStep hk pe s) = rnDown s" "rnClosed (upStep hk pe s) = rnClosed s"
    "rnCloseErr (upStep hk pe s) = rnCloseErr s" "rnCtxDone (upStep hk pe s) = rnCtxDone s"
  by (simp_all add: upStep_def split: prod.split option.split)

lemma downStep_simps [simp]: "rnUp (downStep hk pe s) = rnUp s" "rnClosed (downStep hk pe s) = rnClosed s"
    "rnCloseErr (downStep hk pe s) = rnCloseErr s" "rnCtxDone (downStep hk pe s) = rnCtxDone s"
  by (simp_all add: downStep_def split: prod.split option.split)

lemma closedInv_close: "closedInv s \<Longrightarrow> closedInv (closeBoth e s)"
  by (simp add: closedInv_def closeBoth_def closeIn_def)

lemma closedInv_up: "closedInv s \<Longrightarrow> closedInv (upStep hk pe s)"
  using closed_up by (fastforce simp: closedInv_def upStep_def split: prod.splits option.splits)

lemma closedInv_down: "closedInv s \<Longrightarrow> closedInv (downStep hk pe s)"
  using closed_down by (fastforce simp: closedInv_def downStep_def split: prod.splits option.splits)

lemma closedInv_step: "run_step hk s s' \<Longrightarrow> closedInv s \<Longrightarrow> closedInv s'"
  by (induction rule: run_step.induct) (auto intro: closedInv_close closedInv_up closedInv_down, simp add: closedInv_def)

lemma closedInv_start: "closedInv (startRun c i)"
  by (simp add: closedInv_def startRun_def)

interpretation closing: step_system "run_step hk" "startRun c i" closedInv for hk c i
  by unfold_locales (fact closedInv_start, fact closedInv_step)

text \<open>Both directions of a run of the transparent interceptor.\<close>

definition relayInv :: "instream \<times> outstream \<Rightarrow> instream \<times> outstream \<Rightarrow> ('i, 'f) Run \<Rightarrow> bool" where
  "relayInv client broker s \<longleftrightarrow>
     relayed (pending (fst client)) (written (snd broker)) (rnUp s = Running \<and> \<not> rnClosed s)
       (coClientR (rnConn s)) (coBrokerW (rnConn s)) \<and>
     relayed (pending (fst broker)) (written (snd client)) (rnDown s = Running \<and> \<not> rnClosed s)
       (coBrokerR (rnConn s)) (coClientW (rnConn s))"

lemma relayed_cong: "written w' = written w \<Longrightarrow> relayed src w0 False r w \<Longrightarrow> relayed src w0 False r' w'"
  by (simp add: relayed_def)

lemma relayInv_ctx: "relayInv client broker s \<Longrightarrow> relayInv client broker (s\<lparr>rnCtxDone := True\<rparr>)"
  by (simp add: relayInv_def)

lemma relayInv_close:
  assumes "relayInv client broker s"
  shows "relayInv client broker (closeBoth e s)"
  using assms unfolding relayInv_def
  by (auto simp: close_simps intro!: relayed_cong [OF close_written(1)] relayed_cong [OF close_written(2)] dest: relayed_dead)

lemma relayInv_up:
  assumes "relayInv client broker s" "closedInv s" "rnUp s = Running"
  shows "relayInv client broker (upStep NoopInterceptor pe s)"
proof -
  obtain e c i where p: "upstreamPump NoopInterceptor pe (rnConn s) (rnIc s) = (e, c, i)" by (metis prod_cases3)
  let ?s = "upStep NoopInterceptor pe s"
  have c: "rnConn ?s = c" "rnUp ?s = Running \<longleftrightarrow> e = None"
    using assms(3) by (auto simp: upStep_def p split: option.split)
  have "relayed (pending (fst client)) (written (snd broker)) (e = None \<and> \<not> rnClosed s) (coClientR c) (coBrokerW c)"
  proof (cases "rnClosed s")
    case True
    then have "c = rnConn s" using closed_up [OF _ p] assms(2) by (auto simp: closedInv_def)
    then show ?thesis using True assms(1) by (simp add: relayInv_def)
  next
    case False
    then show ?thesis using relayed_step [OF _ noop_up [OF p]] assms(1,3) by (simp add: relayInv_def)
  qed
  then show ?thesis using assms(1) c upstream_frame [OF p] by (simp add: relayInv_def)
qed

lemma relayInv_down:
  assumes "relayInv client broker s" "closedInv s" "rnDown s = Running" "noop.runOk s"
  shows "relayInv client broker (downStep NoopInterceptor pe s)"
proof -
  obtain e c i where p: "downstreamPump NoopInterceptor pe (rnConn s) (rnIc s) = (e, c, i)" by (metis prod_cases3)
  let ?s = "downStep NoopInterceptor pe s"
  have c: "rnConn ?s = c" "rnDown ?s = Running \<longleftrightarrow> e = None"
    using assms(3) by (auto simp: downStep_def p split: option.split)
  have "relayed (pending (fst broker)) (written (snd client)) (e = None \<and> \<not> rnClosed s) (coBrokerR c) (coClientW c)"
  proof (cases "rnClosed s")
    case True
    then have "c = rnConn s" using closed_down [OF _ p] assms(2) by (auto simp: closedInv_def)
    then show ?thesis using True assms(1) by (simp add: relayInv_def)
  next
    case False
    then show ?thesis
      using relayed_step [OF _ noop_down [OF p]] assms(1,3,4) by (simp add: relayInv_def noop.runOk_def)
  qed
  then show ?thesis using assms(1) c downstream_frame [OF p] by (simp add: relayInv_def)
qed

lemma relayInv_run:
  assumes "(run_step (\<lambda>n. NoopInterceptor))\<^sup>*\<^sup>* (startRun (NewConn cfg client broker b1 b2) i) s"
  shows "relayInv client broker s"
  using assms
proof (induction rule: rtranclp_induct)
  case base
  show ?case by (simp add: relayInv_def startRun_def NewConn_def Let_def relayed_def NewReader_def)
next
  case (step s s')
  note inv = closing.reachable [OF step.hyps(1)] noop.run_ok [OF step.hyps(1) TrueI]
  from step.hyps(2) show ?case
    by (cases rule: run_step.cases)
      (use step.IH inv in \<open>auto intro: relayInv_up relayInv_down relayInv_close relayInv_ctx\<close>)
qed

text \<open>
  C5: with the transparent interceptor the proxy is a byte-for-byte forwarder.  In every
  interleaving of the pumps, cancellations and closes, what the broker received is a prefix of what
  the client sent and what the client received is a prefix of what the broker sent; and while both
  sockets are open and a pump runs, everything it has read it has also written.
\<close>

theorem noop_transparent:
  assumes "(run_step (\<lambda>n. NoopInterceptor))\<^sup>*\<^sup>* (startRun (NewConn cfg client broker b1 b2) i) s"
  shows "(\<exists>n. written (coBrokerW (rnConn s)) = written (snd broker) @ take n (pending (fst client))) \<and>
    (\<exists>n. written (coClientW (rnConn s)) = written (snd client) @ take n (pending (fst broker))) \<and>
    (\<not> rnClosed s \<and> rnUp s = Running \<longrightarrow>
       written (coBrokerW (rnConn s)) @ pending (rstream (coClientR (rnConn s))) = written (snd broker) @ pending (fst client)) \<and>
    (\<not> rnClosed s \<and> rnDown s = Running \<longrightarrow>
       written (coClientW (rnConn s)) @ pending (rstream (coBrokerR (rnConn s))) = written (snd client) @ pending (fst broker))"
proof -
  note inv = relayInv_run [OF assms, unfolded relayInv_def]
  have "relayed (pending (fst client)) (written (snd broker)) False (coClientR (rnConn s)) (coBrokerW (rnConn s))"
    "relayed (pending (fst broker)) (written (snd client)) False (coBrokerR (rnConn s)) (coClientW (rnConn s))"
    using inv by (blast intro: relayed_dead)+
  then show ?thesis using inv by (auto simp: relayed_def)
qed

section \<open>Winding down\<close>

text \<open>
  The errors received so far are those of the pumps that returned; the first one decides, unless the
  context was cancelled.
\<close>

definition verdict :: "connErr \<Rightarrow> connErr option" where
  "verdict e = (if isExpectedShutdownErr e then None else Some e)"

definition errInv :: "('i, 'f) Run \<Rightarrow> bool" where
  "errInv s \<longleftrightarrow>
     (rnUp s = Running \<and> rnDown s = Running \<longleftrightarrow> rnErrCh s = []) \<and>
     (\<forall>e \<in> set (rnErrCh s). rnUp s = Exited e \<or> rnDown s = Exited e) \<and>
     (\<forall>e. rnCloseErr s = Some e \<longrightarrow>
        rnClosed s \<and> \<not> isExpectedShutdownErr e \<and> (\<exists>es. rnErrCh s = e # es)) \<and>
     (rnClosed s \<and> \<not> rnCtxDone s \<longrightarrow> rnErrCh s \<noteq> [] \<and> rnCloseErr s = verdict (hd (rnErrCh s)))"

lemma errInv_up: "errInv s \<Longrightarrow> rnUp s = Running \<Longrightarrow> errInv (upStep hk pe s)"
  by (auto simp: errInv_def upStep_def split: prod.splits option.splits)

lemma errInv_down: "errInv s \<Longrightarrow> rnDown s = Running \<Longrightarrow> errInv (downStep hk pe s)"
  by (auto simp: errInv_def downStep_def split: prod.splits option.splits)

lemma errInv_cancel: "errInv s \<Longrightarrow> rnCtxDone s \<Longrightarrow> errInv (closeBoth None s)"
  by (simp add: errInv_def closeBoth_def)

lemma errInv_ctx: "errInv s \<Longrightarrow> errInv (s\<lparr>rnCtxDone := True\<rparr>)"
  by (simp add: errInv_def)

lemma errInv_collect: "errInv s \<Longrightarrow> rnErrCh s = e # es \<Longrightarrow> errInv (closeBoth (Some e) s)"
proof (cases "rnClosed s")
  case False
  assume inv: "errInv s" and ch: "rnErrCh s = e # es"
  have closes: "rnCloseErr (closeBoth (Some e) s) = verdict e" using False by (simp add: closeBoth_def verdict_def)
  show "errInv (closeBoth (Some e) s)"
    using inv unfolding errInv_def closes close_simps
    by (intro conjI) (simp_all add: ch verdict_def close_simps split: if_splits)
qed (simp add: closeBoth_def)

lemma errInv_step: "run_step hk s s' \<Longrightarrow> errInv s \<Longrightarrow> errInv s'"
  by (induction rule: run_step.induct) (auto intro: errInv_up errInv_down errInv_ctx errInv_cancel errInv_collect)

lemma errInv_start: "errInv (startRun c i)"
  by (simp add: errInv_def startRun_def)

interpretation erring: step_system "run_step hk" "startRun c i" errInv for hk c i
  by unfold_locales (fact errInv_start, fact errInv_step)

lemma closed_exits:
  assumes "closedInv s" "rnClosed s"
  shows "rnUp (upStep hk pe s) \<noteq> Running" "rnDown (downStep hk pe s) \<noteq> Running"
  using assms closed_up [of "rnConn s" hk pe "rnIc s"] closed_down [of "rnConn s" hk pe "rnIc s"]
  by (fastforce simp: closedInv_def upStep_def downStep_def split: prod.splits option.splits)+

definition quietPump :: PumpEnv where
  "quietPump = \<lparr>peDeadline = None, peSent = 0, peNow = 0\<rparr>"

lemma closed_returns:
  assumes "closedInv s" "rnClosed s"
  shows "\<exists>s'. (run_step hk)\<^sup>*\<^sup>* s s' \<and> returned s' \<and> rnCtxDone s' = rnCtxDone s"
proof -
  define s1 where "s1 = (if rnUp s = Running then upStep (hk 0) quietPump s else s)"
  have s1: "(run_step hk)\<^sup>*\<^sup>* s s1" "rnUp s1 \<noteq> Running" "closedInv s1" "rnClosed s1" "rnCtxDone s1 = rnCtxDone s"
    using assms closed_exits(1) [OF assms] by (auto simp: s1_def closedInv_up intro: run_step.up)
  define s2 where "s2 = (if rnDown s1 = Running then downStep (hk 0) quietPump s1 else s1)"
  have "(run_step hk)\<^sup>*\<^sup>* s1 s2" "returned s2" "rnCtxDone s2 = rnCtxDone s"
    using s1 closed_exits(2) [OF s1(3,4)] by (auto simp: s2_def returned_def intro: run_step.down)
  with s1(1) show ?thesis by (meson rtranclp_trans)
qed

text \<open>
  C6: \<open>Run\<close> winds down.  Once a pump has returned or the context was cancelled the sockets can be
  closed; on closed sockets a running pump stops in its next iteration, without forwarding anything,
  so that \<open>Run\<close> can return.  Without a cancellation the sockets are closed only after a pump has stopped, and
  \<open>Run\<close> then returns the error of the pump that stopped first, unless that error is an expected one (end
  of stream, closed socket): then it returns nil, whatever the other pump reports.  With a
  cancellation it returns nil or that same error.
\<close>

theorem run_winds_down:
  assumes "(run_step hk)\<^sup>*\<^sup>* (startRun c i) s"
  shows "(rnClosed s \<longrightarrow> rnUp (upStep h pe s) \<noteq> Running \<and> rnDown (downStep h pe s) \<noteq> Running \<and>
      rnConn (upStep h pe s) = rnConn s \<and> rnConn (downStep h pe s) = rnConn s) \<and>
    (rnUp s \<noteq> Running \<or> rnDown s \<noteq> Running \<or> rnCtxDone s \<longrightarrow>
      (\<exists>s'. (run_step hk)\<^sup>*\<^sup>* s s' \<and> returned s' \<and> rnCtxDone s' = rnCtxDone s)) \<and>
    (rnClosed s \<and> \<not> rnCtxDone s \<longrightarrow> (\<exists>e es. rnErrCh s = e # es \<and> (rnUp s = Exited e \<or> rnDown s = Exited e) \<and>
      rnCloseErr s = (if isExpectedShutdownErr e then None else Some e))) \<and>
    (\<forall>e. rnCloseErr s = Some e \<longrightarrow> rnClosed s \<and> \<not> isExpectedShutdownErr e \<and> (\<exists>es. rnErrCh s = e # es) \<and>
      (rnUp s = Exited e \<or> rnDown s = Exited e))"
proof -
  note inv = closing.reachable [OF assms] and err = erring.reachable [OF assms]
  have "\<exists>s'. (run_step hk)\<^sup>*\<^sup>* s s' \<and> returned s' \<and> rnCtxDone s' = rnCtxDone s"
    if ex: "rnUp s \<noteq> Running \<or> rnDown s \<noteq> Running \<or> rnCtxDone s"
  proof -
    have "rnErrCh s \<noteq> [] \<or> rnCtxDone s" using err ex by (auto simp: errInv_def)
    then obtain e where step: "run_step hk s (closeBoth e s)"
      using run_step.collect run_step.cancel by (metis neq_Nil_conv)
    show ?thesis
      using closed_returns [OF closedInv_close [OF inv] close_simps(3), of hk e] step
      unfolding close_simps(6) by (meson converse_rtranclp_into_rtranclp)
  qed
  moreover have "rnConn (upStep h pe s) = rnConn s \<and> rnConn (downStep h pe s) = rnConn s" if "rnClosed s"
    using that inv closed_up [of "rnConn s" h pe "rnIc s"] closed_down [of "rnConn s" h pe "rnIc s"]
    by (auto simp: closedInv_def upStep_def downStep_def split: prod.splits option.splits)
  moreover have "\<exists>e es. rnErrCh s = e # es \<and> (rnUp s = Exited e \<or> rnDown s = Exited e) \<and>
      rnCloseErr s = (if isExpectedShutdownErr e then None else Some e)" if shut: "rnClosed s \<and> \<not> rnCtxDone s"
  proof -
    obtain e es where "rnErrCh s = e # es" "rnCloseErr s = verdict e"
      using err shut by (cases "rnErrCh s") (simp_all add: errInv_def)
    then show ?thesis using err unfolding errInv_def verdict_def by (metis list.set_intros(1))
  qed
  moreover have "rnClosed s \<and> \<not> isExpectedShutdownErr e \<and> (\<exists>es. rnErrCh s = e # es) \<and> (rnUp s = Exited e \<or> rnDown s = Exited e)"
    if "rnCloseErr s = Some e" for e
    using err that unfolding errInv_def by (metis list.set_intros(1))
  ultimately show ?thesis using closed_exits [OF inv] by blast
qed

section \<open>Examples\<close>

text \<open>
  A connection with one request frame (ApiKey 3, version 0, correlation id 9) and one response frame
  waiting, and an interceptor that wants every response replaced by the byte 77.
\<close>

definition sampleConn :: "unit Conn" where
  "sampleConn = NewConn \<lparr>cfgMaxFrameSize = 100, cfgIdleTimeout = 0, cfgMaxInflight = 1, cfgPendingMaxAge = 0, cfgFrames = None\<rparr>
     (\<lparr>pending = [0,0,0,11, 0,3, 0,0, 0,0,0,9, 255,255, 5], ending = EOF\<rparr>, \<lparr>written = [], room = 100, wfault = EOF\<rparr>)
     (\<lparr>pending = [0,0,0,6, 0,0,0,9, 1,2], ending = EOF\<rparr>, \<lparr>written = [], room = 100, wfault = EOF\<rparr>)
     \<lparr>backing = [], blen = 0\<rparr> \<lparr>backing = [], blen = 0\<rparr>"

definition sampleHooks :: "(unit, unit) Hooks" where
  "sampleHooks =
     \<lparr>hkOnRequest = (\<lambda>h body i. (Some \<lparr>pAPIKey = 0, pAPIVersion = 0, pCorrelID = 0, pSent = 0,
        pRewrite = Some (), pRewriteRequest = None\<rparr>, i)),
      hkRewrite = (\<lambda>i f dst body p. (Inr (dst @ [77]), i))\<rparr>"

definition sampleForwarded :: "unit Conn" where
  "sampleForwarded = fst (snd (upstreamPump sampleHooks quietPump sampleConn ()))"

lemma sampleConn_simps:
  "trackerInv (coTracker sampleConn)" "setDeadline quietPump sampleConn = None"
  "coBrokerW sampleConn = \<lparr>written = [], room = 100, wfault = EOF\<rparr>"
  "coClientW sampleConn = \<lparr>written = [], room = 100, wfault = EOF\<rparr>"
  by (simp_all add: sampleConn_def NewConn_def Let_def NewTracker_inv setDeadline_def)

theorem rewrite_never_bypassed_witness:
  "map_option pAPIKey (findPending (coTracker sampleForwarded) 9) = Some 3 \<and>
   written (coBrokerW sampleForwarded) = [0,0,0,11, 0,3, 0,0, 0,0,0,9, 255,255, 5]"
proof -
  let ?body = "[0,3, 0,0, 0,0,0,9, 255,255, 5] :: bytes"
  let ?h = "\<lparr>APIKey = 3, APIVersion = 0, CorrelID = 9, ClientID = '''', ClientNull = True, HeaderSize = 10\<rparr>"
  let ?p = "\<lparr>pAPIKey = 0, pAPIVersion = 0, pCorrelID = 0, pSent = 0, pRewrite = Some (), pRewriteRequest = None\<rparr>"
  obtain b r where read: "ReadFrame (coClientR sampleConn) (coUpBuf sampleConn) = Inr (?body, b, r)"
    by (simp add: sampleConn_def NewConn_def ReadFrame_def ReadFull_def NewReader_def grow_def Bytes_b_def Let_def)
  have head: "DecodeRequestHeader ?body = Inr ?h" by code_simp
  have req: "hkOnRequest sampleHooks ?h (drop (HeaderSize ?h) ?body) () = (Some ?p, ())"
    by (simp add: sampleHooks_def)
  have reg: "fst (Register (peNow quietPump) (coTracker sampleConn) (stampPending ?h (peSent quietPump) ?p))"
    by code_simp
  have pump: "upstreamPump sampleHooks quietPump sampleConn () = (None, sampleForwarded, ())"
  proof -
    have "fst (upstreamPump sampleHooks quietPump sampleConn ()) = None"
      using reg
      by (auto simp: upstreamPump_def sampleConn_simps read head handleRequest_def sampleHooks_def Let_def forwardUp_def spliceRequest_def
          stampPending_def WriteFrame_def Write_def split: prod.split option.split)
    then show ?thesis unfolding sampleForwarded_def by (simp add: prod_eq_iff)
  qed
  from rewrite_never_bypassed [OF sampleConn_simps(1,2) read head req _ pump] reg show ?thesis
    by (simp add: stampPending_def spliceRequest_def sampleConn_simps encFrame_def AppendInt32_def)
qed

definition sampleMatched :: "unit Conn" where
  "sampleMatched = sampleConn\<lparr>coTracker := (coTracker sampleConn)\<lparr>entries :=
     [(9, \<lparr>pAPIKey = 3, pAPIVersion = 0, pCorrelID = 9, pSent = 0, pRewrite = Some (), pRewriteRequest = None\<rparr>)]\<rparr>\<rparr>"

theorem response_matched_witness:
  "\<exists>c'. downstreamPump sampleHooks quietPump sampleMatched () = (None, c', ()) \<and>
     written (coClientW c') = [0,0,0,5, 0,0,0,9, 77]"
proof -
  let ?body = "[0,0,0,9, 1,2] :: bytes"
  let ?p = "\<lparr>pAPIKey = 3, pAPIVersion = 0, pCorrelID = 9, pSent = 0, pRewrite = Some (), pRewriteRequest = None\<rparr>"
  obtain b r where read: "ReadFrame (coBrokerR sampleMatched) (coDownBuf sampleMatched) = Inr (?body, b, r)"
    by (simp add: sampleMatched_def sampleConn_def NewConn_def ReadFrame_def ReadFull_def NewReader_def grow_def
        Bytes_b_def Let_def)
  have inv: "trackerInv (coTracker sampleMatched)"
    by (simp add: sampleMatched_def sampleConn_def NewConn_def NewTracker_def Let_def trackerInv_def wfmap_def mkeys_def mget_def)
  have peek: "PeekResponseCorrelID ?body = Inr 9" by code_simp
  have head: "DecodeResponseHeader ?body 3 0 = Inr \<lparr>RespCorrelID = 9, RespHeaderSize = 4\<rparr>" by code_simp
  have enc: "AppendResponseHeader [] 3 0 9 = [0,0,0,9]" by code_simp
  have found: "findPending (coTracker sampleMatched) 9 = Some ?p"
    by (simp add: sampleMatched_def findPending_def mget_def)
  have dl: "setDeadline quietPump sampleMatched = None"
    and cw: "coClientW sampleMatched = \<lparr>written = [], room = 100, wfault = EOF\<rparr>"
    by (simp_all add: sampleMatched_def setDeadline_def quietPump_def sampleConn_simps)
  have "fst (downstreamPump sampleHooks quietPump sampleMatched ()) = None"
    using found dl cw
    by (simp add: downstreamPump_def read peek Take_def findPending_def Let_def handleResponse_def head enc sampleHooks_def
        forwardDown_def WriteFrame_def Write_def split: prod.split option.split)
  then obtain c' where pump: "downstreamPump sampleHooks quietPump sampleMatched () = (None, c', ())"
    by (metis prod.collapse old.unit.exhaust)
  from response_matched [OF inv read peek pump] have "written (coClientW c') = [0,0,0,5, 0,0,0,9, 77]"
    by (simp add: found head enc cw sampleHooks_def encFrame_def AppendInt32_def)
  with pump show ?thesis by blast
qed

theorem noop_transparent_witness:
  "\<exists>n. written (coBrokerW (rnConn (upStep NoopInterceptor quietPump (startRun sampleConn ()))))
     = take n [0,0,0,11, 0,3, 0,0, 0,0,0,9, 255,255, 5]"
proof -
  have "(run_step (\<lambda>n. NoopInterceptor))\<^sup>*\<^sup>* (startRun sampleConn ()) (upStep NoopInterceptor quietPump (startRun sampleConn ()))"
    by (intro r_into_rtranclp run_step.up) (simp add: startRun_def)
  from noop_transparent [OF this [unfolded sampleConn_def]] show ?thesis by (simp add: sampleConn_def)
qed

text \<open>A client whose first frame holds a single byte: no request header.\<close>

definition brokenConn :: "unit Conn" where
  "brokenConn = sampleConn\<lparr>coClientR := NewReader \<lparr>pending = [0,0,0,1, 7], ending = EOF\<rparr> 100\<rparr>"

theorem run_winds_down_witness:
  "\<exists>s e. (run_step (\<lambda>n. sampleHooks))\<^sup>*\<^sup>* (startRun brokenConn ()) s \<and> rnUp s = Exited e \<and> rnClosed s \<and>
     rnCloseErr s = Some e \<and> rnDown (downStep sampleHooks quietPump s) \<noteq> Running \<and>
     (\<exists>s'. (run_step (\<lambda>n. sampleHooks))\<^sup>*\<^sup>* s s' \<and> returned s')"
proof -
  let ?s0 = "startRun brokenConn ()"
  let ?s1 = "upStep sampleHooks quietPump ?s0"
  obtain b r where read: "ReadFrame (coClientR brokenConn) (coUpBuf brokenConn) = Inr ([7], b, r)"
    by (simp add: brokenConn_def sampleConn_def NewConn_def ReadFrame_def ReadFull_def NewReader_def grow_def Bytes_b_def Let_def)
  have "case DecodeRequestHeader [7] of Inl e \<Rightarrow> True | Inr h \<Rightarrow> False" by code_simp
  then obtain e where head: "DecodeRequestHeader [7] = Inl e" by (auto split: sum.splits)
  let ?e = "HeaderErr 1 e"
  have "setDeadline quietPump brokenConn = None"
    by (simp add: brokenConn_def sampleConn_def NewConn_def Let_def setDeadline_def)
  then have up: "rnUp ?s1 = Exited ?e" "rnErrCh ?s1 = [?e]" "rnCtxDone ?s1 = False"
    by (simp_all add: upStep_def upstreamPump_def startRun_def read head)
  have "(run_step (\<lambda>n. sampleHooks))\<^sup>*\<^sup>* ?s0 ?s1"
    by (intro r_into_rtranclp run_step.up) (simp add: startRun_def)
  then have reach: "(run_step (\<lambda>n. sampleHooks))\<^sup>*\<^sup>* ?s0 (closeBoth (Some ?e) ?s1)"
    by (rule rtranclp.rtrancl_into_rtrancl) (rule run_step.collect [OF up(2)])
  from run_winds_down [OF this, of sampleHooks quietPump] show ?thesis
    using reach up by (intro exI [of _ "closeBoth (Some ?e) ?s1"] exI [of _ ?e]) (auto simp: close_simps)
qed

end
