(* ===== verification/Snapshots.thy ===== *)
theory Snapshots
  imports GoMap
begin

text \<open>
  The immutable snapshots that the background pollers publish and that the interceptor reads:
  \<open>metadata.Snapshot\<close> of \<open>internal/metadata/cache.go\<close> and \<open>telemetry.Snapshot\<close> of
  \<open>internal/telemetry/snapshot.go\<close>, with the box that holds the latter.  A \<open>time.Time\<close> is a number of
  nanoseconds.
\<close>

section \<open>Metadata\<close>

record Broker =
  brHost :: string
  brPort :: int32

record MetaSnapshot =
  msBuiltAt :: int
  msByTopic :: "(string, int32 list) gomap"
  msBrokerByID :: "(int32, Broker) gomap"

section \<open>Telemetry\<close>

record MemberLoad =
  mlMemberID :: string
  mlAssignedPartitions :: int
  mlLagMessages :: int64
  mlLatencyMicros :: int64

record GroupLoad =
  glGroupID :: string
  glMembers :: "(string, MemberLoad) gomap"

record LoadSnapshot =
  lsBuiltAt :: int
  lsGroups :: "(string, GroupLoad) gomap"

record Holder =
  hCur :: "LoadSnapshot option"

definition Get_holder :: "Holder \<Rightarrow> LoadSnapshot option" where
  "Get_holder h = hCur h"

definition Store_holder :: "Holder \<Rightarrow> LoadSnapshot \<Rightarrow> Holder" where
  "Store_holder h s = h\<lparr>hCur := Some s\<rparr>"

definition EmptySnapshot :: "int \<Rightarrow> LoadSnapshot" where
  "EmptySnapshot now = \<lparr>lsBuiltAt = now, lsGroups = []\<rparr>"

end
