(* ===== verification/Interceptor.thy ===== *)
theory Interceptor
  imports PlanCorrect SubscriptionStore Tracker Topology GroupCodecs Snapshots Metrics
begin

text \<open>
  \<open>internal/interceptor/interceptor.go\<close>: the one interceptor that all connections share.  It
  records subscriptions from JoinGroup requests, replaces the assignments of the leader's SyncGroup
  request by a plan, and has the Metadata and FindCoordinator responses rewritten.

  The state that the handlers change (subscription store, metrics, the rewrite counter) is the
  record \<open>Interceptor\<close>.  What a call finds in its surroundings is the record \<open>Env\<close>: the clock, the
  answer of the planner pool, the order in which Go iterates a map, and the case folding of
  non-ASCII host names.
\<close>

section \<open>Data\<close>

datatype planErr = PlanClosed | PlanCtx

record Deps =
  dTopology :: "Mapping option"
  dMetadata :: "MetaSnapshot option option"
  dTelemetry :: "LoadSnapshot option option"
  dHasPlanner :: bool
  dPlanTimeout :: int

record Interceptor =
  icDeps :: Deps
  icSubscription :: "Store option"
  icMetrics :: "Metrics option"
  icSyncGroupRewrites :: int64

record Env =
  envNow :: int
  envPlan :: "Inputs \<Rightarrow> planErr + Plan \<times> int64"
  envRange :: "(string, int32 list) gomap \<Rightarrow> (string, int32 list) gomap"
  envFold :: "string \<Rightarrow> string"

text \<open>The response rewriters that a pending request can carry.\<close>

datatype RewriteFn = RewriteMetadataResp | RewriteFindCoordResp

definition NewInterceptor :: "Deps \<Rightarrow> Store option \<Rightarrow> Metrics option \<Rightarrow> Interceptor" where
  "NewInterceptor d st mx =
     \<lparr>icDeps = (if dPlanTimeout d \<le> 0 then d\<lparr>dPlanTimeout := 2 * second\<rparr> else d),
      icSubscription = st, icMetrics = mx, icSyncGroupRewrites = 0\<rparr>"

definition onMetrics :: "(Metrics \<Rightarrow> Metrics) \<Rightarrow> Interceptor \<Rightarrow> Interceptor" where
  "onMetrics f ic = ic\<lparr>icMetrics := map_option f (icMetrics ic)\<rparr>"

definition bumpPassthru :: "Interceptor \<Rightarrow> Interceptor" where
  "bumpPassthru = onMetrics (\<lambda>m. m\<lparr>InterceptsPassthru := InterceptsPassthru m + 1\<rparr>)"

definition bumpErr :: "Interceptor \<Rightarrow> Interceptor" where
  "bumpErr = onMetrics (\<lambda>m. m\<lparr>InterceptsError := InterceptsError m + 1\<rparr>)"

definition newPending :: "RequestHeader \<Rightarrow> RewriteFn option \<Rightarrow> bytes option \<Rightarrow> RewriteFn Pending" where
  "newPending h rw req = \<lparr>pAPIKey = APIKey h, pAPIVersion = APIVersion h, pCorrelID = 0, pSent = 0,
     pRewrite = rw, pRewriteRequest = req\<rparr>"

section \<open>Metadata and FindCoordinator\<close>

definition noTopology :: "Deps \<Rightarrow> bool" where
  "noTopology d \<longleftrightarrow> (case dTopology d of None \<Rightarrow> True | Some m \<Rightarrow> Len_mapping (Some m) = 0)"

definition onMetadata :: "RequestHeader \<Rightarrow> Interceptor \<Rightarrow> RewriteFn Pending option \<times> Interceptor" where
  "onMetadata h ic =
     (if noTopology (icDeps ic) then (None, bumpPassthru ic)
      else (Some (newPending h (Some RewriteMetadataResp) None), ic))"

definition rewriteMetadataResp ::
  "Env \<Rightarrow> Interceptor \<Rightarrow> bytes \<Rightarrow> bytes \<Rightarrow> RewriteFn Pending \<Rightarrow> (kerr + bytes) \<times> Interceptor" where
  "rewriteMetadataResp env ic dst body p =
     (case DecodeMetadataResponse body (pAPIVersion p) of
        Inl err \<Rightarrow> (Inl err, bumpErr ic)
      | Inr r \<Rightarrow>
          let (n, r') = RewriteMetadataResponse (envFold env) r (dTopology (icDeps ic));
              missed = int (length (mrBrokers r')) - int n;
              ic' = onMetrics (\<lambda>m. let m = m\<lparr>InterceptsRewrote := InterceptsRewrote m + 1\<rparr> in
                       if missed > 0 then m\<lparr>UnmappedBrokers := UnmappedBrokers m + of_int missed\<rparr> else m) ic
          in (Inr (AppendMetadataResponse dst r'), ic'))"

definition onFindCoordinator :: "RequestHeader \<Rightarrow> Interceptor \<Rightarrow> RewriteFn Pending option \<times> Interceptor" where
  "onFindCoordinator h ic =
     (if noTopology (icDeps ic) then (None, bumpPassthru ic)
      else (Some (newPending h (Some RewriteFindCoordResp) None), ic))"

definition rewriteFindCoordResp ::
  "Env \<Rightarrow> Interceptor \<Rightarrow> bytes \<Rightarrow> bytes \<Rightarrow> RewriteFn Pending \<Rightarrow> (kerr + bytes) \<times> Interceptor" where
  "rewriteFindCoordResp env ic dst body p =
     (case DecodeFindCoordinatorResponse body (pAPIVersion p) of
        Inl err \<Rightarrow> (Inl err, bumpErr ic)
      | Inr r \<Rightarrow>
          let r' = snd (RewriteFindCoordinatorResponse (envFold env) r (dTopology (icDeps ic)));
              ic' = onMetrics (\<lambda>m. m\<lparr>InterceptsRewrote := InterceptsRewrote m + 1\<rparr>) ic
          in (Inr (AppendFindCoordinatorResponse dst r'), ic'))"

section \<open>JoinGroup\<close>

definition onJoinGroup ::
  "Env \<Rightarrow> RequestHeader \<Rightarrow> bytes \<Rightarrow> Interceptor \<Rightarrow> RewriteFn Pending option \<times> Interceptor" where
  "onJoinGroup env h body ic =
     (case icSubscription ic of
        None \<Rightarrow> (None, bumpPassthru ic)
      | Some st \<Rightarrow>
          (case DecodeJoinGroupRequest body (APIVersion h) of
             Inl _ \<Rightarrow> (None, bumpErr ic)
           | Inr jg \<Rightarrow>
               if jgProtocols jg = [] \<or> jgMemberID jg = '''' then (None, bumpPassthru ic)
               else (case DecodeSubscription (jpMetadata (hd (jgProtocols jg))) of
                       Inl _ \<Rightarrow> (None, bumpErr ic)
                     | Inr sub \<Rightarrow>
                         let st' = snd (Put (envNow env) st
                               \<lparr>sbGroupID = jgGroup jg, sbMemberID = jgMemberID jg, sbTopics = suTopics sub,
                                sbOwnedPartitions = suOwnedPartitions sub,
                                sbGenerationID = suGenerationID sub, sbUpdatedAt = 0\<rparr>);
                             ic' = bumpPassthru (ic\<lparr>icSubscription := Some st'\<rparr>)
                         in (None, onMetrics (\<lambda>m. m\<lparr>SubscriptionLen := of_nat (Len_store st')\<rparr>) ic'))))"

section \<open>SyncGroup\<close>

definition lagFor :: "LoadSnapshot option option \<Rightarrow> string \<Rightarrow> string \<Rightarrow> int64" where
  "lagFor tel grp member =
     (case tel of
        Some (Some snap) \<Rightarrow>
          (case mget (lsGroups snap) grp of
             Some gl \<Rightarrow> (case mget (glMembers gl) member of Some ml \<Rightarrow> mlLagMessages ml | None \<Rightarrow> 0)
           | None \<Rightarrow> 0)
      | _ \<Rightarrow> 0)"

fun planMembers ::
  "Store \<Rightarrow> LoadSnapshot option option \<Rightarrow> string \<Rightarrow> SyncGroupAssignment list \<Rightarrow> Member list" where
  "planMembers st tel grp [] = []"
| "planMembers st tel grp (a # as) =
     (case Get_sub st grp (saMemberID a) of
        None \<Rightarrow> planMembers st tel grp as
      | Some sub \<Rightarrow>
          \<lparr>mMemberID = saMemberID a, mTopics = sbTopics sub, mLag = lagFor tel grp (saMemberID a)\<rparr>
            # planMembers st tel grp as)"

definition addTopicParts ::
  "MetaSnapshot \<Rightarrow> (string, int32 list) gomap \<Rightarrow> string \<Rightarrow> (string, int32 list) gomap" where
  "addTopicParts snap parts t =
     (if mget parts t \<noteq> None then parts
      else let ps = mgetOr [] (msByTopic snap) t in
           if length ps > 0 then mput t ps parts else parts)"

definition planPartitions :: "MetaSnapshot option option \<Rightarrow> Member list \<Rightarrow> (string, int32 list) gomap" where
  "planPartitions md members =
     (case md of
        Some (Some snap) \<Rightarrow> foldl (\<lambda>parts m. foldl (addTopicParts snap) parts (mTopics m)) [] members
      | _ \<Rightarrow> [])"

definition plannedAssignment :: "Env \<Rightarrow> (string, int32 list) gomap \<Rightarrow> Assignment" where
  "plannedAssignment env byTopic =
     \<lparr>asVersion = 0, asPartitions = map (\<lambda>(topic, parts). \<lparr>tpTopic = topic, tpPartitions = parts\<rparr>) (envRange env byTopic),
      asUserData = [], asUserDataNull = True, asRackID = '''', asRackIDNull = False, asRackIDPresent = False\<rparr>"

definition encodeAssignment :: "Env \<Rightarrow> (string, int32 list) gomap \<Rightarrow> bytes" where
  "encodeAssignment env byTopic = AppendAssignment [] (plannedAssignment env byTopic)"

definition plannedRequest :: "Env \<Rightarrow> SyncGroupRequest \<Rightarrow> Plan \<Rightarrow> SyncGroupRequest" where
  "plannedRequest env sg pl =
     sg\<lparr>sgAssignments := map (\<lambda>a. \<lparr>saMemberID = saMemberID a,
          saMemberAssignment = encodeAssignment env (mgetOr [] pl (saMemberID a)), saMAIsNull = False\<rparr>)
        (sgAssignments sg)\<rparr>"

definition onSyncGroup ::
  "Env \<Rightarrow> RequestHeader \<Rightarrow> bytes \<Rightarrow> Interceptor \<Rightarrow> RewriteFn Pending option \<times> Interceptor" where
  "onSyncGroup env h body ic =
     (case icSubscription ic of
        None \<Rightarrow> (None, bumpPassthru ic)
      | Some st \<Rightarrow>
      if \<not> dHasPlanner (icDeps ic) then (None, bumpPassthru ic)
      else case DecodeSyncGroupRequest body (APIVersion h) of
        Inl _ \<Rightarrow> (None, bumpErr ic)
      | Inr sg \<Rightarrow>
      if length (sgAssignments sg) = 0 then (None, bumpPassthru ic)
      else let members = planMembers st (dTelemetry (icDeps ic)) (sgGroup sg) (sgAssignments sg) in
      if length members = 0 then (None, bumpPassthru ic)
      else let parts = planPartitions (dMetadata (icDeps ic)) members in
      if length parts = 0 then (None, bumpPassthru ic)
      else case envPlan env \<lparr>inGroupID = sgGroup sg, inMembers = members, inPartitions = parts, inPrevious = None\<rparr> of
        Inl _ \<Rightarrow> (None, onMetrics (\<lambda>m. m\<lparr>InterceptsTimeout := InterceptsTimeout m + 1\<rparr>) ic)
      | Inr (pl, dur) \<Rightarrow>
          let ic1 = onMetrics (\<lambda>m. m\<lparr>PlanCount := PlanCount m + 1,
                      PlanDurationNanosSum := PlanDurationNanosSum m + dur\<rparr>) ic;
              req = AppendSyncGroupRequest [] (plannedRequest env sg pl)
          in (Some (newPending h None (Some req)),
              ic1\<lparr>icSyncGroupRewrites := icSyncGroupRewrites ic1 + 1\<rparr>))"

definition SyncGroupRewrites :: "Interceptor \<Rightarrow> int64" where
  "SyncGroupRewrites ic = icSyncGroupRewrites ic"

section \<open>Dispatch\<close>

definition OnRequest ::
  "Env \<Rightarrow> RequestHeader \<Rightarrow> bytes \<Rightarrow> Interceptor \<Rightarrow> RewriteFn Pending option \<times> Interceptor" where
  "OnRequest env h body ic =
     (let ic1 = onMetrics (\<lambda>m. m\<lparr>InterceptsTotal := InterceptsTotal m + 1\<rparr>) ic in
      if APIKey h = APIMetadata then onMetadata h ic1
      else if APIKey h = APIFindCoordinator then onFindCoordinator h ic1
      else if APIKey h = APIJoinGroup then onJoinGroup env h body ic1
      else if APIKey h = APISyncGroup then onSyncGroup env h body ic1
      else (None, bumpPassthru ic1))"

text \<open>The call \<open>p.Rewrite(dst, body, p)\<close> of the downstream pump.\<close>

definition applyRewrite ::
  "Env \<Rightarrow> Interceptor \<Rightarrow> RewriteFn \<Rightarrow> bytes \<Rightarrow> bytes \<Rightarrow> RewriteFn Pending \<Rightarrow> (kerr + bytes) \<times> Interceptor" where
  "applyRewrite env ic rw dst body p =
     (case rw of
        RewriteMetadataResp \<Rightarrow> rewriteMetadataResp env ic dst body p
      | RewriteFindCoordResp \<Rightarrow> rewriteFindCoordResp env ic dst body p)"

end
