(* ===== verification/InterceptorCorrect.thy ===== *)
theory InterceptorCorrect
  imports Interceptor
begin

text \<open>
  What the interceptor does to the traffic: the rewritten responses as a client decodes them, the
  subscriptions recorded from JoinGroup, the planned SyncGroup request as a broker decodes it, and
  the accounting of every request in the metrics.
\<close>

section \<open>Rewritten responses\<close>

text \<open>Every advertised host fits the length prefix of a string.\<close>

definition advertisedFit :: "bool \<Rightarrow> Mapping \<Rightarrow> bool" where
  "advertisedFit flex m \<longleftrightarrow>
     list_all (\<lambda>(n, e). strOk flex (epHost e)) (byNodeID m) \<and>
     list_all (\<lambda>(k, e). strOk flex (epHost e)) (byHostPt m)"

lemma mget_in: "mget m k = Some v \<Longrightarrow> (k, v) \<in> set m"
  by (simp add: mget_def map_of_SomeD)

lemma Lookup_fits:
  assumes "advertisedFit flex m" "Lookup uni (Some m) n h p = Some e"
  shows "strOk flex (epHost e)"
  using assms by (auto simp: advertisedFit_def Lookup_def list_all_iff dest!: mget_in split: option.splits if_splits)

lemma rewriteBroker_wf:
  "advertisedFit flex m \<Longrightarrow> wfMetadataBroker ver flex b \<Longrightarrow> wfMetadataBroker ver flex (rewriteBroker uni m b)"
  by (auto simp: rewriteBroker_def wfMetadataBroker_def Lookup_fits split: option.splits)

lemma rewriteEntry_wf:
  "advertisedFit flex m \<Longrightarrow> wfFindCoordEntry flex c \<Longrightarrow> wfFindCoordEntry flex (rewriteEntry uni m c)"
  by (auto simp: rewriteEntry_def wfFindCoordEntry_def Lookup_fits split: option.splits)

lemma rewriteMetadata_wf:
  assumes "advertisedFit (IsFlexibleResponse APIMetadata (mrVersion r)) m" "wfMetadataResponse r"
  shows "wfMetadataResponse (r\<lparr>mrBrokers := map (rewriteBroker uni m) (mrBrokers r)\<rparr>)"
  using assms rewriteBroker_wf [OF assms(1)]
  by (auto simp: wfMetadataResponse_def Let_def list_all_iff split: if_splits)

lemma rewriteFindCoord_version: "fcVersion (snd (RewriteFindCoordinatorResponse uni r m)) = fcVersion r"
  by (auto simp: RewriteFindCoordinatorResponse_def split: option.splits)

lemma rewriteFindCoord_wf:
  assumes "advertisedFit (IsFlexibleResponse APIFindCoordinator (fcVersion r)) m" "wfFindCoordinatorResponse r"
  shows "wfFindCoordinatorResponse (snd (RewriteFindCoordinatorResponse uni r (Some m)))"
  using assms rewriteEntry_wf [OF assms(1)] Lookup_fits [OF assms(1)]
  by (auto simp: wfFindCoordinatorResponse_def RewriteFindCoordinatorResponse_def Let_def list_all_iff
      split: if_splits option.splits)

lemma metadata_reencoded:
  assumes "DecodeMetadataResponse body ver = Inr r" "advertisedFit (IsFlexibleResponse APIMetadata ver) m"
  shows "DecodeMetadataResponse (AppendMetadataResponse [] (r\<lparr>mrBrokers := map (rewriteBroker uni m) (mrBrokers r)\<rparr>)) ver
    = Inr (r\<lparr>mrBrokers := map (rewriteBroker uni m) (mrBrokers r)\<rparr>)"
proof -
  have "mrVersion r = ver" "wfMetadataResponse r"
    using mresponse.transcode [of ver body r "[]"] assms(1) by (simp_all add: DecodeMetadataResponse_def)
  then show ?thesis
    using assms(2) rewriteMetadata_wf [of r m uni] unfolding DecodeMetadataResponse_def
    by (intro mresponse.roundtrip) simp
qed

lemma findcoord_reencoded:
  fixes uni :: "string \<Rightarrow> string"
  assumes "DecodeFindCoordinatorResponse body ver = Inr r"
    and "advertisedFit (IsFlexibleResponse APIFindCoordinator ver) m"
  defines "r' \<equiv> snd (RewriteFindCoordinatorResponse uni r (Some m))"
  shows "DecodeFindCoordinatorResponse (AppendFindCoordinatorResponse [] r') ver = Inr r'"
proof -
  have "fcVersion r = ver" "wfFindCoordinatorResponse r"
    using fcresponse.transcode [of ver body r "[]"] assms(1) by (simp_all add: DecodeFindCoordinatorResponse_def)
  then show ?thesis
    using assms(2) rewriteFindCoord_wf [of r m uni] unfolding DecodeFindCoordinatorResponse_def r'_def
    by (intro fcresponse.roundtrip) (simp add: rewriteFindCoord_version)
qed

text \<open>
  A Metadata response that decodes is rewritten into bytes that the client decodes, at the
  same version, to the same response except for the brokers' addresses: every broker that the
  topology knows has its advertised host and port, every other broker is as the cluster sent it,
  and the metrics count the response and the brokers that are not mapped.
\<close>

theorem metadata_rewrite_reaches_client:
  assumes "DecodeMetadataResponse body (pAPIVersion p) = Inr r" "dTopology (icDeps ic) = Some m"
    and "advertisedFit (IsFlexibleResponse APIMetadata (pAPIVersion p)) m"
  shows "\<exists>out r'. fst (rewriteMetadataResp env ic dst body p) = Inr (dst @ out) \<and>
    DecodeMetadataResponse out (pAPIVersion p) = Inr r' \<and> r' = r\<lparr>mrBrokers := mrBrokers r'\<rparr> \<and>
    list_all2 (\<lambda>b b'. b' = (case Lookup (envFold env) (Some m) (mbNodeID b) (mbHost b) (mbPort b) of
                              None \<Rightarrow> b | Some e \<Rightarrow> b\<lparr>mbHost := epHost e, mbPort := epPort e\<rparr>))
      (mrBrokers r) (mrBrokers r') \<and>
    icMetrics (snd (rewriteMetadataResp env ic dst body p)) =
      map_option (\<lambda>x. x\<lparr>InterceptsRewrote := InterceptsRewrote x + 1,
        UnmappedBrokers := UnmappedBrokers x + of_nat (length (filter
          (\<lambda>b. Lookup (envFold env) (Some m) (mbNodeID b) (mbHost b) (mbPort b) = None) (mrBrokers r)))\<rparr>) (icMetrics ic)"
proof -
  let ?r = "r\<lparr>mrBrokers := map (rewriteBroker (envFold env) m) (mrBrokers r)\<rparr>"
  have split: "length (mrBrokers r) = length (filter (brokerMapped (envFold env) m) (mrBrokers r))
      + length (filter (\<lambda>b. \<not> brokerMapped (envFold env) m b) (mrBrokers r))"
    by (simp add: sum_length_filter_compl)
  have "fst (rewriteMetadataResp env ic dst body p) = Inr (dst @ AppendMetadataResponse [] ?r)"
    using assms(1,2) mresponse.app_append [of dst ?r]
    by (simp add: rewriteMetadataResp_def RewriteMetadataResponse_def)
  moreover have "list_all2 (\<lambda>b b'. b' = (case Lookup (envFold env) (Some m) (mbNodeID b) (mbHost b) (mbPort b) of
      None \<Rightarrow> b | Some e \<Rightarrow> b\<lparr>mbHost := epHost e, mbPort := epPort e\<rparr>)) (mrBrokers r) (mrBrokers ?r)"
    by (auto simp: list_all2_conv_all_nth rewriteBroker_def split: option.splits)
  moreover have "icMetrics (snd (rewriteMetadataResp env ic dst body p)) =
      map_option (\<lambda>x. x\<lparr>InterceptsRewrote := InterceptsRewrote x + 1,
        UnmappedBrokers := UnmappedBrokers x + of_nat (length (filter
          (\<lambda>b. Lookup (envFold env) (Some m) (mbNodeID b) (mbHost b) (mbPort b) = None) (mrBrokers r)))\<rparr>) (icMetrics ic)"
    using assms(1,2) split
    by (auto simp: rewriteMetadataResp_def RewriteMetadataResponse_def onMetrics_def Let_def brokerMapped_def
        intro!: option.map_cong)
  ultimately show ?thesis
    using metadata_reencoded [OF assms(1,3), of "envFold env"]
    by (intro exI [of _ "AppendMetadataResponse [] ?r"] exI [of _ ?r]) simp
qed

text \<open>An interceptor with one mapped broker, node 7, advertised as \<open>p:19092\<close>, and a store of one member.\<close>

definition sampleMapping :: Mapping where
  "sampleMapping = \<lparr>byNodeID = [(7, \<lparr>epHost = ''p'', epPort = 19092\<rparr>)], byHostPt = []\<rparr>"

definition sampleStore :: Store where
  "sampleStore = snd (Put 5 (NewStore 0)
     \<lparr>sbGroupID = ''g'', sbMemberID = ''m'', sbTopics = [''t'', ''t''], sbOwnedPartitions = [],
      sbGenerationID = 0, sbUpdatedAt = 0\<rparr>)"

definition sampleDeps :: Deps where
  "sampleDeps = \<lparr>dTopology = Some sampleMapping,
     dMetadata = Some (Some \<lparr>msBuiltAt = 0, msByTopic = [(''t'', [1, 0])], msBrokerByID = []\<rparr>),
     dTelemetry = None, dHasPlanner = True, dPlanTimeout = 0\<rparr>"

definition sampleInterceptor :: Interceptor where
  "sampleInterceptor = NewInterceptor sampleDeps (Some sampleStore) (Some NewMetrics)"

definition sampleEnv :: Env where
  "sampleEnv = \<lparr>envNow = 9, envPlan = (\<lambda>input. Inr (Compute (\<lambda>xs. xs) input, 3)), envRange = rev, envFold = (\<lambda>s. s)\<rparr>"

definition samplePendingFor :: "RewriteFn \<Rightarrow> RewriteFn Pending" where
  "samplePendingFor rw = \<lparr>pAPIKey = 3, pAPIVersion = 0, pCorrelID = 4, pSent = 0, pRewrite = Some rw, pRewriteRequest = None\<rparr>"

lemma sample_topology:
  "dTopology (icDeps sampleInterceptor) = Some sampleMapping" "advertisedFit flex sampleMapping"
  by (simp_all add: sampleInterceptor_def NewInterceptor_def sampleDeps_def advertisedFit_def sampleMapping_def fits_defs)

theorem metadata_rewrite_reaches_client_witness:
  "\<exists>out r'. fst (rewriteMetadataResp sampleEnv sampleInterceptor []
        [0,0,0,1, 0,0,0,7, 0,1,98, 0,0,35,132, 0,0,0,0] (samplePendingFor RewriteMetadataResp)) = Inr out \<and>
     DecodeMetadataResponse out 0 = Inr r' \<and>
     map (\<lambda>b. (mbNodeID b, mbHost b, mbPort b)) (mrBrokers r') = [(7, ''p'', 19092)]"
proof -
  let ?p = "samplePendingFor RewriteMetadataResp"
  let ?body = "[0,0,0,1, 0,0,0,7, 0,1,98, 0,0,35,132, 0,0,0,0] :: bytes"
  let ?r = "\<lparr>mrVersion = 0, mrThrottleTimeMs = 0,
    mrBrokers = [\<lparr>mbNodeID = 7, mbHost = ''b'', mbPort = 9092, mbRack = '''', mbRackNull = False\<rparr>],
    mrClusterID = '''', mrClusterIDNull = False, mrControllerID = -1, mrTopics = [],
    mrClusterAuthorizedOperations = 0\<rparr>"
  have "DecodeMetadataResponse ?body (pAPIVersion ?p) = Inr ?r" by code_simp
  from metadata_rewrite_reaches_client [OF this sample_topology, of sampleEnv "[]"] show ?thesis
    by (auto simp: list_all2_Cons1 Lookup_def sampleMapping_def samplePendingFor_def mget_def)
qed

text \<open>The advertised endpoint of a coordinator that is no error entry.\<close>

definition coordinatorAs :: "Env \<Rightarrow> Mapping \<Rightarrow> int32 \<Rightarrow> string \<Rightarrow> int32 \<Rightarrow> Endpoint option" where
  "coordinatorAs env m n h pt =
     (if h = '''' \<or> sint pt \<le> 0 then None else Lookup (envFold env) (Some m) n h pt)"

text \<open>
  A FindCoordinator response that decodes is rewritten into bytes that the client decodes to
  the same response except for the coordinators' addresses: in the layout of one coordinator and
  in the batched one, every coordinator with a real address that the topology knows has its
  advertised address, and an error entry (empty host or no port) is untouched.
\<close>

theorem findcoordinator_rewrite_reaches_client:
  assumes "DecodeFindCoordinatorResponse body (pAPIVersion p) = Inr r" "dTopology (icDeps ic) = Some m"
    and "advertisedFit (IsFlexibleResponse APIFindCoordinator (pAPIVersion p)) m"
  shows "\<exists>out r'. fst (rewriteFindCoordResp env ic dst body p) = Inr (dst @ out) \<and>
    DecodeFindCoordinatorResponse out (pAPIVersion p) = Inr r' \<and>
    r' = r\<lparr>fcHost := fcHost r', fcPort := fcPort r', fcCoordinators := fcCoordinators r'\<rparr> \<and>
    (if sint (pAPIVersion p) \<le> 3
     then fcCoordinators r' = [] \<and>
       (fcHost r', fcPort r') = (case coordinatorAs env m (fcNodeID r) (fcHost r) (fcPort r) of
          None \<Rightarrow> (fcHost r, fcPort r) | Some e \<Rightarrow> (epHost e, epPort e))
     else fcHost r' = fcHost r \<and> fcPort r' = fcPort r \<and>
       list_all2 (\<lambda>c c'. c' = (case coordinatorAs env m (feNodeID c) (feHost c) (fePort c) of
          None \<Rightarrow> c | Some e \<Rightarrow> c\<lparr>feHost := epHost e, fePort := epPort e\<rparr>)) (fcCoordinators r) (fcCoordinators r'))"
proof -
  let ?r = "snd (RewriteFindCoordinatorResponse (envFold env) r (Some m))"
  have wf: "fcVersion r = pAPIVersion p" "wfFindCoordinatorResponse r"
    using fcresponse.transcode [of "pAPIVersion p" body r "[]"] assms(1) by (simp_all add: DecodeFindCoordinatorResponse_def)
  have "fst (rewriteFindCoordResp env ic dst body p) = Inr (dst @ AppendFindCoordinatorResponse [] ?r)"
    using assms(1,2) fcresponse.app_append [of dst ?r] by (simp add: rewriteFindCoordResp_def Let_def)
  moreover have "?r = r\<lparr>fcHost := fcHost ?r, fcPort := fcPort ?r, fcCoordinators := fcCoordinators ?r\<rparr>"
    by (auto simp: RewriteFindCoordinatorResponse_def split: option.splits)
  moreover have "fcCoordinators ?r = [] \<and> (fcHost ?r, fcPort ?r) = (case coordinatorAs env m (fcNodeID r) (fcHost r) (fcPort r) of
      None \<Rightarrow> (fcHost r, fcPort r) | Some e \<Rightarrow> (epHost e, epPort e))" if "sint (pAPIVersion p) \<le> 3"
    using wf that by (auto simp: RewriteFindCoordinatorResponse_def coordinatorAs_def wfFindCoordinatorResponse_def Let_def split: option.splits)
  moreover have "fcHost ?r = fcHost r \<and> fcPort ?r = fcPort r \<and>
      list_all2 (\<lambda>c c'. c' = (case coordinatorAs env m (feNodeID c) (feHost c) (fePort c) of
        None \<Rightarrow> c | Some e \<Rightarrow> c\<lparr>feHost := epHost e, fePort := epPort e\<rparr>)) (fcCoordinators r) (fcCoordinators ?r)"
    if "\<not> sint (pAPIVersion p) \<le> 3"
    using wf(1) that
    by (auto simp: RewriteFindCoordinatorResponse_def list_all2_conv_all_nth rewriteEntry_def coordinatorAs_def split: option.splits)
  ultimately show ?thesis
    using findcoord_reencoded [OF assms(1,3), of "envFold env"]
    by (intro exI [of _ "AppendFindCoordinatorResponse [] ?r"] exI [of _ ?r]) simp
qed

theorem findcoordinator_rewrite_reaches_client_witness:
  "\<exists>out r'. fst (rewriteFindCoordResp sampleEnv sampleInterceptor []
        [0,0, 0,0,0,7, 0,1,104, 0,0,35,132] (samplePendingFor RewriteFindCoordResp)) = Inr out \<and>
     DecodeFindCoordinatorResponse out 0 = Inr r' \<and> fcHost r' = ''p'' \<and> fcPort r' = 19092"
proof -
  let ?p = "samplePendingFor RewriteFindCoordResp"
  let ?r = "\<lparr>fcVersion = 0, fcThrottleTimeMs = 0, fcErrorCode = 0, fcErrorMessage = '''',
     fcErrorMessageNull = False, fcNodeID = 7, fcHost = ''h'', fcPort = 9092, fcCoordinators = []\<rparr>"
  have "DecodeFindCoordinatorResponse [0,0, 0,0,0,7, 0,1,104, 0,0,35,132] (pAPIVersion ?p) = Inr ?r" by code_simp
  from findcoordinator_rewrite_reaches_client [OF this sample_topology, of sampleEnv "[]"] show ?thesis
    by (auto simp: coordinatorAs_def Lookup_def sampleMapping_def samplePendingFor_def mget_def)
qed

section \<open>JoinGroup\<close>

text \<open>
  C9: a JoinGroup request of a known member is forwarded unchanged and its subscription is
  recorded: the store then answers, for that group and member, with the topics of the first
  protocol's metadata without repetition, the owned partitions and the generation, and answers for
  everybody else as before; the gauge is the size of the store.  The cap can refuse a new member
  only.
\<close>

theorem joingroup_records_subscription:
  assumes "APIKey h = APIJoinGroup" "icSubscription ic = Some st"
    and "DecodeJoinGroupRequest body (APIVersion h) = Inr jg" "jgProtocols jg = pr # prs" "jgMemberID jg \<noteq> ''''"
    and "DecodeSubscription (jpMetadata pr) = Inr sub"
    and "stMax st \<le> 0 \<or> int (Len_store st) < stMax st \<or> Get_sub st (jgGroup jg) (jgMemberID jg) \<noteq> None"
  shows "\<exists>st' rec. fst (OnRequest env h body ic) = None \<and> icSubscription (snd (OnRequest env h body ic)) = Some st' \<and>
    Get_sub st' (jgGroup jg) (jgMemberID jg) = Some rec \<and>
    set (sbTopics rec) = set (suTopics sub) \<and> distinct (sbTopics rec) \<and>
    sbOwnedPartitions rec = suOwnedPartitions sub \<and> sbGenerationID rec = suGenerationID sub \<and>
    (\<forall>g m. (g, m) \<noteq> (jgGroup jg, jgMemberID jg) \<longrightarrow> Get_sub st' g m = Get_sub st g m) \<and>
    map_option SubscriptionLen (icMetrics (snd (OnRequest env h body ic)))
      = map_option (\<lambda>_. of_nat (Len_store st')) (icMetrics ic)"
proof -
  define rec where "rec = \<lparr>sbGroupID = jgGroup jg, sbMemberID = jgMemberID jg, sbTopics = suTopics sub,
      sbOwnedPartitions = suOwnedPartitions sub, sbGenerationID = suGenerationID sub, sbUpdatedAt = 0\<rparr>"
  have keys: "APIJoinGroup \<noteq> APIMetadata" "APIJoinGroup \<noteq> APIFindCoordinator"
    by (simp_all add: APIJoinGroup_def APIMetadata_def APIFindCoordinator_def)
  have "fst (Put (envNow env) st rec)"
    using assms(7) by (auto simp: Put_eq rec_def Len_store_def)
  then have get: "Get_sub (snd (Put (envNow env) st rec)) g m
      = (if (g, m) = (jgGroup jg, jgMemberID jg) then Some (copySub (envNow env) rec) else Get_sub st g m)" for g m
    by (simp add: Put_get rec_def)
  have "fst (OnRequest env h body ic) = None \<and>
      icSubscription (snd (OnRequest env h body ic)) = Some (snd (Put (envNow env) st rec)) \<and>
      map_option SubscriptionLen (icMetrics (snd (OnRequest env h body ic)))
        = map_option (\<lambda>_. of_nat (Len_store (snd (Put (envNow env) st rec)))) (icMetrics ic)"
    using assms(1-6) keys
    by (simp add: OnRequest_def onJoinGroup_def onMetrics_def bumpPassthru_def Let_def rec_def option.map_comp comp_def)
  then show ?thesis
    using get dedupCopy_set [of "suTopics sub"]
    by (intro exI [of _ "snd (Put (envNow env) st rec)"] exI [of _ "copySub (envNow env) rec"])
      (simp add: copySub_def rec_def)
qed

definition plainHeader :: "int16 \<Rightarrow> RequestHeader" where
  "plainHeader key = \<lparr>APIKey = key, APIVersion = 0, CorrelID = 4, ClientID = '''', ClientNull = True, HeaderSize = 10\<rparr>"

definition sampleJoinBody :: bytes where
  "sampleJoinBody = [0,1,103, 0,0,0,9, 0,1,110, 0,1,99, 0,0,0,1, 0,1,114, 0,0,0,19,
     0,0, 0,0,0,3, 0,1,121, 0,1,120, 0,1,121, 0,0,0,0]"

theorem joingroup_records_subscription_witness:
  "\<exists>st' rec. icSubscription (snd (OnRequest sampleEnv (plainHeader 11) sampleJoinBody sampleInterceptor)) = Some st' \<and>
     Get_sub st' ''g'' ''n'' = Some rec \<and> set (sbTopics rec) = {''x'', ''y''} \<and> distinct (sbTopics rec)"
proof -
  let ?h = "plainHeader 11"
  let ?jg = "\<lparr>jgVersion = 0, jgGroup = ''g'', jgSessionTimeoutMs = 9, jgRebalanceTimeoutMs = -1,
     jgMemberID = ''n'', jgGroupInstanceID = '''', jgGIIDPresent = False, jgGIIDNull = False,
     jgProtocolType = ''c'', jgProtocols = [\<lparr>jpName = ''r'', jpMetadata = drop 24 sampleJoinBody\<rparr>],
     jgReason = '''', jgReasonPresent = False, jgReasonNull = False\<rparr>"
  let ?sub = "\<lparr>suVersion = 0, suTopics = [''y'', ''x'', ''y''], suUserData = [], suUserDataNull = False,
     suOwnedPartitions = [], suGenerationID = 0, suGenerationPresent = False, suRackID = '''',
     suRackIDNull = False, suRackIDPresent = False\<rparr>"
  have h: "APIKey ?h = APIJoinGroup" by (simp add: plainHeader_def APIJoinGroup_def)
  have st: "icSubscription sampleInterceptor = Some sampleStore"
    by (simp add: sampleInterceptor_def NewInterceptor_def)
  have jg: "DecodeJoinGroupRequest sampleJoinBody (APIVersion ?h) = Inr ?jg" by code_simp
  have sub: "DecodeSubscription (drop 24 sampleJoinBody) = Inr ?sub" by code_simp
  have cap: "stMax sampleStore \<le> 0" by code_simp
  from joingroup_records_subscription [OF h st jg _ _ _ disjI1 [OF cap], of _ _ ?sub sampleEnv] sub
  show ?thesis by fastforce
qed

section \<open>SyncGroup\<close>

text \<open>The planner's input that the handler builds for a decoded request.\<close>

definition planInputs :: "Interceptor \<Rightarrow> Store \<Rightarrow> SyncGroupRequest \<Rightarrow> Inputs" where
  "planInputs ic st sg =
     (let members = planMembers st (dTelemetry (icDeps ic)) (sgGroup sg) (sgAssignments sg) in
      \<lparr>inGroupID = sgGroup sg, inMembers = members,
       inPartitions = planPartitions (dMetadata (icDeps ic)) members, inPrevious = None\<rparr>)"

text \<open>The plan of every listed member fits the assignment blob and the request.\<close>

definition planFits :: "Env \<Rightarrow> SyncGroupRequest \<Rightarrow> Plan \<Rightarrow> bool" where
  "planFits env sg pl \<longleftrightarrow> list_all (\<lambda>a. let byTopic = mgetOr [] pl (saMemberID a) in
     fitsAssignment (plannedAssignment env byTopic) \<and>
     btsOk (IsFlexibleRequest APISyncGroup (sgVersion sg)) (encodeAssignment env byTopic)) (sgAssignments sg)"

lemma member_ids:
  "map mMemberID (planMembers st tel grp as) = filter (\<lambda>m. Get_sub st grp m \<noteq> None) (map saMemberID as)"
  by (induction as) (auto split: option.splits)

lemma member_topics:
  "m \<in> set (planMembers st tel grp as) \<longleftrightarrow>
     (\<exists>a \<in> set as. \<exists>sub. Get_sub st grp (saMemberID a) = Some sub \<and>
        m = \<lparr>mMemberID = saMemberID a, mTopics = sbTopics sub, mLag = lagFor tel grp (saMemberID a)\<rparr>)"
  by (induction as) (auto split: option.splits)

lemma parts_topics:
  assumes "\<And>t. mget parts t = (if t \<in> T \<and> mgetOr [] (msByTopic snap) t \<noteq> [] then mget (msByTopic snap) t else None)"
  shows "mget (foldl (addTopicParts snap) parts ts) t
    = (if t \<in> T \<union> set ts \<and> mgetOr [] (msByTopic snap) t \<noteq> [] then mget (msByTopic snap) t else None)"
  using assms
proof (induction ts arbitrary: parts T)
  case (Cons s ts)
  have "mget (addTopicParts snap parts s) t
      = (if t \<in> insert s T \<and> mgetOr [] (msByTopic snap) t \<noteq> [] then mget (msByTopic snap) t else None)" for t
    using Cons.prems [of t] Cons.prems [of s]
    by (auto simp: addTopicParts_def Let_def mgetOr_def split: option.splits if_splits)
  from Cons.IH [OF this] show ?case by simp
qed simp

lemma parts_members:
  assumes "\<And>t. mget parts t = (if t \<in> T \<and> mgetOr [] (msByTopic snap) t \<noteq> [] then mget (msByTopic snap) t else None)"
  shows "mget (foldl (\<lambda>parts m. foldl (addTopicParts snap) parts (mTopics m)) parts ms) t
    = (if t \<in> T \<union> (\<Union>m \<in> set ms. set (mTopics m)) \<and> mgetOr [] (msByTopic snap) t \<noteq> []
       then mget (msByTopic snap) t else None)"
  using assms
proof (induction ms arbitrary: parts T)
  case (Cons m ms)
  show ?case using Cons.IH [OF parts_topics [OF Cons.prems, of "mTopics m"]] by (simp add: Un_assoc)
qed simp

lemma addTopicParts_wf: "wfmap parts \<Longrightarrow> wfmap (addTopicParts snap parts t)"
  by (simp add: addTopicParts_def Let_def)

lemma planPartitions_wf: "wfmap (planPartitions md ms)"
  by (auto simp: planPartitions_def wfmap_def [of "[]"] mkeys_def intro!: foldl_inv [where P = wfmap] addTopicParts_wf
      split: option.splits)

lemma planPartitions_topic:
  "mgetOr [] (planPartitions (Some (Some snap)) ms) t
    = (if \<exists>m \<in> set ms. t \<in> set (mTopics m) then mgetOr [] (msByTopic snap) t else [])"
  using parts_members [of "[]" "{}" snap ms t] by (auto simp: planPartitions_def mgetOr_def split: option.splits)

lemma planPartitions_keys:
  "t \<in> set (mkeys (planPartitions (Some (Some snap)) ms)) \<Longrightarrow> t \<in> set (mkeys (msByTopic snap))"
  using parts_members [of "[]" "{}" snap ms t] by (auto simp: planPartitions_def in_mkeys split: if_splits)

lemma planInputs_wf:
  assumes "dMetadata (icDeps ic) = Some (Some snap)" "'''' \<notin> set (mkeys (msByTopic snap))"
    and "distinct (map saMemberID (sgAssignments sg))" "Get_sub st (sgGroup sg) '''' = None"
  shows "wfInputs (planInputs ic st sg)"
  using assms planPartitions_keys
  by (auto simp: wfInputs_def planInputs_def Let_def member_ids planPartitions_wf)

lemma plannedRequest_wf:
  assumes "wfSyncGroupRequest sg" "planFits env sg pl"
  shows "wfSyncGroupRequest (plannedRequest env sg pl)"
  using assms
  by (auto simp: wfSyncGroupRequest_def plannedRequest_def planFits_def Let_def list_all_iff
      wfSyncGroupAssignment_def nbtsOk_def)

lemma planned_reencoded:
  assumes "DecodeSyncGroupRequest body ver = Inr sg" "planFits env sg pl"
  shows "DecodeSyncGroupRequest (AppendSyncGroupRequest [] (plannedRequest env sg pl)) ver = Inr (plannedRequest env sg pl)"
proof -
  have "sgVersion sg = ver" "wfSyncGroupRequest sg"
    using sgrequest.transcode [of ver body sg "[]"] assms(1) by (simp_all add: DecodeSyncGroupRequest_def)
  then show ?thesis
    using plannedRequest_wf [OF _ assms(2)] unfolding DecodeSyncGroupRequest_def
    by (intro sgrequest.roundtrip) (simp add: plannedRequest_def)
qed

lemma planned_blob:
  assumes "fitsAssignment (plannedAssignment env byTopic)"
  shows "DecodeAssignment (encodeAssignment env byTopic) = Inr (plannedAssignment env byTopic)"
  using run_trailing [OF reads_assignment [OF assms], of "[]"]
  by (simp add: DecodeAssignment_def encodeAssignment_def canonAssignment_def plannedAssignment_def)

lemma OnRequest_unplanned:
  assumes "APIKey h = APISyncGroup" "icSubscription ic = Some st" "DecodeSyncGroupRequest body (APIVersion h) = Inr sg"
    and "envPlan env (planInputs ic st sg) = Inl e"
  shows "fst (OnRequest env h body ic) = None"
  using assms
  by (simp add: OnRequest_def onSyncGroup_def onMetrics_def planInputs_def Let_def
      APISyncGroup_def APIMetadata_def APIFindCoordinator_def APIJoinGroup_def)

lemma OnRequest_syncgroup:
  assumes "APIKey h = APISyncGroup" "dHasPlanner (icDeps ic)" "icSubscription ic = Some st"
    and "DecodeSyncGroupRequest body (APIVersion h) = Inr sg"
    and "inMembers (planInputs ic st sg) \<noteq> []" "inPartitions (planInputs ic st sg) \<noteq> []"
    and "envPlan env (planInputs ic st sg) = Inr (pl, dur)"
  shows "fst (OnRequest env h body ic)
    = Some (newPending h None (Some (AppendSyncGroupRequest [] (plannedRequest env sg pl))))"
proof -
  have "sgAssignments sg \<noteq> []"
    using assms(5) by (auto simp: planInputs_def Let_def)
  then show ?thesis
    using assms
    by (simp add: OnRequest_def onSyncGroup_def onMetrics_def planInputs_def Let_def
        APISyncGroup_def APIMetadata_def APIFindCoordinator_def APIJoinGroup_def)
qed

text \<open>The pairs of a topic and a partition that an assignment blob gives to its member.\<close>

definition blobPairs :: "bytes \<Rightarrow> (string \<times> int32) list" where
  "blobPairs blob =
     (case DecodeAssignment blob of Inl _ \<Rightarrow> []
      | Inr a \<Rightarrow> concat (map (\<lambda>tp. map (Pair (tpTopic tp)) (tpPartitions tp)) (asPartitions a)))"

lemma blobPairs_planned:
  assumes "fitsAssignment (plannedAssignment env byTopic)" "mset (envRange env byTopic) = mset byTopic" "wfmap byTopic"
  shows "(t, p) \<in> set (blobPairs (encodeAssignment env byTopic)) \<longleftrightarrow> p \<in> set (mgetOr [] byTopic t)"
proof -
  have "set (envRange env byTopic) = set byTopic"
    using assms(2) by (metis set_mset_mset)
  then have "(t, p) \<in> set (blobPairs (encodeAssignment env byTopic)) \<longleftrightarrow> (\<exists>ps. (t, ps) \<in> set byTopic \<and> p \<in> set ps)"
    unfolding blobPairs_def planned_blob [OF assms(1)] by (force simp: plannedAssignment_def)
  then have "(t, p) \<in> set (blobPairs (encodeAssignment env byTopic)) \<longleftrightarrow> (\<exists>ps. mget byTopic t = Some ps \<and> p \<in> set ps)"
    by (simp only: mget_in_set [OF assms(3)])
  then show ?thesis by (auto simp: mgetOr_def split: option.splits)
qed

text \<open>
  C8: when the planner answers in time, the leader's SyncGroup request is replaced by one that
  the broker decodes to the same request (group, generation, member, protocol), with the same
  members in the same order, where the blob of each member decodes to exactly the topics and
  partitions that the plan gives it, in the order in which the map was iterated; no response is
  rewritten.
\<close>

theorem syncgroup_delivers_plan:
  assumes "APIKey h = APISyncGroup" "dHasPlanner (icDeps ic)" "icSubscription ic = Some st"
    and "DecodeSyncGroupRequest body (APIVersion h) = Inr sg"
    and "inMembers (planInputs ic st sg) \<noteq> []" "inPartitions (planInputs ic st sg) \<noteq> []"
    and "envPlan env (planInputs ic st sg) = Inr (pl, dur)" "planFits env sg pl"
  shows "\<exists>p req sg'. fst (OnRequest env h body ic) = Some p \<and> pRewriteRequest p = Some req \<and> pRewrite p = None \<and>
    DecodeSyncGroupRequest req (APIVersion h) = Inr sg' \<and> sg' = sg\<lparr>sgAssignments := sgAssignments sg'\<rparr> \<and>
    list_all2 (\<lambda>a a'. saMemberID a' = saMemberID a \<and> \<not> saMAIsNull a' \<and>
       (\<exists>as. DecodeAssignment (saMemberAssignment a') = Inr as \<and> asVersion as = 0 \<and> asUserDataNull as \<and>
          map (\<lambda>tp. (tpTopic tp, tpPartitions tp)) (asPartitions as) = envRange env (mgetOr [] pl (saMemberID a))))
      (sgAssignments sg) (sgAssignments sg')"
proof -
  let ?sg = "plannedRequest env sg pl"
  have "list_all2 (\<lambda>a a'. saMemberID a' = saMemberID a \<and> \<not> saMAIsNull a' \<and>
       (\<exists>as. DecodeAssignment (saMemberAssignment a') = Inr as \<and> asVersion as = 0 \<and> asUserDataNull as \<and>
          map (\<lambda>tp. (tpTopic tp, tpPartitions tp)) (asPartitions as) = envRange env (mgetOr [] pl (saMemberID a))))
      (sgAssignments sg) (sgAssignments ?sg)"
    using assms(8) planned_blob [of env]
    by (auto simp: list_all2_conv_all_nth plannedRequest_def planFits_def list_all_length Let_def)
      (auto simp: plannedAssignment_def comp_def case_prod_unfold)
  moreover have "?sg = sg\<lparr>sgAssignments := sgAssignments ?sg\<rparr>"
    by (simp add: plannedRequest_def)
  ultimately show ?thesis
    using OnRequest_syncgroup [OF assms(1-7)] planned_reencoded [OF assms(4,8)] by (auto simp: newPending_def)
qed

definition sampleSyncBody :: bytes where
  "sampleSyncBody = [0,1,103, 0,0,0,1, 0,1,109, 0,0,0,2, 0,1,109, 0,0,0,0, 0,1,110, 0,0,0,0]"

definition sampleSG :: SyncGroupRequest where
  "sampleSG = \<lparr>sgVersion = 0, sgGroup = ''g'', sgGeneration = 1, sgMemberID = ''m'', sgInstanceID = '''',
     sgInstancePres = False, sgInstanceNull = False, sgProtocolType = '''', sgProtoTypePres = False,
     sgProtoTypeNull = False, sgProtocolName = '''', sgProtoNamePres = False, sgProtoNameNull = False,
     sgAssignments = [\<lparr>saMemberID = ''m'', saMemberAssignment = [], saMAIsNull = False\<rparr>,
       \<lparr>saMemberID = ''n'', saMemberAssignment = [], saMAIsNull = False\<rparr>]\<rparr>"

definition samplePlan :: Plan where
  "samplePlan = [(''m'', [(''t'', [0, 1])])]"

lemma sample_syncgroup:
  "APIKey (plainHeader 14) = APISyncGroup" "dHasPlanner (icDeps sampleInterceptor)"
  "icSubscription sampleInterceptor = Some sampleStore"
  by (simp_all add: plainHeader_def APISyncGroup_def sampleInterceptor_def NewInterceptor_def sampleDeps_def)

lemma sample_decodes: "DecodeSyncGroupRequest sampleSyncBody (APIVersion (plainHeader 14)) = Inr sampleSG"
  by code_simp

lemma sample_planned: "Compute (\<lambda>xs. xs) (planInputs sampleInterceptor sampleStore sampleSG) = samplePlan"
  by code_simp

lemma sample_blobs:
  "encodeAssignment sampleEnv [(''t'', [0, 1])]
    = [0,0, 0,0,0,1, 0,1,116, 0,0,0,2, 0,0,0,0, 0,0,0,1, 255,255,255,255]"
  "encodeAssignment sampleEnv [] = [0,0, 0,0,0,0, 255,255,255,255]"
  by code_simp+

lemma sample_fits: "planFits sampleEnv sampleSG samplePlan"
  by (simp add: planFits_def sampleSG_def samplePlan_def mgetOr_def mget_def sample_blobs fitsAssignment_def
      plannedAssignment_def sampleEnv_def wfTopicPartitions_def fits_defs flexible_defs Let_def)
    (simp add: sample_blobs flip: sampleEnv_def)

lemma sample_inputs:
  "inMembers (planInputs sampleInterceptor sampleStore sampleSG) \<noteq> []"
  "inPartitions (planInputs sampleInterceptor sampleStore sampleSG) \<noteq> []"
  by code_simp+

lemma sample_envPlan: "envPlan sampleEnv (planInputs sampleInterceptor sampleStore sampleSG) = Inr (samplePlan, 3)"
  using sample_planned by (simp add: sampleEnv_def)

theorem syncgroup_delivers_plan_witness:
  "\<exists>p req sg' as. fst (OnRequest sampleEnv (plainHeader 14) sampleSyncBody sampleInterceptor) = Some p \<and>
     pRewriteRequest p = Some req \<and> DecodeSyncGroupRequest req 0 = Inr sg' \<and>
     map saMemberID (sgAssignments sg') = [''m'', ''n''] \<and>
     DecodeAssignment (saMemberAssignment (sgAssignments sg' ! 0)) = Inr as \<and>
     map (\<lambda>tp. (tpTopic tp, tpPartitions tp)) (asPartitions as) = [(''t'', [0, 1])]"
  using syncgroup_delivers_plan [OF sample_syncgroup sample_decodes sample_inputs sample_envPlan sample_fits]
  by (fastforce simp: sampleSG_def list_all2_Cons1 plainHeader_def samplePlan_def mgetOr_def mget_def sampleEnv_def)

lemma mget_wfplan: "wfplan pl \<Longrightarrow> wfmap (mgetOr [] pl mid)"
  by (simp add: wfplan_def)

text \<open>
  The planned SyncGroup request shares out the topics of the group.  With the plan that
  \<open>Compute\<close> makes of the recorded subscriptions and the cached metadata, every partition of every
  topic that a listed member subscribes to stands in the blob of exactly one listed member.
\<close>

lemma planned_once:
  assumes "distinct (map saMemberID (sgAssignments sg))" "wfInputs (planInputs ic st sg)"
    and "dMetadata (icDeps ic) = Some (Some snap)" "pl = Compute ord (planInputs ic st sg)"
    and "planFits env sg pl" "\<And>m. mset (envRange env m) = mset m"
    and "a \<in> set (sgAssignments sg)" "Get_sub st (sgGroup sg) (saMemberID a) = Some sub"
    and "t \<in> set (sbTopics sub)" "p \<in> set (mgetOr [] (msByTopic snap) t)"
  shows "inMembers (planInputs ic st sg) \<noteq> []" "inPartitions (planInputs ic st sg) \<noteq> []"
    and "\<exists>!i. i < length (sgAssignments (plannedRequest env sg pl)) \<and>
      (t, p) \<in> set (blobPairs (saMemberAssignment (sgAssignments (plannedRequest env sg pl) ! i)))"
proof -
  let ?in = "planInputs ic st sg" and ?as = "sgAssignments sg" and ?sg = "plannedRequest env sg pl"
  note wf = assms(2)
  have mem: "\<exists>m \<in> set (inMembers ?in). t \<in> set (mTopics m)"
    using assms(7-9)
    by (intro bexI [of _ "\<lparr>mMemberID = saMemberID a, mTopics = sbTopics sub,
        mLag = lagFor (dTelemetry (icDeps ic)) (sgGroup sg) (saMemberID a)\<rparr>"])
      (auto simp: planInputs_def Let_def member_topics)
  then have part: "p \<in> set (mgetOr [] (inPartitions ?in) t)"
    using assms(3,10) planPartitions_topic [of snap "inMembers ?in" t] by (auto simp: planInputs_def Let_def)
  show "inMembers ?in \<noteq> []" "inPartitions ?in \<noteq> []" using mem part by auto
  obtain mid where own: "\<And>mid'. p \<in> set (partsOf pl mid' t) \<longleftrightarrow> mid' = mid"
    using mem Compute_one_owner [OF wf part, of _ ord] assms(4) by metis
  then have "mid \<in> mMemberID ` set (inMembers ?in)"
    using Compute_sound [OF wf, of p ord mid t] assms(4) by auto
  then have "mid \<in> saMemberID ` set ?as"
    by (auto simp: planInputs_def Let_def member_topics)
  then obtain i where i: "i < length ?as" "saMemberID (?as ! i) = mid"
    by (auto simp: in_set_conv_nth)
  have "(t, p) \<in> set (blobPairs (saMemberAssignment (sgAssignments ?sg ! j))) \<longleftrightarrow> saMemberID (?as ! j) = mid"
    if "j < length ?as" for j
  proof -
    let ?bt = "mgetOr [] pl (saMemberID (?as ! j))"
    have "fitsAssignment (plannedAssignment env ?bt)"
      using that assms(5) by (simp add: planFits_def list_all_length Let_def)
    moreover have "wfmap ?bt"
      using Compute_exact [OF wf, of ord] assms(4) by (simp add: mget_wfplan)
    ultimately have "(t, p) \<in> set (blobPairs (encodeAssignment env ?bt)) \<longleftrightarrow> p \<in> set (partsOf pl (saMemberID (?as ! j)) t)"
      unfolding partsOf_def by (rule blobPairs_planned [OF _ assms(6)])
    then show ?thesis using own that by (simp add: plannedRequest_def)
  qed
  moreover have "j = i" if "j < length ?as" "saMemberID (?as ! j) = mid" for j
    using assms(1) i that by (metis distinct_conv_nth length_map nth_map)
  moreover have "length (sgAssignments ?sg) = length ?as" by (simp add: plannedRequest_def)
  ultimately show "\<exists>!i. i < length (sgAssignments ?sg) \<and> (t, p) \<in> set (blobPairs (saMemberAssignment (sgAssignments ?sg ! i)))"
    using i by (metis (no_types, lifting))
qed

section \<open>Accounting\<close>

text \<open>
  When a request counts as failed: a JoinGroup request or the subscription in it, or a SyncGroup
  request, does not decode.  When it asks the planner, and for what.  When it asks for addresses, so
  that its response is to be rewritten.
\<close>

definition joinBroken :: "kerr + JoinGroupRequest \<Rightarrow> bool" where
  "joinBroken dec \<longleftrightarrow> (case dec of Inl e \<Rightarrow> True
     | Inr jg \<Rightarrow> jgProtocols jg \<noteq> [] \<and> jgMemberID jg \<noteq> '''' \<and> isl (DecodeSubscription (jpMetadata (hd (jgProtocols jg)))))"

definition requestBroken :: "RequestHeader \<Rightarrow> bytes \<Rightarrow> Interceptor \<Rightarrow> bool" where
  "requestBroken h body ic \<longleftrightarrow> icSubscription ic \<noteq> None \<and>
     (APIKey h = APIJoinGroup \<and> joinBroken (DecodeJoinGroupRequest body (APIVersion h)) \<or>
      APIKey h = APISyncGroup \<and> dHasPlanner (icDeps ic) \<and> isl (DecodeSyncGroupRequest body (APIVersion h)))"

definition asksPlanner :: "RequestHeader \<Rightarrow> bytes \<Rightarrow> Interceptor \<Rightarrow> Inputs \<Rightarrow> bool" where
  "asksPlanner h body ic inp \<longleftrightarrow> APIKey h = APISyncGroup \<and> dHasPlanner (icDeps ic) \<and>
     (\<exists>st sg. icSubscription ic = Some st \<and> DecodeSyncGroupRequest body (APIVersion h) = Inr sg \<and>
        inp = planInputs ic st sg \<and> inMembers inp \<noteq> [] \<and> inPartitions inp \<noteq> [])"

definition asksAddresses :: "RequestHeader \<Rightarrow> Interceptor \<Rightarrow> bool" where
  "asksAddresses h ic \<longleftrightarrow> APIKey h \<in> {APIMetadata, APIFindCoordinator} \<and> \<not> noTopology (icDeps ic)"

definition responseBroken :: "RewriteFn \<Rightarrow> bytes \<Rightarrow> RewriteFn Pending \<Rightarrow> bool" where
  "responseBroken rw body p \<longleftrightarrow>
     (case rw of RewriteMetadataResp \<Rightarrow> isl (DecodeMetadataResponse body (pAPIVersion p))
      | RewriteFindCoordResp \<Rightarrow> isl (DecodeFindCoordinatorResponse body (pAPIVersion p)))"

definition awaitsRewrite :: "RewriteFn Pending option \<Rightarrow> bool" where
  "awaitsRewrite p \<longleftrightarrow> (case p of None \<Rightarrow> False | Some q \<Rightarrow> pRewrite q \<noteq> None)"

text \<open>What one event adds to the outcomes: passed through, failed, timed out, planned, rewritten.\<close>

definition outcomesAdded :: "Metrics \<Rightarrow> Metrics \<Rightarrow> bool \<Rightarrow> bool \<Rightarrow> bool \<Rightarrow> bool \<Rightarrow> bool \<Rightarrow> bool" where
  "outcomesAdded mx mx' passed failed late planned rewrote \<longleftrightarrow>
     InterceptsPassthru mx' = InterceptsPassthru mx + of_bool passed \<and>
     InterceptsError mx' = InterceptsError mx + of_bool failed \<and>
     InterceptsTimeout mx' = InterceptsTimeout mx + of_bool late \<and>
     PlanCount mx' = PlanCount mx + of_bool planned \<and>
     InterceptsRewrote mx' = InterceptsRewrote mx + of_bool rewrote"

lemmas outcome_defs = outcomesAdded_def onMetrics_def bumpPassthru_def bumpErr_def

definition passes :: "RequestHeader \<Rightarrow> bytes \<Rightarrow> Interceptor \<Rightarrow> bool" where
  "passes h body ic \<longleftrightarrow> \<not> requestBroken h body ic \<and> \<not> asksAddresses h ic \<and> (\<nexists>inp. asksPlanner h body ic inp)"

definition requestCounted :: "Env \<Rightarrow> RequestHeader \<Rightarrow> bytes \<Rightarrow> Interceptor \<Rightarrow> Metrics \<Rightarrow> Metrics \<Rightarrow> bool" where
  "requestCounted env h body ic mx mx' \<longleftrightarrow>
     outcomesAdded mx mx' (passes h body ic) (requestBroken h body ic)
       (\<exists>inp. asksPlanner h body ic inp \<and> isl (envPlan env inp))
       (\<exists>inp. asksPlanner h body ic inp \<and> \<not> isl (envPlan env inp)) False"

lemmas kind_defs = requestCounted_def passes_def requestBroken_def asksPlanner_def asksAddresses_def joinBroken_def

lemma api_distinct:
  "APISyncGroup \<noteq> APIJoinGroup" "APISyncGroup \<noteq> APIMetadata" "APISyncGroup \<noteq> APIFindCoordinator"
  "APIJoinGroup \<noteq> APISyncGroup" "APIJoinGroup \<noteq> APIMetadata" "APIJoinGroup \<noteq> APIFindCoordinator"
  "APIMetadata \<noteq> APISyncGroup" "APIMetadata \<noteq> APIJoinGroup" "APIMetadata \<noteq> APIFindCoordinator"
  "APIFindCoordinator \<noteq> APISyncGroup" "APIFindCoordinator \<noteq> APIJoinGroup" "APIFindCoordinator \<noteq> APIMetadata"
  by (simp_all add: APISyncGroup_def APIJoinGroup_def APIMetadata_def APIFindCoordinator_def)

lemma onSyncGroup_counted:
  assumes "icMetrics ic = Some mx" "APIKey h = APISyncGroup"
  shows "(\<exists>mx'. icMetrics (snd (onSyncGroup env h body ic)) = Some mx' \<and> InterceptsTotal mx' = InterceptsTotal mx \<and>
      requestCounted env h body ic mx mx') \<and>
    icSyncGroupRewrites (snd (onSyncGroup env h body ic)) =
      icSyncGroupRewrites ic + of_bool (\<exists>inp. asksPlanner h body ic inp \<and> \<not> isl (envPlan env inp))"
proof (cases "\<exists>st sg. icSubscription ic = Some st \<and> dHasPlanner (icDeps ic) \<and> DecodeSyncGroupRequest body (APIVersion h) = Inr sg")
  case False
  then have no: "\<not> asksPlanner h body ic inp" for inp by (auto simp: asksPlanner_def)
  have "onSyncGroup env h body ic = (None, if requestBroken h body ic then bumpErr ic else bumpPassthru ic)"
    using False assms(2)
    by (cases "icSubscription ic"; cases "DecodeSyncGroupRequest body (APIVersion h)") (auto simp: onSyncGroup_def requestBroken_def api_distinct)
  moreover have "\<not> asksAddresses h ic" using assms(2) by (simp add: asksAddresses_def api_distinct)
  ultimately show ?thesis
    using assms(1) no by (simp add: requestCounted_def passes_def outcome_defs)
next
  case True
  then obtain st sg where st: "icSubscription ic = Some st" "dHasPlanner (icDeps ic)"
      and sg: "DecodeSyncGroupRequest body (APIVersion h) = Inr sg" by blast
  let ?inp = "planInputs ic st sg"
  have ask: "asksPlanner h body ic inp \<longleftrightarrow> inp = ?inp \<and> inMembers ?inp \<noteq> [] \<and> inPartitions ?inp \<noteq> []" for inp
    using st sg assms(2) by (auto simp: asksPlanner_def)
  have rest: "\<not> requestBroken h body ic" "\<not> asksAddresses h ic"
    using st sg assms(2) by (simp_all add: requestBroken_def asksAddresses_def api_distinct)
  have "onSyncGroup env h body ic =
      (if inMembers ?inp = [] \<or> inPartitions ?inp = [] then (None, bumpPassthru ic)
       else case envPlan env ?inp of
        Inl _ \<Rightarrow> (None, onMetrics (\<lambda>m. m\<lparr>InterceptsTimeout := InterceptsTimeout m + 1\<rparr>) ic)
      | Inr (pl, dur) \<Rightarrow>
          let ic1 = onMetrics (\<lambda>m. m\<lparr>PlanCount := PlanCount m + 1,
                      PlanDurationNanosSum := PlanDurationNanosSum m + dur\<rparr>) ic;
              req = AppendSyncGroupRequest [] (plannedRequest env sg pl)
          in (Some (newPending h None (Some req)),
              ic1\<lparr>icSyncGroupRewrites := icSyncGroupRewrites ic1 + 1\<rparr>))"
    by (cases "sgAssignments sg") (auto simp: onSyncGroup_def st sg planInputs_def Let_def)
  then show ?thesis
    using assms(1) by (simp add: requestCounted_def passes_def ask rest outcome_defs Let_def split: sum.split prod.split)
qed

lemma onJoinGroup_counted:
  assumes "icMetrics ic = Some mx" "APIKey h = APIJoinGroup"
  shows "\<exists>mx'. icMetrics (snd (onJoinGroup env h body ic)) = Some mx' \<and> InterceptsTotal mx' = InterceptsTotal mx \<and>
    requestCounted env h body ic mx mx'"
  using assms
  by (simp add: onJoinGroup_def kind_defs outcome_defs api_distinct Let_def split: option.split sum.split)

lemma OnRequest_counted:
  assumes "icMetrics ic = Some mx"
  shows "\<exists>mx'. icMetrics (snd (OnRequest env h body ic)) = Some mx' \<and> InterceptsTotal mx' = InterceptsTotal mx + 1 \<and>
    requestCounted env h body ic mx mx'"
proof -
  let ?m = "mx\<lparr>InterceptsTotal := InterceptsTotal mx + 1\<rparr>" and ?f = "\<lambda>m. m\<lparr>InterceptsTotal := InterceptsTotal m + 1\<rparr>"
  have same: "icMetrics (onMetrics ?f ic) = Some ?m" "requestCounted env h body (onMetrics ?f ic) ?m mx' = requestCounted env h body ic mx mx'" for mx'
    using assms by (simp_all add: onMetrics_def kind_defs outcomesAdded_def planInputs_def)
  consider "APIKey h = APISyncGroup" | "APIKey h = APIJoinGroup" | "APIKey h \<in> {APIMetadata, APIFindCoordinator}"
    | "APIKey h \<notin> {APISyncGroup, APIJoinGroup, APIMetadata, APIFindCoordinator}" by blast
  then show ?thesis
  proof cases
    case 1
    then show ?thesis using onSyncGroup_counted [OF same(1) 1, of env body] by (auto simp: OnRequest_def Let_def same(2) api_distinct)
  next
    case 2
    then show ?thesis using onJoinGroup_counted [OF same(1) 2, of env body] by (auto simp: OnRequest_def Let_def same(2) api_distinct)
  next
    case 3
    then have "\<not> requestBroken h body ic" "\<not> asksPlanner h body ic inp" for inp
      by (auto simp: requestBroken_def asksPlanner_def api_distinct)
    moreover have "snd (OnRequest env h body ic) = (if noTopology (icDeps ic) then bumpPassthru (onMetrics ?f ic) else onMetrics ?f ic)"
      using 3 by (auto simp: OnRequest_def onMetadata_def onFindCoordinator_def onMetrics_def api_distinct Let_def)
    moreover have "asksAddresses h ic \<longleftrightarrow> \<not> noTopology (icDeps ic)" using 3 by (simp add: asksAddresses_def)
    ultimately show ?thesis using assms by (cases "noTopology (icDeps ic)") (simp_all add: requestCounted_def passes_def outcome_defs)
  next
    case 4
    then have "\<not> requestBroken h body ic" "\<not> asksPlanner h body ic inp" "\<not> asksAddresses h ic" for inp
      by (auto simp: requestBroken_def asksPlanner_def asksAddresses_def)
    then show ?thesis using 4 assms by (simp add: OnRequest_def Let_def requestCounted_def passes_def outcome_defs)
  qed
qed

lemma applyRewrite_counted:
  assumes "icMetrics ic = Some mx"
  shows "\<exists>mx'. icMetrics (snd (applyRewrite env ic rw dst body p)) = Some mx' \<and> InterceptsTotal mx' = InterceptsTotal mx \<and>
    outcomesAdded mx mx' False (responseBroken rw body p) False False (\<not> responseBroken rw body p)"
  using assms
  by (auto simp: applyRewrite_def rewriteMetadataResp_def rewriteFindCoordResp_def responseBroken_def outcome_defs Let_def
      split: RewriteFn.split sum.split prod.split)

lemma OnRequest_awaits: "awaitsRewrite (fst (OnRequest env h body ic)) \<longleftrightarrow> asksAddresses h ic"
proof -
  have "\<not> awaitsRewrite (fst (onJoinGroup env h body ic))" "\<not> awaitsRewrite (fst (onSyncGroup env h body ic))" for ic
    by (simp_all add: onJoinGroup_def onSyncGroup_def awaitsRewrite_def newPending_def Let_def split: option.split sum.split prod.split)
  moreover have "awaitsRewrite (fst (onMetadata h ic)) \<longleftrightarrow> \<not> noTopology (icDeps ic)"
      "awaitsRewrite (fst (onFindCoordinator h ic)) \<longleftrightarrow> \<not> noTopology (icDeps ic)" for ic
    by (simp_all add: onMetadata_def onFindCoordinator_def awaitsRewrite_def newPending_def)
  moreover have "\<not> awaitsRewrite None" by (simp add: awaitsRewrite_def)
  ultimately show ?thesis by (simp add: OnRequest_def asksAddresses_def onMetrics_def api_distinct Let_def)
qed

lemma OnRequest_rewrites:
  assumes "icMetrics ic = Some mx"
  shows "icSyncGroupRewrites (snd (OnRequest env h body ic)) =
     icSyncGroupRewrites ic + of_bool (\<exists>inp. asksPlanner h body ic inp \<and> \<not> isl (envPlan env inp))"
proof (cases "APIKey h = APISyncGroup")
  case True
  let ?ic = "onMetrics (\<lambda>m. m\<lparr>InterceptsTotal := InterceptsTotal m + 1\<rparr>) ic"
  have "icSyncGroupRewrites (snd (onSyncGroup env h body ?ic)) =
      icSyncGroupRewrites ?ic + of_bool (\<exists>inp. asksPlanner h body ?ic inp \<and> \<not> isl (envPlan env inp))"
    using onSyncGroup_counted [of ?ic _ h env body] assms True by (simp add: onMetrics_def)
  moreover have "asksPlanner h body ?ic inp = asksPlanner h body ic inp" for inp
    by (simp add: asksPlanner_def planInputs_def onMetrics_def)
  ultimately show ?thesis using True by (simp add: OnRequest_def api_distinct Let_def) (simp add: onMetrics_def)
qed (simp add: OnRequest_def onMetadata_def onFindCoordinator_def onJoinGroup_def asksPlanner_def
      onMetrics_def bumpPassthru_def bumpErr_def Let_def split: option.split sum.split)

text \<open>
  C10: every request is counted under the outcome it has.  Each call counts one intercept and then: an
  error exactly when the JoinGroup or SyncGroup request or the subscription in it does not decode; a
  timeout exactly when the planner was asked and failed, whatever the reason; a plan, and a SyncGroup
  rewrite, exactly when the planner answered; a passed-through request otherwise.  A Metadata or
  FindCoordinator request under a topology counts no outcome itself, and it is the only kind of request
  that waits for its response: the rewriter of the response counts an error exactly when the
  response does not decode, and otherwise a rewrite.  The subscription store stays well formed.
\<close>

theorem intercept_accounting:
  assumes "icMetrics ic = Some mx" and "pred_option storeInv (icSubscription ic)"
  shows "(\<exists>mx'. icMetrics (snd (OnRequest env h body ic)) = Some mx' \<and> InterceptsTotal mx' = InterceptsTotal mx + 1 \<and>
      outcomesAdded mx mx' (passes h body ic) (requestBroken h body ic)
        (\<exists>inp. asksPlanner h body ic inp \<and> isl (envPlan env inp))
        (\<exists>inp. asksPlanner h body ic inp \<and> \<not> isl (envPlan env inp)) False) \<and>
    icSyncGroupRewrites (snd (OnRequest env h body ic)) =
      icSyncGroupRewrites ic + of_bool (\<exists>inp. asksPlanner h body ic inp \<and> \<not> isl (envPlan env inp)) \<and>
    (awaitsRewrite (fst (OnRequest env h body ic)) \<longleftrightarrow> asksAddresses h ic) \<and>
    pred_option storeInv (icSubscription (snd (OnRequest env h body ic))) \<and>
    (\<exists>mx'. icMetrics (snd (applyRewrite env ic rw dst resp p)) = Some mx' \<and> InterceptsTotal mx' = InterceptsTotal mx \<and>
      outcomesAdded mx mx' False (responseBroken rw resp p) False False (\<not> responseBroken rw resp p))"
proof -
  have "pred_option storeInv (icSubscription (snd (OnRequest env h body ic)))"
    using assms(2)
    by (auto simp: OnRequest_def onMetadata_def onFindCoordinator_def onJoinGroup_def onSyncGroup_def onMetrics_def
        bumpPassthru_def bumpErr_def Let_def Put_inv split: option.split sum.split prod.split)
  then show ?thesis
    using OnRequest_counted [OF assms(1), of env h body] OnRequest_rewrites [OF assms(1)] OnRequest_awaits applyRewrite_counted [OF assms(1)]
    unfolding requestCounted_def by blast
qed

theorem intercept_accounting_witness:
  "\<exists>mx'. icMetrics (snd (OnRequest sampleEnv (plainHeader 14) sampleSyncBody sampleInterceptor)) = Some mx' \<and>
     PlanCount mx' = 1 \<and> InterceptsTimeout mx' = 0 \<and> InterceptsPassthru mx' = 0 \<and> InterceptsTotal mx' = 1"
proof -
  let ?h = "plainHeader 14" and ?ic = sampleInterceptor
  have ic: "icMetrics ?ic = Some NewMetrics" "pred_option storeInv (icSubscription ?ic)"
    by (simp_all add: sampleInterceptor_def NewInterceptor_def sampleStore_def Put_inv storeInv_new)
  obtain inp where inp: "asksPlanner ?h sampleSyncBody ?ic inp" "\<not> isl (envPlan sampleEnv inp)"
    using sample_syncgroup sample_decodes sample_inputs sample_envPlan unfolding asksPlanner_def by (metis sum.disc(2))
  have one: "inp' = inp" if "asksPlanner ?h sampleSyncBody ?ic inp'" for inp'
    using that inp(1) by (auto simp: asksPlanner_def)
  have "passes ?h sampleSyncBody ?ic = False"
      "(\<exists>inp. asksPlanner ?h sampleSyncBody ?ic inp \<and> isl (envPlan sampleEnv inp)) = False"
      "(\<exists>inp. asksPlanner ?h sampleSyncBody ?ic inp \<and> \<not> isl (envPlan sampleEnv inp)) = True"
    using inp one unfolding passes_def by blast+
  with intercept_accounting [OF ic, of sampleEnv ?h sampleSyncBody, THEN conjunct1]
  obtain mx' where "icMetrics (snd (OnRequest sampleEnv ?h sampleSyncBody ?ic)) = Some mx'"
      "InterceptsTotal mx' = InterceptsTotal NewMetrics + 1"
      "outcomesAdded NewMetrics mx' False (requestBroken ?h sampleSyncBody ?ic) False True False"
    by (simp only:) blast
  then show ?thesis by (simp add: outcomesAdded_def NewMetrics_def)
qed

end
