(* ===== verification/EndToEnd.thy ===== *)
theory EndToEnd
  imports ProxyCorrect InterceptorCorrect
begin

text \<open>
  The proxy with its production interceptor: \<open>proxy.Conn\<close> of \<open>internal/proxy\<close> calling
  \<open>interceptor.Interceptor\<close> of \<open>internal/interceptor\<close>.  Each call may find other surroundings (clock,
  planner answer, map orders), hence a sequence of environments.
\<close>

definition productionHooks :: "Env \<Rightarrow> (Interceptor, RewriteFn) Hooks" where
  "productionHooks env = \<lparr>hkOnRequest = OnRequest env, hkRewrite = applyRewrite env\<rparr>"

text \<open>The topology never changes, and the pending requests ask for the rewriter of their API.\<close>

definition mapsTo :: "Mapping \<Rightarrow> Interceptor \<Rightarrow> bool" where
  "mapsTo m ic \<longleftrightarrow> dTopology (icDeps ic) = Some m \<and> byNodeID m \<noteq> []"

definition rewriterFits :: "RewriteFn Pending \<Rightarrow> bool" where
  "rewriterFits p \<longleftrightarrow>
     (pRewrite p = Some RewriteMetadataResp \<longleftrightarrow> pAPIKey p = APIMetadata) \<and>
     (pRewrite p = Some RewriteFindCoordResp \<longleftrightarrow> pAPIKey p = APIFindCoordinator)"

lemma api_keys: "APIMetadata \<noteq> APIFindCoordinator" "APIFindCoordinator \<noteq> APIMetadata"
  by (simp_all add: APIMetadata_def APIFindCoordinator_def)

lemma OnRequest_deps: "icDeps (snd (OnRequest env h body ic)) = icDeps ic"
  by (auto simp: OnRequest_def onMetadata_def onFindCoordinator_def onJoinGroup_def onSyncGroup_def onMetrics_def
      bumpPassthru_def bumpErr_def Let_def split: option.split sum.split prod.split)

lemma applyRewrite_deps: "icDeps (snd (applyRewrite env ic rw dst body p)) = icDeps ic"
  by (auto simp: applyRewrite_def rewriteMetadataResp_def rewriteFindCoordResp_def onMetrics_def bumpErr_def Let_def
      split: RewriteFn.split sum.split prod.split)

lemma OnRequest_metadata:
  "mapsTo m ic \<Longrightarrow> APIKey h = APIMetadata \<Longrightarrow>
   fst (OnRequest env h body ic) = Some (newPending h (Some RewriteMetadataResp) None)"
  by (simp add: OnRequest_def onMetadata_def onMetrics_def noTopology_def mapsTo_def Len_mapping_def)

lemma OnRequest_findcoord:
  "mapsTo m ic \<Longrightarrow> APIKey h = APIFindCoordinator \<Longrightarrow>
   fst (OnRequest env h body ic) = Some (newPending h (Some RewriteFindCoordResp) None)"
  by (simp add: OnRequest_def onFindCoordinator_def onMetrics_def noTopology_def mapsTo_def Len_mapping_def api_keys)

lemma OnRequest_other:
  "APIKey h \<noteq> APIMetadata \<Longrightarrow> APIKey h \<noteq> APIFindCoordinator \<Longrightarrow>
   fst (OnRequest env h body ic) = Some p \<Longrightarrow> pRewrite p = None"
  by (auto simp: OnRequest_def onJoinGroup_def onSyncGroup_def newPending_def Let_def
      split: option.splits sum.splits prod.splits if_splits)

lemma OnRequest_fits:
  assumes "mapsTo m ic" "fst (OnRequest env h body ic) = Some p"
  shows "rewriterFits (stampPending h now p)"
proof -
  consider "APIKey h = APIMetadata" | "APIKey h = APIFindCoordinator"
    | "APIKey h \<noteq> APIMetadata" "APIKey h \<noteq> APIFindCoordinator" by blast
  then show ?thesis
  proof cases
    case 1
    then show ?thesis using assms OnRequest_metadata [OF assms(1) 1] api_keys by (auto simp: rewriterFits_def stampPending_def newPending_def)
  next
    case 2
    then show ?thesis using assms OnRequest_findcoord [OF assms(1) 2] api_keys by (auto simp: rewriterFits_def stampPending_def newPending_def)
  next
    case 3
    then show ?thesis using assms OnRequest_other by (simp add: rewriterFits_def stampPending_def)
  qed
qed

interpretation production: interceptor_contract "\<lambda>n. productionHooks (envs n)" "mapsTo m" rewriterFits for envs m
proof unfold_locales
  fix ic :: Interceptor assume ic: "mapsTo m ic"
  show "mapsTo m ic'" if "hkOnRequest (productionHooks (envs n)) h body ic = (po, ic')" for n h body po ic'
    using that ic OnRequest_deps [of "envs n" h body ic] by (simp add: productionHooks_def mapsTo_def)
  show "rewriterFits (stampPending h now p)"
    if "hkOnRequest (productionHooks (envs n)) h body ic = (Some p, ic')" for n h body p ic' now
    using that OnRequest_fits [OF ic, of "envs n" h body p] by (simp add: productionHooks_def)
  show "mapsTo m ic'" if "hkRewrite (productionHooks (envs n)) ic rw dst body p = (res, ic')" for n rw dst body p res ic'
    using that ic applyRewrite_deps [of "envs n" ic rw dst body p] by (simp add: productionHooks_def mapsTo_def)
qed

lemma Lookup_advertised:
  "Lookup uni (Some m) n h p = Some e \<Longrightarrow> e \<in> snd ` set (byNodeID m) \<union> snd ` set (byHostPt m)"
  by (auto simp: Lookup_def dest!: mget_in split: option.splits if_splits intro: rev_image_eqI)

lemma rewriteBroker_advertised:
  "brokerMapped uni m b \<Longrightarrow>
   \<lparr>epHost = mbHost (rewriteBroker uni m b), epPort = mbPort (rewriteBroker uni m b)\<rparr>
     \<in> snd ` set (byNodeID m) \<union> snd ` set (byHostPt m)"
  using Lookup_advertised [of uni m "mbNodeID b" "mbHost b" "mbPort b"]
  by (auto simp: brokerMapped_def rewriteBroker_def endpoint_eta simp del: Un_iff)

text \<open>
  With a topology configured, a Metadata or FindCoordinator request that the upstream pump forwards is
  sent on unchanged, and its response is registered for rewriting under its correlation id.
\<close>

lemma address_registered:
  assumes "production.connOk m c0 ic"
    and "ReadFrame (coClientR c0) (coUpBuf c0) = Inr (body, b, r)" "DecodeRequestHeader body = Inr h"
    and "APIKey h = APIMetadata \<or> APIKey h = APIFindCoordinator"
    and "upstreamPump (productionHooks env) pe c0 ic = (None, c, i)"
  shows "\<exists>p. findPending (coTracker c) (CorrelID h) = Some p \<and> pAPIKey p = APIKey h \<and> pAPIVersion p = APIVersion h \<and>
    pRewrite p = Some (if APIKey h = APIMetadata then RewriteMetadataResp else RewriteFindCoordResp) \<and>
    pSent p = peSent pe \<and> written (coBrokerW c) = written (coBrokerW c0) @ encFrame body"
proof -
  note ok = assms(1) [unfolded production.connOk_def]
  have dl: "setDeadline pe c0 = None"
    using assms(5) by (auto simp: upstreamPump_def split: option.splits)
  let ?rw = "if APIKey h = APIMetadata then RewriteMetadataResp else RewriteFindCoordResp"
  obtain i' where req: "hkOnRequest (productionHooks env) h (drop (HeaderSize h) body) ic
      = (Some (newPending h (Some ?rw) None), i')"
    using ok assms(4) OnRequest_metadata [of m ic h env] OnRequest_findcoord [of m ic h env]
    by (auto simp: productionHooks_def api_keys) (metis prod.collapse)+
  have "pRewrite (newPending h (Some ?rw) None) \<noteq> None" by (simp add: newPending_def)
  from rewrite_bypass [OF _ dl assms(2,3) req this assms(5)] ok show ?thesis
    by (auto simp: stampPending_def newPending_def spliceRequest_def split: if_splits)
qed

text \<open>
  The client never sees the cluster's addresses in a Metadata response: when the downstream pump
  forwards the response of a registered Metadata request, the client receives one frame with the
  request's correlation id whose payload decodes to the broker's response with every broker that the
  topology knows at its advertised address; in particular, when every broker is known, only
  advertised addresses remain.
\<close>

lemma metadata_delivered:
  assumes "production.connOk m c0 ic"
    and "ReadFrame (coBrokerR c0) (coDownBuf c0) = Inr (body, b, r)" "PeekResponseCorrelID body = Inr k"
    and "findPending (coTracker c0) k = Some p" "pAPIKey p = APIMetadata"
    and "advertisedFit (IsFlexibleResponse APIMetadata (pAPIVersion p)) m"
    and "downstreamPump (productionHooks env) pe c0 ic = (None, c, i)"
  shows "\<exists>rh bk sent ck. DecodeResponseHeader body APIMetadata (pAPIVersion p) = Inr rh \<and>
    DecodeMetadataResponse (drop (RespHeaderSize rh) body) (pAPIVersion p) = Inr bk \<and>
    written (coClientW c) = written (coClientW c0) @
      encFrame (AppendResponseHeader [] APIMetadata (pAPIVersion p) k @ sent) \<and>
    DecodeMetadataResponse sent (pAPIVersion p) = Inr ck \<and>
    ck = bk\<lparr>mrBrokers := map (rewriteBroker (envFold env) m) (mrBrokers bk)\<rparr> \<and>
    (list_all (brokerMapped (envFold env) m) (mrBrokers bk) \<longrightarrow>
      list_all (\<lambda>b. \<lparr>epHost = mbHost b, epPort = mbPort b\<rparr> \<in> snd ` set (byNodeID m) \<union> snd ` set (byHostPt m)) (mrBrokers ck))"
proof -
  note ok = assms(1) [unfolded production.connOk_def]
  then have rw: "pRewrite p = Some RewriteMetadataResp" and topo: "dTopology (icDeps ic) = Some m"
    using assms(4,5) by (auto simp: rewriterFits_def mapsTo_def)
  from ok response_match [OF _ assms(2,3,7)] assms(4,5) rw obtain rh sent where
      rh: "DecodeResponseHeader body APIMetadata (pAPIVersion p) = Inr rh"
      and sent: "fst (rewriteMetadataResp env ic [] (drop (RespHeaderSize rh) body) p) = Inr sent"
      and out: "written (coClientW c) = written (coClientW c0) @
        encFrame (AppendResponseHeader [] APIMetadata (pAPIVersion p) k @ sent)"
    by (fastforce simp: productionHooks_def applyRewrite_def)
  from sent topo obtain bk where bk: "DecodeMetadataResponse (drop (RespHeaderSize rh) body) (pAPIVersion p) = Inr bk"
      and enc: "sent = AppendMetadataResponse [] (bk\<lparr>mrBrokers := map (rewriteBroker (envFold env) m) (mrBrokers bk)\<rparr>)"
    by (auto simp: rewriteMetadataResp_def RewriteMetadataResponse_def Let_def split: sum.splits)
  let ?ck = "bk\<lparr>mrBrokers := map (rewriteBroker (envFold env) m) (mrBrokers bk)\<rparr>"
  have ck: "DecodeMetadataResponse sent (pAPIVersion p) = Inr ?ck"
    unfolding enc by (rule metadata_reencoded [OF bk assms(6)])
  have "list_all (\<lambda>b. \<lparr>epHost = mbHost b, epPort = mbPort b\<rparr> \<in> snd ` set (byNodeID m) \<union> snd ` set (byHostPt m)) (mrBrokers ?ck)"
    if "list_all (brokerMapped (envFold env) m) (mrBrokers bk)"
    using that rewriteBroker_advertised [of "envFold env" m] by (simp add: list_all_iff del: Un_iff)
  then show ?thesis using rh bk out ck by blast
qed

text \<open>The usable addresses in a FindCoordinator response, and that the topology knows all of them.\<close>

definition toldEndpoints :: "FindCoordinatorResponse \<Rightarrow> Endpoint list" where
  "toldEndpoints r =
     filter (\<lambda>e. epHost e \<noteq> '''' \<and> 0 < sint (epPort e))
       (if sint (fcVersion r) \<le> 3 then [\<lparr>epHost = fcHost r, epPort = fcPort r\<rparr>]
        else map (\<lambda>c. \<lparr>epHost = feHost c, epPort = fePort c\<rparr>) (fcCoordinators r))"

definition coordinatorsKnown :: "(string \<Rightarrow> string) \<Rightarrow> Mapping \<Rightarrow> FindCoordinatorResponse \<Rightarrow> bool" where
  "coordinatorsKnown uni m r \<longleftrightarrow>
     (if sint (fcVersion r) \<le> 3
      then fcHost r \<noteq> '''' \<and> 0 < sint (fcPort r) \<longrightarrow> Lookup uni (Some m) (fcNodeID r) (fcHost r) (fcPort r) \<noteq> None
      else list_all (\<lambda>c. feHost c \<noteq> '''' \<and> 0 < sint (fePort c) \<longrightarrow> entryMapped uni m c) (fcCoordinators r))"

lemma coordinators_advertised:
  assumes "coordinatorsKnown uni m r"
  shows "set (toldEndpoints (snd (RewriteFindCoordinatorResponse uni r (Some m)))) \<subseteq> snd ` set (byNodeID m) \<union> snd ` set (byHostPt m)"
proof (cases "sint (fcVersion r) \<le> 3")
  case True
  then show ?thesis using assms Lookup_advertised [of uni m "fcNodeID r" "fcHost r" "fcPort r"]
    by (auto simp: toldEndpoints_def coordinatorsKnown_def RewriteFindCoordinatorResponse_def endpoint_eta split: option.splits simp del: Un_iff)
next
  case False
  have "\<lparr>epHost = feHost (rewriteEntry uni m c), epPort = fePort (rewriteEntry uni m c)\<rparr> \<in> snd ` set (byNodeID m) \<union> snd ` set (byHostPt m)"
    if "c \<in> set (fcCoordinators r)" "feHost (rewriteEntry uni m c) \<noteq> ''''" "0 < sint (fePort (rewriteEntry uni m c))" for c
    using that False assms Lookup_advertised [of uni m "feNodeID c" "feHost c" "fePort c"]
    by (auto simp: coordinatorsKnown_def entryMapped_def rewriteEntry_def list_all_iff endpoint_eta split: option.splits if_splits simp del: Un_iff)
  then show ?thesis using False
    by (auto simp: toldEndpoints_def RewriteFindCoordinatorResponse_def simp del: Un_iff del: UnCI)
qed

text \<open>The same for a FindCoordinator response.\<close>

lemma coordinator_delivered:
  assumes "production.connOk m c0 ic"
    and "ReadFrame (coBrokerR c0) (coDownBuf c0) = Inr (body, b, r)" "PeekResponseCorrelID body = Inr k"
    and "findPending (coTracker c0) k = Some p" "pAPIKey p = APIFindCoordinator"
    and "advertisedFit (IsFlexibleResponse APIFindCoordinator (pAPIVersion p)) m"
    and "downstreamPump (productionHooks env) pe c0 ic = (None, c, i)"
  shows "\<exists>rh bk sent ck. DecodeResponseHeader body APIFindCoordinator (pAPIVersion p) = Inr rh \<and>
    DecodeFindCoordinatorResponse (drop (RespHeaderSize rh) body) (pAPIVersion p) = Inr bk \<and>
    written (coClientW c) = written (coClientW c0) @
      encFrame (AppendResponseHeader [] APIFindCoordinator (pAPIVersion p) k @ sent) \<and>
    DecodeFindCoordinatorResponse sent (pAPIVersion p) = Inr ck \<and>
    ck = snd (RewriteFindCoordinatorResponse (envFold env) bk (Some m)) \<and>
    (coordinatorsKnown (envFold env) m bk \<longrightarrow>
      set (toldEndpoints ck) \<subseteq> snd ` set (byNodeID m) \<union> snd ` set (byHostPt m))"
proof -
  note ok = assms(1) [unfolded production.connOk_def]
  then have rw: "pRewrite p = Some RewriteFindCoordResp" and topo: "dTopology (icDeps ic) = Some m"
    using assms(4,5) by (auto simp: rewriterFits_def mapsTo_def)
  from ok response_match [OF _ assms(2,3,7)] assms(4,5) rw obtain rh sent where
      rh: "DecodeResponseHeader body APIFindCoordinator (pAPIVersion p) = Inr rh"
      and sent: "fst (rewriteFindCoordResp env ic [] (drop (RespHeaderSize rh) body) p) = Inr sent"
      and out: "written (coClientW c) = written (coClientW c0) @
        encFrame (AppendResponseHeader [] APIFindCoordinator (pAPIVersion p) k @ sent)"
    by (fastforce simp: productionHooks_def applyRewrite_def)
  from sent topo obtain bk where bk: "DecodeFindCoordinatorResponse (drop (RespHeaderSize rh) body) (pAPIVersion p) = Inr bk"
      and enc: "sent = AppendFindCoordinatorResponse [] (snd (RewriteFindCoordinatorResponse (envFold env) bk (Some m)))"
    by (auto simp: rewriteFindCoordResp_def Let_def split: sum.splits)
  have "DecodeFindCoordinatorResponse sent (pAPIVersion p) = Inr (snd (RewriteFindCoordinatorResponse (envFold env) bk (Some m)))"
    unfolding enc by (rule findcoord_reencoded [OF bk assms(6)])
  then show ?thesis using rh bk out coordinators_advertised by blast
qed

end
