(* ===== verification/Shutdown.thy ===== *)
theory Shutdown
  imports GoMap
begin

text \<open>
  \<open>internal/shutdown/deadline.go\<close>: the group of cancellable connections that are drained together.

  The critical sections of \<open>Add\<close>, of the release functions and of \<open>Drain\<close> are functions on the
  group; \<open>group_step\<close> interleaves them.  A member is the number of its registration, a connection
  a number; which contexts were cancelled and which connections were closed is part of the state.
  Every release function is called once, when its connection ends.  A drain is \<open>Drained\<close> when it returned
  because it found no member or took the token of the channel, \<open>Forced\<close> when its deadline came first.
\<close>

section \<open>State and operations\<close>

datatype drain = NotDraining | WaitingEmpty | Drained | Forced

record Group =
  gClosed :: bool
  gMembers :: "(nat, nat option) gomap"
  gEmpty :: "bool option"
  gNext :: nat
  gCancelled :: "nat set"
  gConnsClosed :: "nat set"
  gDrain :: "nat \<Rightarrow> drain"

text \<open>The zero value; \<open>gEmpty\<close> is None while the channel is nil, and tells whether it holds a token.\<close>

definition zeroGroup :: Group where
  "zeroGroup = \<lparr>gClosed = False, gMembers = [], gEmpty = None, gNext = 0, gCancelled = {}, gConnsClosed = {},
     gDrain = (\<lambda>d. NotDraining)\<rparr>"

text \<open>\<open>Add\<close> returns whether the caller was registered, that is whether its release does anything.\<close>

definition Add_group :: "nat option \<Rightarrow> Group \<Rightarrow> bool \<times> Group" where
  "Add_group conn g =
     (let m = gNext g;
          g = g\<lparr>gNext := Suc m, gEmpty := (if gEmpty g = None then Some False else gEmpty g)\<rparr>
      in if gClosed g then (False, g\<lparr>gCancelled := insert m (gCancelled g)\<rparr>)
         else (True, g\<lparr>gMembers := mput m conn (gMembers g)\<rparr>))"

definition release :: "nat \<Rightarrow> Group \<Rightarrow> Group" where
  "release m g =
     (let g = g\<lparr>gMembers := mdel m (gMembers g)\<rparr>
      in if length (gMembers g) = 0 then g\<lparr>gEmpty := Some True\<rparr> else g)"

definition drainBegin :: "nat \<Rightarrow> Group \<Rightarrow> Group" where
  "drainBegin d g =
     (let g = g\<lparr>gClosed := True, gCancelled := gCancelled g \<union> set (mkeys (gMembers g)),
                gEmpty := (if gEmpty g = None then Some False else gEmpty g)\<rparr>
      in g\<lparr>gDrain := (gDrain g)(d := if length (gMembers g) = 0 then Drained else WaitingEmpty)\<rparr>)"

definition drainEmpty :: "nat \<Rightarrow> Group \<Rightarrow> Group" where
  "drainEmpty d g = g\<lparr>gEmpty := Some False, gDrain := (gDrain g)(d := Drained)\<rparr>"

definition drainDeadline :: "nat \<Rightarrow> Group \<Rightarrow> Group" where
  "drainDeadline d g =
     g\<lparr>gConnsClosed := gConnsClosed g \<union> {c. \<exists>m. (m, Some c) \<in> set (gMembers g)}, gDrain := (gDrain g)(d := Forced)\<rparr>"

definition Len_group :: "Group \<Rightarrow> nat" where
  "Len_group g = length (gMembers g)"

inductive group_step :: "Group \<Rightarrow> Group \<Rightarrow> bool" where
  add: "group_step g (snd (Add_group conn g))"
| release: "m \<in> set (mkeys (gMembers g)) \<Longrightarrow> group_step g (release m g)"
| begin_drain: "gDrain g d = NotDraining \<Longrightarrow> group_step g (drainBegin d g)"
| empty: "gDrain g d = WaitingEmpty \<Longrightarrow> gEmpty g = Some True \<Longrightarrow> group_step g (drainEmpty d g)"
| deadline: "gDrain g d = WaitingEmpty \<Longrightarrow> group_step g (drainDeadline d g)"

section \<open>Invariant\<close>

definition group_inv :: "Group \<Rightarrow> bool" where
  "group_inv g \<longleftrightarrow>
     wfmap (gMembers g) \<and> (\<forall>m \<in> set (mkeys (gMembers g)). m < gNext g) \<and>
     (gClosed g \<longrightarrow> set (mkeys (gMembers g)) \<subseteq> gCancelled g) \<and>
     (\<forall>d. gDrain g d \<noteq> NotDraining \<longrightarrow> gClosed g \<and> gEmpty g \<noteq> None)"

text \<open>Once a deadline has come, the socket of every remaining member is closed; before, none is.\<close>

definition force_inv :: "Group \<Rightarrow> bool" where
  "force_inv g \<longleftrightarrow>
     (\<forall>d m c. gDrain g d = Forced \<longrightarrow> mget (gMembers g) m = Some (Some c) \<longrightarrow> c \<in> gConnsClosed g) \<and>
     (gConnsClosed g \<noteq> {} \<longrightarrow> (\<exists>d. gDrain g d = Forced))"

lemma group_inv_zero: "group_inv zeroGroup"
  by (simp add: group_inv_def zeroGroup_def mkeys_def)

lemma mkeys_Nil [simp]: "mkeys [] = []"
  by (simp add: mkeys_def)

lemma mkeys_mdel: "set (mkeys (mdel k m)) = set (mkeys m) - {k}"
  by (auto simp: gm.set_ks)

lemma mkeys_mput: "set (mkeys (mput k v m)) = insert k (set (mkeys m))"
  by (auto simp: gm.set_ks)

lemma group_inv_step: "group_step g g' \<Longrightarrow> group_inv g \<Longrightarrow> group_inv g'"
proof (induction rule: group_step.induct)
  case (add g conn)
  then show ?case
    by (auto simp: group_inv_def Add_group_def Let_def mkeys_mput split: if_splits)
next
  case (release m g)
  then show ?case
    by (auto simp: group_inv_def release_def Let_def mkeys_mdel)
next
  case (begin_drain g d)
  then show ?case
    by (auto simp: group_inv_def drainBegin_def Let_def split: if_splits)
next
  case (empty g d)
  then show ?case
    by (auto simp: group_inv_def drainEmpty_def split: if_splits)
next
  case (deadline g d)
  then show ?case
    by (auto simp: group_inv_def drainDeadline_def split: if_splits)
qed

interpretation drain: step_system group_step zeroGroup group_inv
  by unfold_locales (fact group_inv_zero, fact group_inv_step)

lemma force_inv_step: "group_step g g' \<Longrightarrow> group_inv g \<Longrightarrow> force_inv g \<Longrightarrow> force_inv g'"
proof (induction rule: group_step.induct)
  case (add g conn)
  have "\<not> gClosed g \<Longrightarrow> gDrain g d = NotDraining" for d
    using add(1) by (auto simp: group_inv_def)
  then show ?case
    using add(2) by (cases "gClosed g") (auto simp: force_inv_def Add_group_def Let_def)
next
  case (release m g)
  then show ?case by (auto simp: force_inv_def release_def Let_def split: if_splits)
next
  case (begin_drain g d)
  have "gDrain (drainBegin d g) e = Forced \<longleftrightarrow> gDrain g e = Forced" for e
    using begin_drain(1) by (simp add: drainBegin_def Let_def)
  then show ?case
    using begin_drain(3) by (simp add: force_inv_def) (simp add: drainBegin_def Let_def)
next
  case (empty g d)
  have "gDrain (drainEmpty d g) e = Forced \<longleftrightarrow> gDrain g e = Forced" for e
    using empty(1) by (simp add: drainEmpty_def)
  then show ?case
    using empty(4) by (simp add: force_inv_def) (simp add: drainEmpty_def)
next
  case (deadline g d)
  have wf: "wfmap (gMembers g)" using deadline(2) by (simp add: group_inv_def)
  have "c \<in> gConnsClosed (drainDeadline d g)" if "mget (gMembers (drainDeadline d g)) m = Some (Some c)" for m c
    using that wf by (auto simp: drainDeadline_def mget_in_set)
  moreover have "gDrain (drainDeadline d g) d = Forced" by (simp add: drainDeadline_def)
  ultimately show ?case unfolding force_inv_def by blast
qed

interpretation forced: step_system group_step zeroGroup "\<lambda>g. group_inv g \<and> force_inv g"
proof unfold_locales
  show "group_inv zeroGroup \<and> force_inv zeroGroup"
    using group_inv_zero by (simp add: force_inv_def zeroGroup_def)
  show "group_inv g' \<and> force_inv g'" if "group_step g g'" "group_inv g \<and> force_inv g" for g g'
    using that group_inv_step force_inv_step by blast
qed

section \<open>Properties\<close>

text \<open>
  C34: once a drain has begun, every connection that is still registered has been cancelled, and every
  connection that comes later is cancelled at once and not registered.  A socket is closed only by a
  drain that ran into its deadline, and after one every connection that is still registered and came
  with a socket has it closed.  Nothing of the kind holds after a drain that returned before its
  deadline: see \<open>drain_returns_early\<close>.
\<close>

theorem drain_reaches_all:
  assumes "group_step\<^sup>*\<^sup>* zeroGroup g" "gDrain g d \<noteq> NotDraining"
  shows "(\<forall>m \<in> set (mkeys (gMembers g)). m \<in> gCancelled g) \<and>
    (\<exists>g'. Add_group conn g = (False, g') \<and> gNext g \<in> gCancelled g' \<and> gMembers g' = gMembers g) \<and>
    (gConnsClosed g \<noteq> {} \<longrightarrow> (\<exists>e. gDrain g e = Forced)) \<and>
    (gDrain g d = Forced \<longrightarrow> (\<forall>m c. mget (gMembers g) m = Some (Some c) \<longrightarrow> c \<in> gConnsClosed g))"
proof -
  have inv: "group_inv g" "force_inv g"
    using forced.reachable [OF assms(1)] by simp_all
  then have "gClosed g"
    using assms(2) by (auto simp: group_inv_def)
  then have "(\<forall>m \<in> set (mkeys (gMembers g)). m \<in> gCancelled g) \<and>
      (\<exists>g'. Add_group conn g = (False, g') \<and> gNext g \<in> gCancelled g' \<and> gMembers g' = gMembers g)"
    using inv(1) by (auto simp: group_inv_def Add_group_def Let_def)
  then show ?thesis
    using inv(2) unfolding force_inv_def by blast
qed

definition wakes :: "nat \<Rightarrow> Group \<Rightarrow> bool" where
  "wakes d g \<longleftrightarrow>
     (gDrain g d = WaitingEmpty \<longrightarrow> (\<forall>d'. d' \<noteq> d \<longrightarrow> gDrain g d' = NotDraining) \<longrightarrow> gMembers g = [] \<longrightarrow> gEmpty g = Some True)"

lemma wakes_step: "group_step g g' \<Longrightarrow> group_inv g \<Longrightarrow> wakes d g \<Longrightarrow> wakes d g'"
proof (induction rule: group_step.induct)
  case (add g conn)
  then show ?case
    by (auto simp: wakes_def group_inv_def Add_group_def Let_def split: if_splits)
next
  case (release m g)
  then show ?case by (auto simp: wakes_def release_def Let_def)
next
  case (begin_drain g e)
  then show ?case
    by (auto simp: wakes_def drainBegin_def Let_def split: if_splits)
next
  case (empty g e)
  then show ?case by (auto simp: wakes_def drainEmpty_def split: if_splits)
next
  case (deadline g e)
  then show ?case by (auto simp: wakes_def drainDeadline_def split: if_splits)
qed

interpretation wake: step_system group_step zeroGroup "\<lambda>g. group_inv g \<and> wakes d g" for d
proof unfold_locales
  show "group_inv zeroGroup \<and> wakes d zeroGroup"
    using group_inv_zero by (simp add: wakes_def zeroGroup_def)
  show "group_inv g' \<and> wakes d g'" if "group_step g g'" "group_inv g \<and> wakes d g" for g g'
    using that group_inv_step wakes_step by blast
qed

text \<open>
  A drain that is the only one never oversleeps: as soon as the last connection is released,
  its wait can end without the deadline.
\<close>

theorem only_drain_wakes:
  assumes "group_step\<^sup>*\<^sup>* zeroGroup g" "gDrain g d = WaitingEmpty"
    and "\<And>d'. d' \<noteq> d \<Longrightarrow> gDrain g d' = NotDraining" "Len_group g = 0"
  shows "group_step g (drainEmpty d g)"
proof -
  have "wakes d g"
    using wake.reachable [OF assms(1)] by blast
  then have "gEmpty g = Some True"
    using assms(2-4) by (simp add: wakes_def Len_group_def)
  then show ?thesis
    using assms(2) by (intro group_step.empty)
qed

text \<open>
  The token of an earlier moment without members stays in the channel: a drain that begins later
  takes it and returns although a connection is still registered and no deadline has passed.
\<close>

lemma drain_returns_early:
  "\<exists>g. group_step\<^sup>*\<^sup>* zeroGroup g \<and> gDrain g 0 = Drained \<and> Len_group g = 1 \<and> gConnsClosed g = {}"
proof -
  define g1 where "g1 = snd (Add_group None zeroGroup)"
  define g2 where "g2 = release 0 g1"
  define g3 where "g3 = snd (Add_group None g2)"
  define g4 where "g4 = drainBegin 0 g3"
  have g1: "g1 = zeroGroup\<lparr>gNext := 1, gEmpty := Some False, gMembers := [(0, None)]\<rparr>"
    by (simp add: g1_def zeroGroup_def Add_group_def mput_def)
  have g2: "g2 = zeroGroup\<lparr>gNext := 1, gEmpty := Some True, gMembers := []\<rparr>"
    by (simp add: g2_def g1 zeroGroup_def release_def mdel_def)
  have g3: "g3 = zeroGroup\<lparr>gNext := 2, gEmpty := Some True, gMembers := [(1, None)]\<rparr>"
    by (simp add: g3_def g2 zeroGroup_def Add_group_def mput_def)
  have g4: "gDrain g4 0 = WaitingEmpty" "gEmpty g4 = Some True" "gMembers g4 = [(1, None)]" "gConnsClosed g4 = {}"
    by (simp_all add: g4_def g3 drainBegin_def zeroGroup_def Let_def)
  have "group_step zeroGroup g1" "group_step g1 g2" "group_step g2 g3" "group_step g3 g4"
    unfolding g1_def g2_def g3_def g4_def
    by (rule group_step.add, rule group_step.release, simp add: Add_group_def zeroGroup_def mput_def mkeys_def,
        rule group_step.add, rule group_step.begin_drain, simp add: Add_group_def zeroGroup_def release_def Let_def)
  then have "group_step\<^sup>*\<^sup>* zeroGroup g4"
    by simp
  moreover have "group_step g4 (drainEmpty 0 g4)"
    using g4 by (intro group_step.empty)
  ultimately have "group_step\<^sup>*\<^sup>* zeroGroup (drainEmpty 0 g4)"
    by simp
  then show ?thesis
    using g4 by (intro exI [of _ "drainEmpty 0 g4"]) (simp add: drainEmpty_def Len_group_def)
qed

section \<open>Examples\<close>

definition drainingGroup :: Group where
  "drainingGroup = drainBegin 0 (snd (Add_group (Some 7) zeroGroup))"

lemma drainingGroup_eq:
  "drainingGroup = zeroGroup\<lparr>gNext := 1, gEmpty := Some False, gMembers := [(0, Some 7)], gClosed := True,
     gCancelled := {0}, gDrain := (\<lambda>d. NotDraining)(0 := WaitingEmpty)\<rparr>"
  by (simp add: drainingGroup_def drainBegin_def Add_group_def zeroGroup_def mput_def mkeys_def Let_def)

lemma drainingGroup_reachable: "group_step\<^sup>*\<^sup>* zeroGroup drainingGroup"
proof -
  have "group_step zeroGroup (snd (Add_group (Some 7) zeroGroup))"
    by (rule group_step.add)
  moreover have "group_step (snd (Add_group (Some 7) zeroGroup)) drainingGroup"
    unfolding drainingGroup_def by (rule group_step.begin_drain) (simp add: Add_group_def zeroGroup_def)
  ultimately show ?thesis by simp
qed

theorem drain_reaches_all_witness:
  "group_step\<^sup>*\<^sup>* zeroGroup (drainDeadline 0 drainingGroup) \<and> 0 \<in> gCancelled (drainDeadline 0 drainingGroup) \<and>
   Len_group (drainDeadline 0 drainingGroup) = 1 \<and> 7 \<in> gConnsClosed (drainDeadline 0 drainingGroup)"
proof -
  have "group_step drainingGroup (drainDeadline 0 drainingGroup)"
    by (rule group_step.deadline) (simp add: drainingGroup_eq)
  then have "group_step\<^sup>*\<^sup>* zeroGroup (drainDeadline 0 drainingGroup)"
    using drainingGroup_reachable by simp
  moreover from this have "7 \<in> gConnsClosed (drainDeadline 0 drainingGroup) \<and> 0 \<in> gCancelled (drainDeadline 0 drainingGroup)"
    using drain_reaches_all [of "drainDeadline 0 drainingGroup" 0 None]
    by (simp add: drainDeadline_def drainingGroup_eq mget_def mkeys_def)
  ultimately show ?thesis by (simp add: Len_group_def drainDeadline_def drainingGroup_eq)
qed

theorem only_drain_wakes_witness:
  "group_step (release 0 drainingGroup) (drainEmpty 0 (release 0 drainingGroup))"
proof (rule only_drain_wakes)
  have "group_step drainingGroup (release 0 drainingGroup)"
    by (rule group_step.release) (simp add: drainingGroup_eq mkeys_def)
  then show "group_step\<^sup>*\<^sup>* zeroGroup (release 0 drainingGroup)"
    using drainingGroup_reachable by simp
qed (simp_all add: drainingGroup_eq zeroGroup_def release_def mdel_def Len_group_def)

end
