(* ===== verification/Planner.thy ===== *)
theory Planner
  imports PlanCorrect
begin

text \<open>
  \<open>internal/planner/planner.go\<close>: the bounded pool of workers that compute plans.

  The pool, its workers and the callers of \<open>Plan\<close> run concurrently.  Their atomic actions (a send or
  a receive on a channel, the choice of a ready case of a \<open>select\<close>, the close of \<open>closed\<close>) are the
  rules of \<open>planner_step\<close>.  Every call of \<open>Plan\<close> makes a reply channel of its own, which is a number
  from \<open>plNext\<close>.  What a computation gives is the argument \<open>compute\<close>, whose value None is a panic;
  the properties are about \<open>plan.Compute\<close>.
\<close>

section \<open>State\<close>

datatype poolErr = ErrClosed | ErrCtx

record Request =
  rqIn :: Inputs
  rqReply :: nat

text \<open>A reply: the plan, nil when \<open>Compute\<close> panicked.\<close>

record Reply =
  rpPlan :: "Plan option"
  rpPanic :: bool

datatype caller =
    Outside
  | Entered Inputs
  | Sending nat Inputs
  | Awaiting nat Inputs
  | Returned Inputs "poolErr + Plan option"

record Pool =
  plWorkers :: nat
  plDepth :: nat
  plQueue :: "Request list"
  plClosed :: bool
  plBusy :: "nat \<rightharpoonup> Request"
  plExited :: "nat set"
  plReplies :: "nat \<rightharpoonup> Reply"
  plNext :: nat
  plCaller :: "nat \<Rightarrow> caller"
  plClosing :: "nat \<Rightarrow> bool"
  plPanic :: bool

definition New :: "int \<Rightarrow> int \<Rightarrow> int \<Rightarrow> Pool" where
  "New maxprocs workers queueDepth =
     (let workers = (if workers \<le> 0 then maxprocs else workers);
          queueDepth = (if queueDepth < 0 then workers * 4 else queueDepth)
      in \<lparr>plWorkers = nat workers, plDepth = nat queueDepth, plQueue = [], plClosed = False, plBusy = Map.empty,
          plExited = {}, plReplies = Map.empty, plNext = 0, plCaller = (\<lambda>c. Outside), plClosing = (\<lambda>c. False),
          plPanic = False\<rparr>)"

definition runOne :: "(Inputs \<Rightarrow> Plan option) \<Rightarrow> Request \<Rightarrow> Reply" where
  "runOne compute req =
     (case compute (rqIn req) of
        None \<Rightarrow> \<lparr>rpPlan = None, rpPanic = True\<rparr>
      | Some out \<Rightarrow> \<lparr>rpPlan = Some out, rpPanic = False\<rparr>)"

section \<open>Steps\<close>

definition idleWorker :: "Pool \<Rightarrow> nat \<Rightarrow> bool" where
  "idleWorker p w \<longleftrightarrow> w < plWorkers p \<and> w \<notin> plExited p \<and> plBusy p w = None"

definition setCaller :: "nat \<Rightarrow> caller \<Rightarrow> Pool \<Rightarrow> Pool" where
  "setCaller c ph p = p\<lparr>plCaller := (plCaller p)(c := ph)\<rparr>"

text \<open>The worker loop: stop when closed, or take a request and run it.\<close>

inductive worker_step :: "(Inputs \<Rightarrow> Plan option) \<Rightarrow> Pool \<Rightarrow> Pool \<Rightarrow> bool" for compute where
  exit: "idleWorker p w \<Longrightarrow> plClosed p \<Longrightarrow> worker_step compute p (p\<lparr>plExited := insert w (plExited p)\<rparr>)"
| take: "idleWorker p w \<Longrightarrow> plQueue p = r # rs \<Longrightarrow>
    worker_step compute p (p\<lparr>plQueue := rs, plBusy := (plBusy p)(w \<mapsto> r)\<rparr>)"
| reply: "plBusy p w = Some r \<Longrightarrow>
    worker_step compute p (p\<lparr>plBusy := (plBusy p)(w := None), plReplies := (plReplies p)(rqReply r \<mapsto> runOne compute r)\<rparr>)"

text \<open>A call of \<open>Plan\<close>.  A send succeeds when the buffer has room, or directly into an idle worker.\<close>

inductive plan_step :: "Pool \<Rightarrow> Pool \<Rightarrow> bool" where
  enter: "plCaller p c = Outside \<Longrightarrow> plan_step p (setCaller c (Entered inp) p)"
| refuse: "plCaller p c = Entered inp \<Longrightarrow> plClosed p \<Longrightarrow> plan_step p (setCaller c (Returned inp (Inl ErrClosed)) p)"
| open_reply: "plCaller p c = Entered inp \<Longrightarrow> \<not> plClosed p \<Longrightarrow>
    plan_step p (setCaller c (Sending (plNext p) inp) (p\<lparr>plNext := Suc (plNext p)\<rparr>))"
| send_closed: "plCaller p c = Sending n inp \<Longrightarrow> plClosed p \<Longrightarrow> plan_step p (setCaller c (Returned inp (Inl ErrClosed)) p)"
| send_ctx: "plCaller p c = Sending n inp \<Longrightarrow> plan_step p (setCaller c (Returned inp (Inl ErrCtx)) p)"
| send: "plCaller p c = Sending n inp \<Longrightarrow> length (plQueue p) < plDepth p \<Longrightarrow>
    plan_step p (setCaller c (Awaiting n inp) (p\<lparr>plQueue := plQueue p @ [\<lparr>rqIn = inp, rqReply = n\<rparr>]\<rparr>))"
| handoff: "plCaller p c = Sending n inp \<Longrightarrow> plQueue p = [] \<Longrightarrow> idleWorker p w \<Longrightarrow>
    plan_step p (setCaller c (Awaiting n inp) (p\<lparr>plBusy := (plBusy p)(w \<mapsto> \<lparr>rqIn = inp, rqReply = n\<rparr>)\<rparr>))"
| receive: "plCaller p c = Awaiting n inp \<Longrightarrow> plReplies p n = Some r \<Longrightarrow>
    plan_step p (setCaller c (Returned inp (Inr (rpPlan r))) p)"
| wait_closed: "plCaller p c = Awaiting n inp \<Longrightarrow> plClosed p \<Longrightarrow> plan_step p (setCaller c (Returned inp (Inl ErrClosed)) p)"
| wait_ctx: "plCaller p c = Awaiting n inp \<Longrightarrow> plan_step p (setCaller c (Returned inp (Inl ErrCtx)) p)"
| leave: "plCaller p c = Returned inp res \<Longrightarrow> plan_step p (setCaller c Outside p)"

text \<open>\<open>Close\<close>: a check, then the close, which panics when another caller was faster.\<close>

inductive close_step :: "Pool \<Rightarrow> Pool \<Rightarrow> bool" where
  check: "\<not> plClosing p c \<Longrightarrow> \<not> plClosed p \<Longrightarrow> close_step p (p\<lparr>plClosing := (plClosing p)(c := True)\<rparr>)"
| close: "plClosing p c \<Longrightarrow> close_step p (p\<lparr>plClosing := (plClosing p)(c := False), plPanic := plPanic p \<or> plClosed p, plClosed := True\<rparr>)"

definition planner_step :: "(Inputs \<Rightarrow> Plan option) \<Rightarrow> Pool \<Rightarrow> Pool \<Rightarrow> bool" where
  "planner_step compute p p' \<longleftrightarrow> worker_step compute p p' \<or> plan_step p p' \<or> close_step p p'"

section \<open>Invariant\<close>

text \<open>Where the request of a reply channel is: queued, or with a worker.\<close>

definition inFlight :: "Pool \<Rightarrow> Request \<Rightarrow> bool" where
  "inFlight p r \<longleftrightarrow> r \<in> set (plQueue p) \<or> r \<in> ran (plBusy p)"

fun callOf :: "caller \<Rightarrow> (nat \<times> Inputs) option" where
  "callOf (Sending n inp) = Some (n, inp)"
| "callOf (Awaiting n inp) = Some (n, inp)"
| "callOf _ = None"

definition resultOk :: "(Inputs \<Rightarrow> Plan option) \<Rightarrow> caller \<Rightarrow> bool" where
  "resultOk compute ph \<longleftrightarrow> (\<forall>inp res. ph = Returned inp (Inr res) \<longrightarrow> res = compute inp)"

definition sized :: "Pool \<Rightarrow> bool" where
  "sized p \<longleftrightarrow> length (plQueue p) \<le> plDepth p \<and> dom (plBusy p) \<subseteq> {..<plWorkers p} - plExited p"

text \<open>The calls made so far, by the number of their reply channel: every call, request and reply agrees
  with that table, and a call that waits has its request in the pool or its reply.\<close>

definition answered :: "(Inputs \<Rightarrow> Plan option) \<Rightarrow> (nat \<rightharpoonup> Inputs) \<Rightarrow> Pool \<Rightarrow> bool" where
  "answered compute tab p \<longleftrightarrow>
     (\<forall>n \<ge> plNext p. tab n = None) \<and>
     (\<forall>c n inp. callOf (plCaller p c) = Some (n, inp) \<longrightarrow> tab n = Some inp) \<and>
     (\<forall>r. inFlight p r \<longrightarrow> tab (rqReply r) = Some (rqIn r)) \<and>
     (\<forall>n rp. plReplies p n = Some rp \<longrightarrow> map_option compute (tab n) = Some (rpPlan rp)) \<and>
     (\<forall>c n inp. plCaller p c = Awaiting n inp \<longrightarrow> inFlight p \<lparr>rqIn = inp, rqReply = n\<rparr> \<or> plReplies p n \<noteq> None) \<and>
     (\<forall>c. resultOk compute (plCaller p c))"

lemma sized_new: "sized (New maxprocs workers depth)"
  by (simp add: sized_def New_def Let_def)

lemma answered_new: "answered compute Map.empty (New maxprocs workers depth)"
  by (simp add: answered_def inFlight_def New_def Let_def resultOk_def)

lemma runOne_plan: "rpPlan (runOne compute r) = compute (rqIn r)"
  by (simp add: runOne_def split: option.split)

lemma sized_step: "planner_step compute p p' \<Longrightarrow> sized p \<Longrightarrow> sized p' \<and> plWorkers p' = plWorkers p \<and> plDepth p' = plDepth p"
  unfolding planner_step_def
  by (elim disjE worker_step.cases plan_step.cases close_step.cases)
    (auto simp: sized_def setCaller_def idleWorker_def)

lemma inFlight_simps:
  "inFlight (p\<lparr>plCaller := f\<rparr>) r = inFlight p r" "inFlight (p\<lparr>plNext := n\<rparr>) r = inFlight p r"
  "inFlight (p\<lparr>plExited := x\<rparr>) r = inFlight p r" "inFlight (p\<lparr>plReplies := g\<rparr>) r = inFlight p r"
  by (simp_all add: inFlight_def)

text \<open>A change of one caller's program point.\<close>

lemma answered_setCaller:
  assumes "answered compute tab p"
    and "\<And>n inp. callOf ph = Some (n, inp) \<Longrightarrow> tab n = Some inp"
    and "\<And>n inp. ph = Awaiting n inp \<Longrightarrow> inFlight p \<lparr>rqIn = inp, rqReply = n\<rparr> \<or> plReplies p n \<noteq> None"
    and "resultOk compute ph"
  shows "answered compute tab (setCaller c ph p)"
  using assms unfolding answered_def setCaller_def by (auto simp: inFlight_simps)

lemma answered_worker:
  assumes "worker_step compute p p'" "answered compute tab p"
  shows "answered compute tab p'"
  using assms
proof (induction rule: worker_step.induct)
  case (exit p w)
  then show ?case by (simp add: answered_def inFlight_simps)
next
  case (take p w r rs)
  then have "inFlight (p\<lparr>plQueue := rs, plBusy := (plBusy p)(w \<mapsto> r)\<rparr>) = inFlight p"
    by (auto simp: fun_eq_iff inFlight_def idleWorker_def)
  with take show ?case by (simp add: answered_def)
next
  case (reply p w r)
  let ?p = "p\<lparr>plBusy := (plBusy p)(w := None), plReplies := (plReplies p)(rqReply r \<mapsto> runOne compute r)\<rparr>"
  have r: "inFlight p r"
    using reply by (auto simp: inFlight_def ran_def)
  have less: "inFlight p q" if "inFlight ?p q" for q
    using that by (auto simp: inFlight_def ran_def split: if_splits)
  have more: "inFlight ?p q \<or> q = r" if "inFlight p q" for q
    using that reply by (auto simp: inFlight_def ran_def) (metis option.inject)
  show ?case
    using reply r less more unfolding answered_def by (simp add: runOne_plan) (metis Request.simps(2))
qed

text \<open>A request put into the pool by a call that sends it.\<close>

lemma answered_put:
  assumes "answered compute tab p" "plCaller p c = Sending n inp"
    and "\<And>r. inFlight p' r \<longleftrightarrow> inFlight p r \<or> r = \<lparr>rqIn = inp, rqReply = n\<rparr>"
    and "plCaller p' = plCaller p" "plReplies p' = plReplies p" "plNext p' = plNext p"
  shows "answered compute tab (setCaller c (Awaiting n inp) p')"
proof -
  have tab: "tab n = Some inp"
    using assms(1,2) unfolding answered_def by (metis callOf.simps(1))
  then have "answered compute tab p'"
    using assms(1) unfolding answered_def assms(3-6) by (simp, blast)
  then show ?thesis
    by (rule answered_setCaller) (auto simp: tab assms(3) resultOk_def)
qed

lemma answered_plan:
  assumes "plan_step p p'" "answered compute tab p"
  shows "\<exists>tab'. answered compute tab' p'"
  using assms
proof (induction rule: plan_step.induct)
  case (open_reply p c inp)
  let ?tab = "tab(plNext p \<mapsto> inp)"
  have none: "tab (plNext p) = None"
    using open_reply unfolding answered_def by blast
  then have "tab \<subseteq>\<^sub>m ?tab"
    by (auto simp: map_le_def)
  then have "answered compute ?tab (p\<lparr>plNext := Suc (plNext p)\<rparr>)"
    using open_reply none unfolding answered_def by (auto simp: inFlight_simps) force
  then have "answered compute ?tab (setCaller c (Sending (plNext p) inp) (p\<lparr>plNext := Suc (plNext p)\<rparr>))"
    by (rule answered_setCaller) (auto simp: resultOk_def)
  then show ?case by blast
next
  case (send p c n inp)
  then have "answered compute tab (setCaller c (Awaiting n inp) (p\<lparr>plQueue := plQueue p @ [\<lparr>rqIn = inp, rqReply = n\<rparr>]\<rparr>))"
    by (intro answered_put) (auto simp: inFlight_def)
  then show ?case by blast
next
  case (handoff p c n inp w)
  then have "answered compute tab (setCaller c (Awaiting n inp) (p\<lparr>plBusy := (plBusy p)(w \<mapsto> \<lparr>rqIn = inp, rqReply = n\<rparr>)\<rparr>))"
    by (intro answered_put) (auto simp: inFlight_def idleWorker_def)
  then show ?case by blast
next
  case (receive p c n inp r)
  then have "tab n = Some inp" "map_option compute (tab n) = Some (rpPlan r)"
    unfolding answered_def by (metis callOf.simps(2))+
  then have "rpPlan r = compute inp" by simp
  with receive show ?case
    by (intro exI answered_setCaller) (auto simp: resultOk_def)
qed (intro exI answered_setCaller, assumption, auto simp: resultOk_def)+

lemma answered_close: "close_step p p' \<Longrightarrow> answered compute tab p \<Longrightarrow> answered compute tab p'"
  by (erule close_step.cases) (simp_all add: answered_def inFlight_def)

interpretation pool: step_system "planner_step compute" "New maxprocs workers depth"
  "\<lambda>p. sized p \<and> plWorkers p = plWorkers (New maxprocs workers depth) \<and>
    plDepth p = plDepth (New maxprocs workers depth) \<and> (\<exists>tab. answered compute tab p)"
  for compute maxprocs workers depth
proof unfold_locales
  fix p p'
  assume step: "planner_step compute p p'"
    and inv: "sized p \<and> plWorkers p = plWorkers (New maxprocs workers depth) \<and>
      plDepth p = plDepth (New maxprocs workers depth) \<and> (\<exists>tab. answered compute tab p)"
  then have "\<exists>tab. answered compute tab p'"
    using answered_worker answered_plan answered_close unfolding planner_step_def by blast
  then show "sized p' \<and> plWorkers p' = plWorkers (New maxprocs workers depth) \<and>
      plDepth p' = plDepth (New maxprocs workers depth) \<and> (\<exists>tab. answered compute tab p')"
    using inv sized_step [OF step] by simp
qed (use sized_new answered_new in blast)

section \<open>Properties\<close>

text \<open>
  C26: a call of \<open>Plan\<close> gets the answer to its own question.  Whatever the interleaving of callers,
  workers and \<open>Close\<close>, and whatever earlier calls timed out, a call that returns a plan returns
  \<open>Compute\<close> of its own inputs, and it returns none without an error only when that very computation
  panicked.
\<close>

theorem plan_answers_own_call:
  assumes "(planner_step compute)\<^sup>*\<^sup>* (New maxprocs workers depth) p"
    and "\<And>inp out. compute inp = Some out \<Longrightarrow> out = Compute ord inp"
    and "plCaller p c = Returned inp (Inr res)"
  shows "case res of Some plan \<Rightarrow> plan = Compute ord inp | None \<Rightarrow> compute inp = None"
proof -
  have "res = compute inp"
    using pool.reachable [OF assms(1)] assms(3) unfolding answered_def resultOk_def by blast
  then show ?thesis
    using assms(2) by (auto split: option.split)
qed

text \<open>
  The pool stays within its bounds: never more requests are buffered than the queue is deep
  and never more computations run than there are workers.
\<close>

theorem pool_bounded:
  assumes "(planner_step compute)\<^sup>*\<^sup>* (New maxprocs workers depth) p"
  shows "int (length (plQueue p)) \<le> max 0 (if depth < 0 then 4 * (if workers \<le> 0 then maxprocs else workers) else depth) \<and>
    int (card (dom (plBusy p))) \<le> max 0 (if workers \<le> 0 then maxprocs else workers)"
proof -
  have "card (dom (plBusy p)) \<le> card {..<plWorkers p}"
    using pool.reachable [OF assms] by (intro card_mono) (auto simp: sized_def)
  then show ?thesis
    using pool.reachable [OF assms] by (auto simp: sized_def New_def Let_def max_def)
qed

interpretation staff: step_system "planner_step compute" "New maxprocs workers depth" "\<lambda>p. \<not> plClosed p \<longrightarrow> plExited p = {}"
  for compute maxprocs workers depth
proof unfold_locales
  show "\<not> plClosed p' \<longrightarrow> plExited p' = {}" if "planner_step compute p p'" "\<not> plClosed p \<longrightarrow> plExited p = {}" for p p'
    using that unfolding planner_step_def
    by (elim disjE worker_step.cases plan_step.cases close_step.cases) (auto simp: setCaller_def)
qed (simp add: New_def Let_def)

lemma busy_replies:
  assumes "plBusy p w = Some r"
  shows "\<exists>p'. worker_step compute p p' \<and> plReplies p' (rqReply r) \<noteq> None \<and> plBusy p' = (plBusy p)(w := None) \<and>
    plQueue p' = plQueue p \<and> plExited p' = plExited p \<and> plWorkers p' = plWorkers p"
  using worker_step.reply [of p w r compute, OF assms] by fastforce

lemma workers_drain:
  assumes "inFlight p r" "plExited p = {}" "0 < plWorkers p"
  shows "\<exists>p'. (worker_step compute)\<^sup>*\<^sup>* p p' \<and> plReplies p' (rqReply r) \<noteq> None"
  using assms
proof (induction "length (plQueue p)" arbitrary: p rule: less_induct)
  case less
  show ?case
  proof (cases "r \<in> ran (plBusy p)")
    case True
    then obtain w where "plBusy p w = Some r"
      by (auto simp: ran_def)
    from busy_replies [OF this] show ?thesis
      by (meson r_into_rtranclp)
  next
    case False
    then obtain q qs where q: "plQueue p = q # qs" "r \<in> set (q # qs)"
      using less.prems(1) by (cases "plQueue p") (auto simp: inFlight_def)
    obtain p1 where p1: "(worker_step compute)\<^sup>*\<^sup>* p p1" "plBusy p1 0 = None" "plQueue p1 = q # qs"
        "plExited p1 = {}" "0 < plWorkers p1"
    proof (cases "plBusy p 0")
      case None
      then show ?thesis using that [of p] less.prems q by simp
    next
      case (Some r0)
      from busy_replies [OF this, of compute] obtain p1 where "worker_step compute p p1" "plBusy p1 = (plBusy p)(0 := None)"
          "plQueue p1 = plQueue p" "plExited p1 = plExited p" "plWorkers p1 = plWorkers p"
        by blast
      then show ?thesis using that [of p1] less.prems q by (simp add: r_into_rtranclp)
    qed
    let ?p2 = "p1\<lparr>plQueue := qs, plBusy := (plBusy p1)(0 \<mapsto> q)\<rparr>"
    have "worker_step compute p1 ?p2"
      using p1 by (intro worker_step.take) (auto simp: idleWorker_def)
    moreover have "inFlight ?p2 r"
      using q(2) by (auto simp: inFlight_def ran_def)
    then have "\<exists>p'. (worker_step compute)\<^sup>*\<^sup>* ?p2 p' \<and> plReplies p' (rqReply r) \<noteq> None"
      using less.hyps [of ?p2] p1 q(1) by simp
    ultimately show ?thesis
      using p1(1) by (meson rtranclp.rtrancl_into_rtrancl rtranclp_trans)
  qed
qed

text \<open>
  C27: a caller of an open pool that waits is never forgotten: the workers alone, without any other
  party taking a step, can bring the pool to a state in which its reply is there.
\<close>

theorem waiting_call_served:
  assumes "(planner_step compute)\<^sup>*\<^sup>* (New maxprocs workers depth) p"
    and "plCaller p c = Awaiting n inp" "\<not> plClosed p" "0 < plWorkers p"
  shows "\<exists>p'. (worker_step compute)\<^sup>*\<^sup>* p p' \<and> plReplies p' n \<noteq> None"
proof (cases "plReplies p n")
  case None
  then have "inFlight p \<lparr>rqIn = inp, rqReply = n\<rparr>"
    using pool.reachable [OF assms(1)] assms(2) unfolding answered_def by blast
  from workers_drain [OF this mp [OF staff.reachable [OF assms(1)] assms(3)] assms(4)] show ?thesis
    by simp
next
  case (Some rp)
  then show ?thesis by blast
qed

text \<open>After \<open>Close\<close> a new call is refused, and every call in progress can return \<open>ErrClosed\<close>.\<close>

lemma closed_pool_refuses:
  assumes "plClosed p" "plCaller p c = Entered inp" "plan_step p p'" "plCaller p' c \<noteq> plCaller p c"
  shows "plCaller p' c = Returned inp (Inl ErrClosed)"
  using assms(3,1,2,4) by cases (auto simp: setCaller_def split: if_splits)

lemma closed_pool_returns:
  assumes "plClosed p" "callOf (plCaller p c) = Some (n, inp)"
  shows "plan_step p (setCaller c (Returned inp (Inl ErrClosed)) p)"
  using assms by (cases "plCaller p c") (auto intro: plan_step.intros)

text \<open>Two concurrent calls of \<open>Close\<close> can both pass the check, and the second close panics.\<close>

lemma concurrent_close_panics:
  "\<exists>p. (planner_step compute)\<^sup>*\<^sup>* (New maxprocs workers depth) p \<and> plPanic p"
proof -
  define p0 where "p0 = New maxprocs workers depth"
  define p1 where "p1 = p0\<lparr>plClosing := (plClosing p0)(0 := True)\<rparr>"
  define p2 where "p2 = p1\<lparr>plClosing := (plClosing p1)(1 := True)\<rparr>"
  define p3 where "p3 = p2\<lparr>plClosing := (plClosing p2)(0 := False), plPanic := plPanic p2 \<or> plClosed p2, plClosed := True\<rparr>"
  define p4 where "p4 = p3\<lparr>plClosing := (plClosing p3)(1 := False), plPanic := plPanic p3 \<or> plClosed p3, plClosed := True\<rparr>"
  note defs = p0_def p1_def p2_def p3_def p4_def
  have "\<not> plClosing p0 0" "\<not> plClosed p0" "\<not> plClosing p1 1" "\<not> plClosed p1" "plClosing p2 0" "plClosing p3 1"
    by (simp_all add: defs New_def Let_def)
  then have "close_step p0 p1" "close_step p1 p2" "close_step p2 p3" "close_step p3 p4"
    using close_step.check [of p0 0] close_step.check [of p1 1] close_step.close [of p2 0] close_step.close [of p3 1]
    unfolding p1_def [symmetric] p2_def [symmetric] p3_def [symmetric] p4_def [symmetric] by blast+
  then have "planner_step compute p0 p1" "planner_step compute p1 p2" "planner_step compute p2 p3" "planner_step compute p3 p4"
    by (simp_all add: planner_step_def)
  then have "(planner_step compute)\<^sup>*\<^sup>* p0 p4"
    by simp
  moreover have "plPanic p4"
    by (simp add: p4_def p3_def)
  ultimately show ?thesis
    unfolding p0_def by blast
qed

section \<open>Examples\<close>

text \<open>A pool of one worker and no buffer: a call is handed to the worker, answered and returned.\<close>

definition emptyInputs :: Inputs where
  "emptyInputs = \<lparr>inGroupID = ''g'', inMembers = [], inPartitions = [], inPrevious = None\<rparr>"

definition waitingPool :: "Pool" where
  "waitingPool = setCaller 0 (Awaiting 0 emptyInputs)
     ((New 1 1 0)\<lparr>plNext := 1, plBusy := [0 \<mapsto> \<lparr>rqIn = emptyInputs, rqReply = 0\<rparr>]\<rparr>)"

definition compute_sample :: "Inputs \<Rightarrow> Plan option" where
  "compute_sample inp = Some (Compute (\<lambda>ks. ks) inp)"

definition answeredPool :: "Pool" where
  "answeredPool = setCaller 0 (Returned emptyInputs (Inr (compute_sample emptyInputs)))
     ((New 1 1 0)\<lparr>plNext := 1, plReplies := [0 \<mapsto> runOne compute_sample \<lparr>rqIn = emptyInputs, rqReply = 0\<rparr>]\<rparr>)"

lemma waitingPool_reachable: "(planner_step compute_sample)\<^sup>*\<^sup>* (New 1 1 0) waitingPool"
proof -
  define p1 where "p1 = setCaller 0 (Entered emptyInputs) (New 1 1 0)"
  define p2 where "p2 = setCaller 0 (Sending 0 emptyInputs) (p1\<lparr>plNext := 1\<rparr>)"
  have "plan_step (New 1 1 0) p1"
    unfolding p1_def by (rule plan_step.enter) (simp add: New_def)
  moreover have "plan_step p1 p2"
    using plan_step.open_reply [of p1 0 emptyInputs] by (simp add: p2_def p1_def setCaller_def New_def)
  moreover have "plan_step p2 waitingPool"
    using plan_step.handoff [of p2 0 0 emptyInputs 0]
    by (simp add: waitingPool_def p2_def p1_def setCaller_def New_def idleWorker_def)
  ultimately have "planner_step compute_sample (New 1 1 0) p1" "planner_step compute_sample p1 p2"
      "planner_step compute_sample p2 waitingPool"
    by (simp_all add: planner_step_def)
  then show ?thesis
    by simp
qed

lemma answeredPool_reachable: "(planner_step compute_sample)\<^sup>*\<^sup>* (New 1 1 0) answeredPool"
proof -
  define p where "p = waitingPool\<lparr>plBusy := Map.empty,
    plReplies := [0 \<mapsto> runOne compute_sample \<lparr>rqIn = emptyInputs, rqReply = 0\<rparr>]\<rparr>"
  have "worker_step compute_sample waitingPool p"
    using worker_step.reply [of waitingPool 0 "\<lparr>rqIn = emptyInputs, rqReply = 0\<rparr>" compute_sample]
    by (simp add: p_def waitingPool_def setCaller_def New_def)
  moreover have "plan_step p answeredPool"
    using plan_step.receive [of p 0 0 emptyInputs "runOne compute_sample \<lparr>rqIn = emptyInputs, rqReply = 0\<rparr>"]
    by (simp add: p_def waitingPool_def answeredPool_def setCaller_def New_def runOne_plan)
  ultimately have "planner_step compute_sample waitingPool p" "planner_step compute_sample p answeredPool"
    by (simp_all add: planner_step_def)
  then show ?thesis
    using waitingPool_reachable by simp
qed

theorem plan_answers_own_call_witness:
  "\<exists>plan. plCaller answeredPool 0 = Returned emptyInputs (Inr (Some plan)) \<and> plan = Compute (\<lambda>ks. ks) emptyInputs"
  using plan_answers_own_call [OF answeredPool_reachable, of "\<lambda>ks. ks" 0 emptyInputs "compute_sample emptyInputs"]
  by (simp add: answeredPool_def setCaller_def compute_sample_def)

theorem pool_bounded_witness:
  "int (length (plQueue waitingPool)) \<le> 0 \<and> int (card (dom (plBusy waitingPool))) \<le> 1"
  using pool_bounded [OF waitingPool_reachable] by simp

theorem waiting_call_served_witness:
  "\<exists>p'. (worker_step compute_sample)\<^sup>*\<^sup>* waitingPool p' \<and> plReplies p' 0 \<noteq> None"
  using waiting_call_served [OF waitingPool_reachable, of 0 0 emptyInputs]
  by (simp add: waitingPool_def setCaller_def New_def)

end
