(* ===== verification/KClient.thy ===== *)
theory KClient
  imports Frame MetadataCodec TelemetryCodecs
begin

text \<open>
  \<open>internal/kclient\<close>: the synchronous client that the metadata cache and the telemetry poller use.
  One request is outstanding at a time; \<open>Do\<close> holds the connection's lock, so a call is one step.
  The buffer that \<open>frame.Get\<close> hands out on the first call is an argument.
\<close>

section \<open>The connection\<close>

datatype kclientErr = KIO ioerr | KCodec kerr | ErrCorrelationMismatch

record KConn =
  kcR :: Reader
  kcW :: outstream
  kcClientID :: string
  nextCorrelID :: int32
  kcRespBuf :: "Buffer option"

definition NewKConn :: "instream \<times> outstream \<Rightarrow> string \<Rightarrow> KConn" where
  "NewKConn c clientID =
     \<lparr>kcR = NewReader (fst c) MaxFrameSize, kcW = snd c, kcClientID = clientID, nextCorrelID = 0, kcRespBuf = None\<rparr>"

definition Close_k :: "Buffer list \<Rightarrow> KConn \<Rightarrow> Buffer list \<times> KConn" where
  "Close_k pool c =
     (let (pool, c) = (case kcRespBuf c of
            Some b \<Rightarrow> (Release pool (Some b), c\<lparr>kcRespBuf := None\<rparr>)
          | None \<Rightarrow> (pool, c))
      in (pool, c\<lparr>kcR := (kcR c)\<lparr>rstream := \<lparr>pending = [], ending = netClosed\<rparr>\<rparr>,
                  kcW := (kcW c)\<lparr>room := 0, wfault := netClosed\<rparr>\<rparr>))"

text \<open>The reader behind a frame that could not be read: how much of the stream was consumed.\<close>

definition failedReader :: "Reader \<Rightarrow> Reader" where
  "failedReader rd =
     (case ReadFull (rstream rd) 4 of
        Inl _ \<Rightarrow> rd\<lparr>rstream := (rstream rd)\<lparr>pending := []\<rparr>\<rparr>
      | Inr (hdr, r1) \<Rightarrow>
          (case Uint32 hdr of
             Inl _ \<Rightarrow> rd\<lparr>rstream := r1\<rparr>
           | Inr sz \<Rightarrow> if sint sz < 0 \<or> sint sz > maxSize rd then rd\<lparr>rstream := r1\<rparr>
                       else rd\<lparr>rstream := r1\<lparr>pending := []\<rparr>\<rparr>))"

definition requestFrame :: "string \<Rightarrow> int32 \<Rightarrow> int16 \<Rightarrow> int16 \<Rightarrow> bytes \<Rightarrow> bytes" where
  "requestFrame clientID correlID apiKey apiVersion reqBody =
     AppendRequestHeader [] \<lparr>APIKey = apiKey, APIVersion = apiVersion, CorrelID = correlID,
       ClientID = clientID, ClientNull = False, HeaderSize = 0\<rparr> @ reqBody"

definition Do :: "Buffer \<Rightarrow> KConn \<Rightarrow> int16 \<Rightarrow> int16 \<Rightarrow> bytes \<Rightarrow> (kclientErr + bytes) \<times> KConn" where
  "Do fresh c apiKey apiVersion reqBody =
     (let correlID = nextCorrelID c + 1;
          c1 = c\<lparr>nextCorrelID := correlID\<rparr>
      in case WriteFrame (kcW c1) (requestFrame (kcClientID c1) correlID apiKey apiVersion reqBody) of
           (Some e, w) \<Rightarrow> (Inl (KIO e), c1\<lparr>kcW := w\<rparr>)
         | (None, w) \<Rightarrow>
             let b = (case kcRespBuf c1 of None \<Rightarrow> fresh | Some b \<Rightarrow> b);
                 c2 = c1\<lparr>kcW := w, kcRespBuf := Some b\<rparr>
             in (case ReadFrame (kcR c2) b of
                   Inl e \<Rightarrow> (Inl (KIO e), c2\<lparr>kcR := failedReader (kcR c2)\<rparr>)
                 | Inr (body, b', r) \<Rightarrow>
                     let c3 = c2\<lparr>kcR := r, kcRespBuf := Some b'\<rparr> in
                     (case DecodeResponseHeader body apiKey apiVersion of
                        Inl e \<Rightarrow> (Inl (KCodec e), c3)
                      | Inr rh \<Rightarrow>
                          if RespCorrelID rh \<noteq> correlID then (Inl ErrCorrelationMismatch, c3)
                          else (Inr (drop (RespHeaderSize rh) body), c3))))"

section \<open>The calls\<close>

definition encodeMetadataReqV9 :: "string list option \<Rightarrow> bool \<Rightarrow> bytes" where
  "encodeMetadataReqV9 topics allowAutoCreate =
     (let dst = (case topics of
                   None \<Rightarrow> AppendUvarint [] 0
                 | Some ts \<Rightarrow> foldl (\<lambda>dst t. AppendEmptyTaggedFields (AppendCompactString dst t))
                                (AppendUvarint [] (of_nat (length ts + 1))) ts);
          dst = dst @ [if allowAutoCreate then 1 else 0];
          dst = dst @ [0, 0]
      in AppendEmptyTaggedFields dst)"

text \<open>A call: the request sent, and the response decoded unless \<open>Do\<close> fails.\<close>

definition rpc ::
  "Buffer \<Rightarrow> KConn \<Rightarrow> int16 \<Rightarrow> int16 \<Rightarrow> bytes \<Rightarrow> (bytes \<Rightarrow> kerr + 'r) \<Rightarrow> (kclientErr + 'r) \<times> KConn" where
  "rpc fresh c apiKey ver body decode =
     (case Do fresh c apiKey ver body of
        (Inl e, c') \<Rightarrow> (Inl e, c')
      | (Inr resp, c') \<Rightarrow> (case decode resp of Inl e \<Rightarrow> (Inl (KCodec e), c') | Inr r \<Rightarrow> (Inr r, c')))"

definition Metadata_rpc :: "Buffer \<Rightarrow> KConn \<Rightarrow> string list option \<Rightarrow> bool \<Rightarrow> (kclientErr + MetadataResponse) \<times> KConn" where
  "Metadata_rpc fresh c topics allowAutoCreate =
     rpc fresh c APIMetadata 9 (encodeMetadataReqV9 topics allowAutoCreate) (\<lambda>resp. DecodeMetadataResponse resp 9)"

definition ListOffsets_rpc :: "Buffer \<Rightarrow> KConn \<Rightarrow> ListOffsetsRequest \<Rightarrow> (kclientErr + ListOffsetsResponse) \<times> KConn" where
  "ListOffsets_rpc fresh c req =
     rpc fresh c APIListOffsets ListOffsetsVersion (AppendListOffsetsRequest [] req) DecodeListOffsetsResponse"

definition OffsetFetch_rpc :: "Buffer \<Rightarrow> KConn \<Rightarrow> OffsetFetchRequest \<Rightarrow> (kclientErr + OffsetFetchResponse) \<times> KConn" where
  "OffsetFetch_rpc fresh c req =
     rpc fresh c APIOffsetFetch OffsetFetchVersion (AppendOffsetFetchRequest [] req) DecodeOffsetFetchResponse"

definition DescribeGroups_rpc :: "Buffer \<Rightarrow> KConn \<Rightarrow> DescribeGroupsRequest \<Rightarrow> (kclientErr + DescribeGroupsResponse) \<times> KConn" where
  "DescribeGroups_rpc fresh c req =
     rpc fresh c APIDescribeGroups DescribeGroupsVersion (AppendDescribeGroupsRequest [] req) DecodeDescribeGroupsResponse"

section \<open>Properties\<close>

lemma requestFrame_header:
  assumes "length clientID < 2 ^ 15"
  shows "\<exists>h. DecodeRequestHeader (requestFrame clientID k key ver reqBody) = Inr h \<and> APIKey h = key \<and>
    APIVersion h = ver \<and> CorrelID h = k \<and> ClientID h = clientID \<and>
    drop (HeaderSize h) (requestFrame clientID k key ver reqBody) = reqBody"
proof -
  let ?h = "\<lparr>APIKey = key, APIVersion = ver, CorrelID = k, ClientID = clientID, ClientNull = False, HeaderSize = 0\<rparr>"
  have "nstrOk False (ClientID ?h, ClientNull ?h)" using assms by (simp add: fits_defs)
  from DecodeRequestHeader_append [OF this, of reqBody] show ?thesis
    by (simp add: requestFrame_def encRequestHeader_def)
qed

lemma Do_answered:
  assumes "length (kcClientID c) < 2 ^ 15"
    and "length (requestFrame (kcClientID c) (nextCorrelID c + 1) apiKey ver reqBody) < 2 ^ 32"
    and "4 + length (requestFrame (kcClientID c) (nextCorrelID c + 1) apiKey ver reqBody) \<le> room (kcW c)"
    and "pending (rstream (kcR c)) = encFrame (AppendResponseHeader [] apiKey ver (nextCorrelID c + 1) @ payload) @ rest"
    and "int (length (AppendResponseHeader [] apiKey ver (nextCorrelID c + 1) @ payload)) \<le> maxSize (kcR c)"
    and "length (AppendResponseHeader [] apiKey ver (nextCorrelID c + 1) @ payload) < 2 ^ 31"
  shows "\<exists>c' req h. Do fresh c apiKey ver reqBody = (Inr payload, c') \<and> nextCorrelID c' = nextCorrelID c + 1 \<and>
    written (kcW c') = written (kcW c) @ encFrame req \<and> pending (rstream (kcR c')) = rest \<and>
    DecodeRequestHeader req = Inr h \<and> APIKey h = apiKey \<and> APIVersion h = ver \<and>
    CorrelID h = nextCorrelID c + 1 \<and> ClientID h = kcClientID c \<and> drop (HeaderSize h) req = reqBody"
proof -
  let ?req = "requestFrame (kcClientID c) (nextCorrelID c + 1) apiKey ver reqBody"
  let ?body = "AppendResponseHeader [] apiKey ver (nextCorrelID c + 1) @ payload"
  let ?b = "case kcRespBuf c of None \<Rightarrow> fresh | Some b \<Rightarrow> b"
  have w: "WriteFrame (kcW c) ?req
      = (None, (kcW c)\<lparr>written := written (kcW c) @ encFrame ?req, room := room (kcW c) - (4 + length ?req)\<rparr>)"
    using assms(2,3) by (rule WriteFrame_ok)
  obtain b' where r: "ReadFrame (kcR c) ?b
      = Inr (?body, b', (kcR c)\<lparr>rstream := (rstream (kcR c))\<lparr>pending := rest\<rparr>\<rparr>)"
    using ReadFrame_encFrame [OF assms(4-6)] by blast
  have "\<exists>c'. Do fresh c apiKey ver reqBody = (Inr payload, c') \<and> nextCorrelID c' = nextCorrelID c + 1 \<and>
      written (kcW c') = written (kcW c) @ encFrame ?req \<and> pending (rstream (kcR c')) = rest"
    using w r DecodeResponseHeader_append [of apiKey ver "nextCorrelID c + 1" payload] by (simp add: Do_def Let_def)
  then show ?thesis using requestFrame_header [OF assms(1), of "nextCorrelID c + 1" apiKey ver reqBody] by blast
qed

text \<open>
  A call never returns the response of another request.  Whatever the peer sends, a call that
  succeeds returns the payload of the next frame of the stream, and that frame carries the
  correlation id of this call; any other correlation id is an error.
\<close>

theorem do_never_mismatches:
  assumes "Do fresh c apiKey ver reqBody = (Inr payload, c')"
  shows "\<exists>body rh. pending (rstream (kcR c)) = body @ pending (rstream (kcR c')) \<and>
    DecodeResponseHeader (drop 4 body) apiKey ver = Inr rh \<and> RespCorrelID rh = nextCorrelID c' \<and>
    nextCorrelID c' = nextCorrelID c + 1 \<and> payload = drop (RespHeaderSize rh) (drop 4 body)"
proof -
  let ?b = "case kcRespBuf c of None \<Rightarrow> fresh | Some b \<Rightarrow> b"
  obtain body b' r rh where f: "ReadFrame (kcR c) ?b = Inr (body, b', r)"
      and rh: "DecodeResponseHeader body apiKey ver = Inr rh" "RespCorrelID rh = nextCorrelID c + 1"
      and c': "payload = drop (RespHeaderSize rh) body" "kcR c' = r" "nextCorrelID c' = nextCorrelID c + 1"
    using assms by (auto simp: Do_def Let_def split: prod.splits option.splits sum.splits if_splits)
  from ReadFrame_accepts [OF f] obtain hdr where "length hdr = 4" "pending (rstream (kcR c)) = (hdr @ body) @ pending (rstream r)"
    by auto
  then show ?thesis using rh c' by (intro exI [of _ "hdr @ body"] exI [of _ rh]) simp
qed

section \<open>The response buffer\<close>

text \<open>A frame stands at the front of the array of the buffer it was read into, which is the old array
  when the frame fits.\<close>

lemma ReadFrame_backing:
  assumes "ReadFrame rd b = Inr (body, b', rd')"
  shows "body = take (length body) (backing b')"
    and "length body \<le> length (backing b) \<Longrightarrow> length (backing b') = length (backing b)"
  using assms by (auto simp: ReadFrame_def ReadFull_def Bytes_b_def grow_def Let_def min_def split: sum.splits if_splits)

lemma Do_buffer:
  assumes "Do fresh c apiKey ver reqBody = (Inr payload, c')"
  shows "\<exists>body b off. ReadFrame (kcR c) (case kcRespBuf c of None \<Rightarrow> fresh | Some b \<Rightarrow> b) = Inr (body, b, kcR c') \<and>
    kcRespBuf c' = Some b \<and> payload = drop off body"
  using assms by (auto simp: Do_def Let_def split: prod.splits option.splits sum.splits if_splits)

text \<open>
  What a call returns is a slice of the connection's buffer, and the lock is released with the
  return: the next call, also of another goroutine that shares the connection, writes its frame
  over the front of the same array as long as it fits, whether the slice is still in use or not.
\<close>

lemma next_call_overwrites_response:
  assumes first: "Do fresh c k1 v1 req1 = (Inr p1, c1)"
    and second: "Do fresh' c1 k2 v2 req2 = (Inr p2, c2)"
  shows "\<exists>b1 b2 body1 body2 off1 off2. kcRespBuf c1 = Some b1 \<and> kcRespBuf c2 = Some b2 \<and>
    p1 = drop off1 body1 \<and> body1 = take (length body1) (backing b1) \<and> p2 = drop off2 body2 \<and>
    (length body2 \<le> length (backing b1) \<longrightarrow>
       length (backing b2) = length (backing b1) \<and> take (length body2) (backing b2) = body2)"
proof -
  obtain body1 b1 off1 where 1: "ReadFrame (kcR c) (case kcRespBuf c of None \<Rightarrow> fresh | Some b \<Rightarrow> b) = Inr (body1, b1, kcR c1)"
      "kcRespBuf c1 = Some b1" "p1 = drop off1 body1"
    using Do_buffer [OF first] by blast
  obtain body2 b2 off2 where 2: "ReadFrame (kcR c1) b1 = Inr (body2, b2, kcR c2)"
      "kcRespBuf c2 = Some b2" "p2 = drop off2 body2"
    using Do_buffer [OF second] 1(2) by auto
  show ?thesis
    using 1 2 ReadFrame_backing [OF 1(1)] ReadFrame_backing [OF 2(1)] by metis
qed

section \<open>Examples\<close>

definition sampleKConn :: KConn where
  "sampleKConn = NewKConn (\<lparr>pending = [0,0,0,6, 0,0,0,1, 8,9, 5], ending = EOF\<rparr>, \<lparr>written = [], room = 100, wfault = EOF\<rparr>) ''k''"

lemma sampleKConn_simps:
  "kcClientID sampleKConn = ''k''" "nextCorrelID sampleKConn = 0" "room (kcW sampleKConn) = 100"
  "pending (rstream (kcR sampleKConn)) = [0,0,0,6, 0,0,0,1, 8,9, 5]" "maxSize (kcR sampleKConn) = 16777216"
  by (simp_all add: sampleKConn_def NewKConn_def NewReader_def MaxFrameSize_def)

lemma sample_wire:
  "requestFrame ''k'' 1 3 0 [7] = [0,3, 0,0, 0,0,0,1, 0,1,107, 7]"
  "AppendResponseHeader [] 3 0 1 = [0,0,0,1]"
  by code_simp+

text \<open>
  C32: a call exchanges one request for one response.  The request on the wire is a frame whose
  header carries the call's key and version, the client id and a correlation id one higher than the
  call before, with the given body behind it; when the peer answers with that correlation id, the
  call returns exactly the payload of the answer and leaves the stream behind it.
\<close>

theorem do_exchange:
  assumes "length (kcClientID c) < 2 ^ 15"
    and "length (requestFrame (kcClientID c) (nextCorrelID c + 1) apiKey ver reqBody) < 2 ^ 32"
    and "4 + length (requestFrame (kcClientID c) (nextCorrelID c + 1) apiKey ver reqBody) \<le> room (kcW c)"
    and "pending (rstream (kcR c)) = encFrame (AppendResponseHeader [] apiKey ver (nextCorrelID c + 1) @ payload) @ rest"
    and "int (length (AppendResponseHeader [] apiKey ver (nextCorrelID c + 1) @ payload)) \<le> maxSize (kcR c)"
    and "length (AppendResponseHeader [] apiKey ver (nextCorrelID c + 1) @ payload) < 2 ^ 31"
  shows "\<exists>c' req h. Do fresh c apiKey ver reqBody = (Inr payload, c') \<and> nextCorrelID c' = nextCorrelID c + 1 \<and>
    written (kcW c') = written (kcW c) @ encFrame req \<and> pending (rstream (kcR c')) = rest \<and>
    DecodeRequestHeader req = Inr h \<and> APIKey h = apiKey \<and> APIVersion h = ver \<and>
    CorrelID h = nextCorrelID c + 1 \<and> ClientID h = kcClientID c \<and> drop (HeaderSize h) req = reqBody"
  using assms by (rule Do_answered)

theorem do_exchange_witness:
  "\<exists>c' req. Do newBuffer sampleKConn 3 0 [7] = (Inr [8, 9], c') \<and> written (kcW c') = encFrame req \<and>
     pending (rstream (kcR c')) = [5]"
proof -
  have "pending (rstream (kcR sampleKConn)) = encFrame (AppendResponseHeader [] 3 0 (nextCorrelID sampleKConn + 1) @ [8, 9]) @ [5]"
    by (simp add: sampleKConn_simps sample_wire encFrame_def AppendInt32_def)
  from do_exchange [OF _ _ _ this, of "[7]" newBuffer] show ?thesis
    by (auto simp: sampleKConn_simps sample_wire) (auto simp: sampleKConn_def NewKConn_def)
qed

theorem do_never_mismatches_witness:
  "\<exists>c' body. Do newBuffer sampleKConn 3 0 [7] = (Inr [8, 9], c') \<and>
     [0,0,0,6, 0,0,0,1, 8,9, 5] = body @ pending (rstream (kcR c')) \<and> nextCorrelID c' = 1"
proof -
  have r: "\<exists>b r. ReadFrame (kcR sampleKConn) newBuffer = Inr ([0,0,0,1, 8,9], b, r)"
    by (simp add: sampleKConn_def NewKConn_def NewReader_def MaxFrameSize_def ReadFrame_def ReadFull_def grow_def
        Bytes_b_def newBuffer_def Let_def)
  have h: "DecodeResponseHeader [0,0,0,1, 8,9] 3 0 = Inr \<lparr>RespCorrelID = 1, RespHeaderSize = 4\<rparr>" by code_simp
  have "fst (WriteFrame (kcW sampleKConn) (requestFrame ''k'' 1 3 0 [7])) = None"
    by (simp add: WriteFrame_def Write_def sampleKConn_def NewKConn_def sample_wire)
  moreover have "kcRespBuf sampleKConn = None" by (simp add: sampleKConn_def NewKConn_def)
  ultimately have "\<exists>c'. Do newBuffer sampleKConn 3 0 [7] = (Inr [8, 9], c')"
    using r h by (auto simp: Do_def sampleKConn_simps Let_def split: prod.splits option.splits)
  then show ?thesis
    using do_never_mismatches [of newBuffer sampleKConn 3 0 "[7]" "[8, 9]"] by (auto simp: sampleKConn_simps)
qed

end
