(* ===== verification/MetadataCache.thy ===== *)
theory MetadataCache
  imports Snapshots KClient
begin

text \<open>
  \<open>internal/metadata/cache.go\<close>: the snapshot of topics and brokers, fetched through the side-channel
  client and published by an atomic pointer, with at most one fetch in flight.

  \<open>Refresh\<close> is called by several goroutines.  Its atomic actions (the critical sections under the
  mutex, the return of \<open>Fetch\<close>, the pointer swap, the close of the call's channel) are the rules of
  the step relation \<open>refresh_step\<close>; a goroutine is a number, its program point a \<open>phase\<close>.
\<close>

section \<open>Fetching\<close>

definition addBroker :: "(int32, Broker) gomap \<Rightarrow> MetadataBroker \<Rightarrow> (int32, Broker) gomap" where
  "addBroker acc b = mput (mbNodeID b) \<lparr>brHost = mbHost b, brPort = mbPort b\<rparr> acc"

definition usableTopic :: "MetadataTopic \<Rightarrow> bool" where
  "usableTopic t \<longleftrightarrow> \<not> (mtNameNull t \<or> mtName t = '''' \<or> length (mtPartitions t) = 0)"

definition addTopic :: "(string, int32 list) gomap \<Rightarrow> MetadataTopic \<Rightarrow> (string, int32 list) gomap" where
  "addTopic acc t =
     (if usableTopic t then mput (mtName t) (map mpPartitionIndex (mtPartitions t)) acc else acc)"

definition buildSnapshot :: "int \<Rightarrow> MetadataResponse \<Rightarrow> MetaSnapshot" where
  "buildSnapshot now resp =
     \<lparr>msBuiltAt = now, msByTopic = foldl addTopic [] (mrTopics resp),
      msBrokerByID = foldl addBroker [] (mrBrokers resp)\<rparr>"

definition Fetch :: "Buffer \<Rightarrow> int \<Rightarrow> KConn \<Rightarrow> (kclientErr + MetaSnapshot) \<times> KConn" where
  "Fetch fresh now conn =
     (case Metadata_rpc fresh conn None False of
        (Inl e, c) \<Rightarrow> (Inl e, c)
      | (Inr resp, c) \<Rightarrow> (Inr (buildSnapshot now resp), c))"

section \<open>The cache\<close>

datatype fetchErr = FetchFailed kclientErr | CtxDone

text \<open>
  What a \<open>Source\<close> returns: an error, or a snapshot pointer that may be nil.  The goroutine of \<open>Run\<close> is
  number 0; it counts a failed refresh in \<open>ErrorsTotal\<close> and then is \<open>Reporting\<close> it through \<open>OnError\<close>.  The
  other callers of \<open>Refresh\<close> (\<open>run\<close>, for the first snapshot) do neither.  \<open>cLog\<close> is a history variable: what
  every call of \<open>Refresh\<close> returned, with its caller.
\<close>

type_synonym fetchResult = "fetchErr + MetaSnapshot option"

datatype phase =
    Idle
  | Waiting nat
  | Fetching nat
  | Fetched nat fetchResult
  | Stored nat fetchResult
  | Done fetchResult
  | Reporting fetchErr

record Cache =
  cCur :: "MetaSnapshot option"
  cRefresh :: int
  cErrors :: int64
  cFlight :: "nat option"
  cNext :: nat
  cResult :: "nat \<rightharpoonup> fetchResult"
  cPhase :: "nat \<Rightarrow> phase"
  cLog :: "(nat \<times> fetchResult) list"

definition runThread :: nat where
  "runThread = 0"

definition NewCache :: "int \<Rightarrow> Cache" where
  "NewCache refresh =
     \<lparr>cCur = None, cRefresh = (if refresh \<le> 0 then 30 * 1000000000 else refresh), cErrors = 0, cFlight = None,
      cNext = 0, cResult = Map.empty, cPhase = (\<lambda>t. Idle), cLog = []\<rparr>"

definition Get_cache :: "Cache \<Rightarrow> MetaSnapshot option" where
  "Get_cache c = cCur c"

definition Age :: "int \<Rightarrow> Cache \<Rightarrow> int" where
  "Age now c = (case cCur c of None \<Rightarrow> 3600 * 1000000000 * 24 * 365 | Some snap \<Rightarrow> now - msBuiltAt snap)"

definition ErrorsTotal :: "Cache \<Rightarrow> int64" where
  "ErrorsTotal c = cErrors c"

text \<open>The pointer swap of a leader that fetched.\<close>

definition publish :: "fetchResult \<Rightarrow> MetaSnapshot option \<Rightarrow> MetaSnapshot option" where
  "publish res cur = (case res of Inr (Some snap) \<Rightarrow> Some snap | _ \<Rightarrow> cur)"

text \<open>The return of a caller from \<open>Refresh\<close>.\<close>

definition refreshReturns :: "nat \<Rightarrow> fetchResult \<Rightarrow> Cache \<Rightarrow> Cache" where
  "refreshReturns t res c = c\<lparr>cPhase := (cPhase c)(t := Done res), cLog := cLog c @ [(t, res)]\<rparr>"

inductive refresh_step :: "Cache \<Rightarrow> Cache \<Rightarrow> bool" where
  join: "cPhase c t = Idle \<Longrightarrow> cFlight c = Some k \<Longrightarrow>
    refresh_step c (c\<lparr>cPhase := (cPhase c)(t := Waiting k)\<rparr>)"
| lead: "cPhase c t = Idle \<Longrightarrow> cFlight c = None \<Longrightarrow>
    refresh_step c (c\<lparr>cFlight := Some (cNext c), cNext := Suc (cNext c), cPhase := (cPhase c)(t := Fetching (cNext c))\<rparr>)"
| fetched: "cPhase c t = Fetching k \<Longrightarrow>
    refresh_step c (c\<lparr>cFlight := None, cPhase := (cPhase c)(t := Fetched k res)\<rparr>)"
| store: "cPhase c t = Fetched k res \<Longrightarrow>
    refresh_step c (c\<lparr>cCur := publish res (cCur c), cPhase := (cPhase c)(t := Stored k res)\<rparr>)"
| finish: "cPhase c t = Stored k res \<Longrightarrow>
    refresh_step c (refreshReturns t res (c\<lparr>cResult := (cResult c)(k \<mapsto> res)\<rparr>))"
| wake: "cPhase c t = Waiting k \<Longrightarrow> cResult c k = Some res \<Longrightarrow> refresh_step c (refreshReturns t res c)"
| giveup: "cPhase c t = Waiting k \<Longrightarrow> refresh_step c (refreshReturns t (Inl CtxDone) c)"
| succeed: "cPhase c t = Done (Inr snap) \<Longrightarrow> refresh_step c (c\<lparr>cPhase := (cPhase c)(t := Idle)\<rparr>)"
| failed: "cPhase c t = Done (Inl e) \<Longrightarrow> t \<noteq> runThread \<Longrightarrow> refresh_step c (c\<lparr>cPhase := (cPhase c)(t := Idle)\<rparr>)"
| count: "cPhase c runThread = Done (Inl e) \<Longrightarrow>
    refresh_step c (c\<lparr>cErrors := cErrors c + 1, cPhase := (cPhase c)(runThread := Reporting e)\<rparr>)"
| report: "cPhase c t = Reporting e \<Longrightarrow> refresh_step c (c\<lparr>cPhase := (cPhase c)(t := Idle)\<rparr>)"

section \<open>What a fetched snapshot holds\<close>

lemma addTopic_foldl:
  "mget (foldl addTopic acc ts) n =
     (case filter (\<lambda>t. usableTopic t \<and> mtName t = n) ts of
        [] \<Rightarrow> mget acc n
      | us \<Rightarrow> Some (map mpPartitionIndex (mtPartitions (last us))))"
  by (induction ts arbitrary: acc) (auto simp: addTopic_def split: list.splits)

lemma addTopic_wf: "wfmap acc \<Longrightarrow> wfmap (foldl addTopic acc ts)"
  by (erule foldl_inv) (simp add: addTopic_def)

lemma addBroker_foldl:
  "mget (foldl addBroker acc bs) n =
     (case filter (\<lambda>b. mbNodeID b = n) bs of
        [] \<Rightarrow> mget acc n
      | us \<Rightarrow> Some \<lparr>brHost = mbHost (last us), brPort = mbPort (last us)\<rparr>)"
  by (induction bs arbitrary: acc) (auto simp: addBroker_def split: list.splits)

text \<open>
  The snapshot built from a Metadata response has a topic exactly when the response has a
  named topic with partitions, and then the partition ids of the last such entry; it never has the
  empty topic name nor a topic without partitions, and it has every broker's address.
\<close>

theorem snapshot_of_response:
  "let snap = buildSnapshot now resp in
     wfmap (msByTopic snap) \<and> '''' \<notin> set (mkeys (msByTopic snap)) \<and>
     (\<forall>n. mget (msByTopic snap) n =
        (case filter (\<lambda>t. usableTopic t \<and> mtName t = n) (mrTopics resp) of [] \<Rightarrow> None
         | us \<Rightarrow> Some (map mpPartitionIndex (mtPartitions (last us))))) \<and>
     (\<forall>n ps. mget (msByTopic snap) n = Some ps \<longrightarrow> ps \<noteq> []) \<and>
     (\<forall>b \<in> set (mrBrokers resp). mget (msBrokerByID snap) (mbNodeID b) \<noteq> None)"
proof -
  have last: "usableTopic (last us) \<and> mtName (last us) = n"
    if "filter (\<lambda>t. usableTopic t \<and> mtName t = n) ts = us" "us \<noteq> []" for ts us n
    using last_in_set [OF that(2)] unfolding that(1) [symmetric] by simp
  have 1: "ps \<noteq> [] \<and> n \<noteq> ''''" if "mget (foldl addTopic [] (mrTopics resp)) n = Some ps" for n ps
    using that last [of n "mrTopics resp", OF refl] by (auto simp: addTopic_foldl usableTopic_def split: list.splits)
  then have 2: "mget (foldl addTopic [] (mrTopics resp)) '''' = None"
    by (metis option.exhaust)
  have 3: "mget (foldl addBroker [] (mrBrokers resp)) (mbNodeID b) \<noteq> None" if "b \<in> set (mrBrokers resp)" for b
    using that by (auto simp: addBroker_foldl filter_empty_conv split: list.splits)
  have 4: "mget (foldl addTopic [] (mrTopics resp)) n =
      (case filter (\<lambda>t. usableTopic t \<and> mtName t = n) (mrTopics resp) of [] \<Rightarrow> None
         | us \<Rightarrow> Some (map mpPartitionIndex (mtPartitions (last us))))" for n
    by (simp add: addTopic_foldl split: list.split)
  show ?thesis
    using 1 2 3 unfolding buildSnapshot_def Let_def MetaSnapshot.simps 4 [symmetric] in_mkeys
    by (simp add: addTopic_wf)
qed

theorem snapshot_of_response_witness:
  "mrBrokers sampleMetadata \<noteq> [] \<and>
   mget (msBrokerByID (buildSnapshot 5 sampleMetadata)) (mbNodeID (hd (mrBrokers sampleMetadata))) \<noteq> None"
  using snapshot_of_response [of 5 sampleMetadata] by (simp add: Let_def sampleMetadata_def)

section \<open>Single flight\<close>

text \<open>The program points at which a goroutine leads call \<open>k\<close>.\<close>

fun leads :: "phase \<Rightarrow> nat \<Rightarrow> bool" where
  "leads (Fetching k) j \<longleftrightarrow> k = j"
| "leads (Fetched k res) j \<longleftrightarrow> k = j"
| "leads (Stored k res) j \<longleftrightarrow> k = j"
| "leads _ j \<longleftrightarrow> False"

text \<open>The call that is in flight is the one being fetched, and nobody else fetches.\<close>

definition flight_inv :: "Cache \<Rightarrow> bool" where
  "flight_inv c \<longleftrightarrow>
     (\<forall>t k. cPhase c t = Fetching k \<longrightarrow> cFlight c = Some k) \<and>
     (\<forall>k. cFlight c = Some k \<longrightarrow> (\<exists>t. cPhase c t = Fetching k))"

text \<open>Every call has at most one leader, and is open while it has one; who waits, waits for an open
  or for a closed call.\<close>

definition lead_inv :: "Cache \<Rightarrow> bool" where
  "lead_inv c \<longleftrightarrow>
     (\<forall>t t' k. leads (cPhase c t) k \<longrightarrow> leads (cPhase c t') k \<longrightarrow> t = t') \<and>
     (\<forall>t k. leads (cPhase c t) k \<longrightarrow> k < cNext c \<and> cResult c k = None) \<and>
     (\<forall>k \<ge> cNext c. cResult c k = None) \<and>
     (\<forall>t k. cPhase c t = Waiting k \<longrightarrow> cResult c k \<noteq> None \<or> (\<exists>t'. leads (cPhase c t') k))"

definition cache_inv :: "Cache \<Rightarrow> bool" where
  "cache_inv c \<longleftrightarrow> flight_inv c \<and> lead_inv c"

lemma cache_inv_log: "cache_inv (c\<lparr>cPhase := ph, cLog := l\<rparr>) = cache_inv (c\<lparr>cPhase := ph\<rparr>)"
  by (simp add: cache_inv_def flight_inv_def lead_inv_def)

lemma cache_inv_new: "cache_inv (NewCache refresh)"
  by (simp add: cache_inv_def flight_inv_def lead_inv_def NewCache_def)

lemma lead_invD:
  assumes "cache_inv c"
  shows "leads (cPhase c t) k \<Longrightarrow> leads (cPhase c t') k \<Longrightarrow> t = t'"
    and "leads (cPhase c t) k \<Longrightarrow> k < cNext c"
    and "leads (cPhase c t) k \<Longrightarrow> cResult c k = None"
    and "cNext c \<le> k \<Longrightarrow> cResult c k = None"
    and "cPhase c t = Waiting k \<Longrightarrow> cResult c k = None \<Longrightarrow> \<exists>t'. leads (cPhase c t') k"
  using assms unfolding cache_inv_def lead_inv_def by blast+

lemma flight_invD:
  assumes "cache_inv c"
  shows "cPhase c t = Fetching k \<Longrightarrow> cFlight c = Some k"
    and "cFlight c = Some k \<Longrightarrow> \<exists>t. cPhase c t = Fetching k"
  using assms unfolding cache_inv_def flight_inv_def by blast+

lemma one_fetcher:
  assumes "cache_inv c" "cPhase c t = Fetching k" "cPhase c u = Fetching j"
  shows "u = t"
proof (rule lead_invD(1) [OF assms(1)])
  show "leads (cPhase c u) k" "leads (cPhase c t) k"
    using flight_invD(1) [OF assms(1) assms(2)] flight_invD(1) [OF assms(1) assms(3)] assms(2,3) by simp_all
qed

lemma lead_inv_same:
  assumes "lead_inv c" "\<And>u. leads (cPhase c' u) = leads (cPhase c u)" "cNext c' = cNext c" "cResult c' = cResult c"
    and "\<And>u k. cPhase c' u = Waiting k \<Longrightarrow> cPhase c u = Waiting k \<or> (\<exists>t'. leads (cPhase c t') k)"
  shows "lead_inv c'"
  using assms(1,5) unfolding lead_inv_def assms(2-4) by blast

text \<open>A step that changes neither who leads nor the flight.\<close>

lemma cache_inv_quiet:
  assumes inv: "cache_inv c"
    and c': "cPhase c' = (cPhase c)(t := p)" "cFlight c' = cFlight c" "cNext c' = cNext c" "cResult c' = cResult c"
    and p: "leads p = leads (cPhase c t)" "\<And>k. p = Fetching k \<longleftrightarrow> cPhase c t = Fetching k"
    and wait: "\<And>k. p = Waiting k \<Longrightarrow> cFlight c = Some k"
  shows "cache_inv c'"
proof -
  have "cPhase c' u = Fetching k \<longleftrightarrow> cPhase c u = Fetching k" for u k
    by (simp add: c' p)
  then have "flight_inv c'"
    using inv by (simp add: cache_inv_def flight_inv_def c')
  moreover have "lead_inv c'"
  proof (rule lead_inv_same)
    show "cPhase c u = Waiting k \<or> (\<exists>t'. leads (cPhase c t') k)" if "cPhase c' u = Waiting k" for u k
      using that inv wait unfolding cache_inv_def flight_inv_def
      by (metis c'(1) fun_upd_apply leads.simps(1))
  qed (use inv in \<open>simp_all add: cache_inv_def c' p\<close>)
  ultimately show ?thesis
    by (simp add: cache_inv_def)
qed

lemma cache_inv_lead:
  assumes inv: "cache_inv c" and idle: "cPhase c t = Idle" and none: "cFlight c = None"
  shows "cache_inv (c\<lparr>cFlight := Some (cNext c), cNext := Suc (cNext c), cPhase := (cPhase c)(t := Fetching (cNext c))\<rparr>)"
    (is "cache_inv ?c")
proof -
  have fresh: "\<not> leads (cPhase c u) (cNext c)" for u
    using lead_invD(2) [OF inv] by blast
  have "cPhase c u \<noteq> Fetching k" for u k
    using flight_invD(1) [OF inv] none by fastforce
  then have "flight_inv ?c"
    by (simp add: flight_inv_def)
  moreover have leads: "leads (cPhase ?c u) k \<longleftrightarrow> (if u = t then k = cNext c else leads (cPhase c u) k)" for u k
    by auto
  have "lead_inv ?c"
    unfolding lead_inv_def leads
  proof (intro conjI allI impI)
    show "cResult ?c k \<noteq> None \<or> (\<exists>t'. if t' = t then k = cNext c else leads (cPhase c t') k)"
      if "cPhase ?c u = Waiting k" for u k
    proof -
      have "cPhase c u = Waiting k"
        using that by (simp split: if_splits)
      then show ?thesis
        using lead_invD(5) [OF inv, of u k] idle by (cases "cResult c k") (auto, metis leads.simps(4))
    qed
  qed (use fresh lead_invD [OF inv] in \<open>auto split: if_splits simp: less_Suc_eq\<close>)
  ultimately show ?thesis
    by (simp add: cache_inv_def)
qed

lemma cache_inv_fetched:
  assumes inv: "cache_inv c" and t: "cPhase c t = Fetching k"
  shows "cache_inv (c\<lparr>cFlight := None, cPhase := (cPhase c)(t := Fetched k res)\<rparr>)" (is "cache_inv ?c")
proof -
  have "leads (cPhase ?c u) j = leads (cPhase c u) j" for u j
    using t by simp
  then have "lead_inv ?c"
    using inv by (intro lead_inv_same [of c ?c, OF _ ext]) (auto simp: cache_inv_def split: if_splits)
  moreover have "flight_inv ?c"
    using one_fetcher [OF inv t] by (auto simp: flight_inv_def)
  ultimately show ?thesis
    by (simp add: cache_inv_def)
qed

lemma cache_inv_finish:
  assumes inv: "cache_inv c" and t: "cPhase c t = Stored k res"
  shows "cache_inv (refreshReturns t res (c\<lparr>cResult := (cResult c)(k \<mapsto> res)\<rparr>))"
proof -
  let ?c = "c\<lparr>cResult := (cResult c)(k \<mapsto> res), cPhase := (cPhase c)(t := Done res)\<rparr>"
  have k: "leads (cPhase c t) j \<longleftrightarrow> j = k" for j
    using t by auto
  have other: "\<not> leads (cPhase c u) k" if "u \<noteq> t" for u
    using that k lead_invD(1) [OF inv] by blast
  have leads: "leads (cPhase ?c u) j \<longleftrightarrow> u \<noteq> t \<and> leads (cPhase c u) j" for u j
    by simp
  have "lead_inv ?c"
    unfolding lead_inv_def leads
  proof (intro conjI allI impI)
    show "cResult ?c j \<noteq> None \<or> (\<exists>t'. t' \<noteq> t \<and> leads (cPhase c t') j)" if "cPhase ?c u = Waiting j" for u j
    proof (cases "j = k")
      case False
      have "cPhase c u = Waiting j"
        using that by (simp split: if_splits)
      then have "cResult c j \<noteq> None \<or> (\<exists>t'. leads (cPhase c t') j)"
        using lead_invD(5) [OF inv] by blast
      moreover have "\<not> leads (cPhase c t) j"
        using False k by simp
      ultimately show ?thesis
        using False by simp metis
    qed simp
    show "cResult ?c j = None" if "cNext ?c \<le> j" for j
      using that lead_invD(2) [OF inv, of t k] lead_invD(4) [OF inv, of j] k by auto
  qed (use other lead_invD [OF inv] in auto)
  moreover have "cPhase ?c u = Fetching j \<longleftrightarrow> cPhase c u = Fetching j" for u j
    using t by simp
  then have "flight_inv ?c"
    using inv unfolding cache_inv_def flight_inv_def by simp
  ultimately have "cache_inv ?c"
    by (simp add: cache_inv_def)
  then show ?thesis
    unfolding refreshReturns_def by (subst cache_inv_log) simp
qed

lemma cache_inv_step: "refresh_step c c' \<Longrightarrow> cache_inv c \<Longrightarrow> cache_inv c'"
proof (induction rule: refresh_step.induct)
  case (lead c t)
  then show ?case by (intro cache_inv_lead)
next
  case (fetched c t k res)
  then show ?case by (intro cache_inv_fetched)
next
  case (finish c t k res)
  then show ?case by (intro cache_inv_finish)
next
  case (join c t k)
  then show ?case by - (rule cache_inv_quiet [of c _ t "Waiting k"], auto simp: fun_eq_iff)
next
  case (store c t k res)
  then show ?case by - (rule cache_inv_quiet [of c _ t "Stored k res"], auto simp: fun_eq_iff)
next
  case (wake c t k res)
  then show ?case by - (rule cache_inv_quiet [of c _ t "Done res"], auto simp: fun_eq_iff refreshReturns_def)
next
  case (giveup c t k)
  then show ?case by - (rule cache_inv_quiet [of c _ t "Done (Inl CtxDone)"], auto simp: fun_eq_iff refreshReturns_def)
next
  case (succeed c t snap)
  then show ?case by - (rule cache_inv_quiet [of c _ t Idle], auto simp: fun_eq_iff)
next
  case (failed c t e)
  then show ?case by - (rule cache_inv_quiet [of c _ t Idle], auto simp: fun_eq_iff)
next
  case (count c e)
  then show ?case by - (rule cache_inv_quiet [of c _ runThread "Reporting e"], auto simp: fun_eq_iff)
next
  case (report c t e)
  then show ?case by - (rule cache_inv_quiet [of c _ t Idle], auto simp: fun_eq_iff)
qed

interpretation cache: step_system refresh_step "NewCache refresh" cache_inv for refresh
  by unfold_locales (fact cache_inv_new, fact cache_inv_step)

text \<open>
  C28: whatever the interleaving of the callers of \<open>Refresh\<close>, at most one fetch is in progress, and a
  caller that waits for another's fetch is never stranded: its call has been closed with a result, or
  some goroutine still leads it.
\<close>

theorem single_flight:
  assumes "refresh_step\<^sup>*\<^sup>* (NewCache refresh) c"
  shows "(cPhase c t = Fetching k \<and> cPhase c t' = Fetching k' \<longrightarrow> t = t') \<and>
    (cPhase c w = Waiting k \<longrightarrow> cResult c k \<noteq> None \<or> (\<exists>!l. leads (cPhase c l) k))"
  using one_fetcher lead_invD(1,5) cache.reachable [OF assms] by metis

theorem single_flight_witness:
  "\<exists>c. refresh_step\<^sup>*\<^sup>* (NewCache 1) c \<and> cPhase c 0 = Fetching 0 \<and> cPhase c 1 = Waiting 0 \<and>
     (\<exists>!l. leads (cPhase c l) 0)"
proof -
  define c1 where "c1 = (NewCache 1)\<lparr>cFlight := Some 0, cNext := 1, cPhase := (\<lambda>t. Idle)(0 := Fetching 0)\<rparr>"
  define c2 where "c2 = c1\<lparr>cPhase := (cPhase c1)(1 := Waiting 0)\<rparr>"
  have "refresh_step (NewCache 1) c1"
    using refresh_step.lead [of "NewCache 1" 0] by (simp add: c1_def NewCache_def)
  moreover have "refresh_step c1 c2"
    using refresh_step.join [of c1 1 0] by (simp add: c2_def, simp add: c1_def)
  ultimately have "refresh_step\<^sup>*\<^sup>* (NewCache 1) c2"
    by simp
  moreover from single_flight [OF this, of 0 0 0 0 1] have "\<exists>!l. leads (cPhase c2 l) 0"
    by (simp add: c2_def c1_def NewCache_def)
  ultimately show ?thesis
    by (intro exI [of _ c2]) (simp add: c2_def c1_def)
qed

section \<open>Counting failures\<close>

text \<open>The refreshes of \<open>Run\<close> that failed, and the one that failed and is not yet counted.\<close>

definition runFailures :: "Cache \<Rightarrow> nat" where
  "runFailures c = length (filter (\<lambda>(t, res). t = runThread \<and> isl res) (cLog c))"

definition uncounted :: "Cache \<Rightarrow> bool" where
  "uncounted c \<longleftrightarrow> (case cPhase c runThread of Done (Inl e) \<Rightarrow> True | _ \<Rightarrow> False)"

definition failuresCounted :: "Cache \<Rightarrow> bool" where
  "failuresCounted c \<longleftrightarrow> cErrors c + of_bool (uncounted c) = of_nat (runFailures c)"

lemma failuresCounted_step: "refresh_step c c' \<Longrightarrow> failuresCounted c \<Longrightarrow> failuresCounted c'"
  by (induction rule: refresh_step.induct)
    (auto simp: failuresCounted_def uncounted_def runFailures_def refreshReturns_def split: sum.splits)

lemma failuresCounted_fetched:
  "cPhase c t = Fetching k \<Longrightarrow> failuresCounted c \<Longrightarrow> failuresCounted (c\<lparr>cFlight := None, cPhase := (cPhase c)(t := Fetched k res)\<rparr>)"
  using failuresCounted_step [OF refresh_step.fetched] .

text \<open>
  A refresh that fails before \<open>Run\<close> has started, such as the first one of \<open>run\<close>, is not counted: the
  count can be 0 although every fetch since the cache was created has failed.
\<close>

lemma initial_failure_uncounted:
  "\<exists>c. refresh_step\<^sup>*\<^sup>* (NewCache refresh) c \<and> cLog c = [(1, Inl e)] \<and> ErrorsTotal c = 0 \<and> (\<forall>t. cPhase c t = Idle)"
proof -
  define st where "st fl nx res p lg = (NewCache refresh)\<lparr>cFlight := fl, cNext := nx, cResult := res,
    cPhase := (\<lambda>t. Idle)(1 := p), cLog := lg\<rparr>" for fl nx res p lg
  note defs = st_def NewCache_def publish_def refreshReturns_def runThread_def
  have 1: "refresh_step (NewCache refresh) (st (Some 0) 1 Map.empty (Fetching 0) [])"
    using refresh_step.lead [of "NewCache refresh" 1] by (simp add: defs)
  have 2: "refresh_step (st (Some 0) 1 Map.empty (Fetching 0) []) (st None 1 Map.empty (Fetched 0 (Inl e)) [])"
    using refresh_step.fetched [of "st (Some 0) 1 Map.empty (Fetching 0) []" 1 0 "Inl e"] by (simp add: defs)
  have 3: "refresh_step (st None 1 Map.empty (Fetched 0 (Inl e)) []) (st None 1 Map.empty (Stored 0 (Inl e)) [])"
    using refresh_step.store [of "st None 1 Map.empty (Fetched 0 (Inl e)) []" 1 0 "Inl e"] by (simp add: defs)
  have 4: "refresh_step (st None 1 Map.empty (Stored 0 (Inl e)) []) (st None 1 [0 \<mapsto> Inl e] (Done (Inl e)) [(1, Inl e)])"
    using refresh_step.finish [of "st None 1 Map.empty (Stored 0 (Inl e)) []" 1 0 "Inl e"] by (simp add: defs)
  have 5: "refresh_step (st None 1 [0 \<mapsto> Inl e] (Done (Inl e)) [(1, Inl e)]) (st None 1 [0 \<mapsto> Inl e] Idle [(1, Inl e)])"
    using refresh_step.failed [of "st None 1 [0 \<mapsto> Inl e] (Done (Inl e)) [(1, Inl e)]" 1 e] by (simp add: defs)
  have "refresh_step\<^sup>*\<^sup>* (NewCache refresh) (st None 1 [0 \<mapsto> Inl e] Idle [(1, Inl e)])"
    using 1 2 3 4 5 by (simp add: rtranclp.rtrancl_refl converse_rtranclp_into_rtranclp)
  then show ?thesis
    by (intro exI [of _ "st None 1 [0 \<mapsto> Inl e] Idle [(1, Inl e)]"]) (simp add: defs ErrorsTotal_def)
qed

section \<open>What readers see\<close>

lemma published_stays: "refresh_step\<^sup>*\<^sup>* c c' \<Longrightarrow> cCur c \<noteq> None \<Longrightarrow> cCur c' \<noteq> None"
  by (induction rule: rtranclp_induct)
    (auto elim!: refresh_step.cases simp: publish_def refreshReturns_def split: sum.splits option.splits)

text \<open>
  The flight ends before the pointer is swapped, so a second fetch can start, finish and publish
  between the two, and the first leader then overwrites the newer snapshot with its older one.
\<close>

lemma older_overwrites_newer:
  "\<exists>c c' new. refresh_step\<^sup>*\<^sup>* (NewCache refresh) c \<and> refresh_step\<^sup>*\<^sup>* c c' \<and> Get_cache c = Some new \<and>
     (\<exists>old. Get_cache c' = Some old \<and> msBuiltAt old < msBuiltAt new)"
proof -
  define old where "old = \<lparr>msBuiltAt = 1, msByTopic = [], msBrokerByID = []\<rparr>"
  define new where "new = old\<lparr>msBuiltAt := 2\<rparr>"
  define ph where "ph p q = (\<lambda>t::nat. Idle)(0 := p, 1 := q)" for p q
  define st where "st cur fl nx res p q =
    \<lparr>cCur = cur, cRefresh = cRefresh (NewCache refresh), cErrors = 0, cFlight = fl, cNext = nx, cResult = res,
     cPhase = ph p q, cLog = []\<rparr>" for cur fl nx res p q
  define ro where "ro = (Inr (Some old) :: fetchResult)"
  define rn where "rn = (Inr (Some new) :: fetchResult)"
  note defs = st_def ph_def fun_upd_twist publish_def ro_def rn_def
  have 1: "refresh_step (st None None 0 Map.empty Idle Idle) (st None (Some 0) 1 Map.empty (Fetching 0) Idle)"
    using refresh_step.lead [of "st None None 0 Map.empty Idle Idle" 0] by (simp add: defs)
  have 2: "refresh_step (st None (Some 0) 1 Map.empty (Fetching 0) Idle) (st None None 1 Map.empty (Fetched 0 ro) Idle)"
    using refresh_step.fetched [of "st None (Some 0) 1 Map.empty (Fetching 0) Idle" 0 0 ro] by (simp add: defs)
  have 3: "refresh_step (st None None 1 Map.empty (Fetched 0 ro) Idle) (st None (Some 1) 2 Map.empty (Fetched 0 ro) (Fetching 1))"
    using refresh_step.lead [of "st None None 1 Map.empty (Fetched 0 ro) Idle" 1] by (simp add: defs numeral_2_eq_2)
  have 4: "refresh_step (st None (Some 1) 2 Map.empty (Fetched 0 ro) (Fetching 1)) (st None None 2 Map.empty (Fetched 0 ro) (Fetched 1 rn))"
    using refresh_step.fetched [of "st None (Some 1) 2 Map.empty (Fetched 0 ro) (Fetching 1)" 1 1 rn] by (simp add: defs)
  have 5: "refresh_step (st None None 2 Map.empty (Fetched 0 ro) (Fetched 1 rn)) (st (Some new) None 2 Map.empty (Fetched 0 ro) (Stored 1 rn))"
    using refresh_step.store [of "st None None 2 Map.empty (Fetched 0 ro) (Fetched 1 rn)" 1 1 rn] by (simp add: defs)
  have 6: "refresh_step (st (Some new) None 2 Map.empty (Fetched 0 ro) (Stored 1 rn)) (st (Some old) None 2 Map.empty (Stored 0 ro) (Stored 1 rn))"
    using refresh_step.store [of "st (Some new) None 2 Map.empty (Fetched 0 ro) (Stored 1 rn)" 0 0 ro] by (simp add: defs)
  have "NewCache refresh = st None None 0 Map.empty Idle Idle"
    by (simp add: NewCache_def defs fun_eq_iff)
  then have "refresh_step\<^sup>*\<^sup>* (NewCache refresh) (st (Some new) None 2 Map.empty (Fetched 0 ro) (Stored 1 rn))"
    using 1 2 3 4 5 by (simp add: rtranclp.rtrancl_refl converse_rtranclp_into_rtranclp)
  moreover have "msBuiltAt old < msBuiltAt new" "Get_cache (st cur fl nx res p q) = cur" for cur fl nx res p q
    by (simp_all add: old_def new_def Get_cache_def st_def)
  ultimately show ?thesis
    using r_into_rtranclp [of refresh_step, OF 6] by metis
qed

end
