(* ===== verification/Telemetry.thy ===== *)
theory Telemetry
  imports Snapshots KClient ConsumerProtocol GoStd
begin

text \<open>
  \<open>internal/telemetry/kafka_native.go\<close>: the poller that measures the lag of every member of the
  known consumer groups, and the registry of those groups.

  \<open>tick\<close> is the composition of its four stages: \<open>DescribeGroups\<close> and what every member owns,
  \<open>ListOffsets\<close> for the high-water marks, \<open>OffsetFetch\<close> for the committed offsets, and the sums.
  The interface \<open>Coordinator\<close> is a record of three calls over a state of its own; the calls of
  the package's own client are the instance \<open>kclientCoordinator\<close>.  The errors handed to \<open>OnError\<close>
  are collected in a list.  The association lists that stand for Go maps are ranged over in
  insertion order; the snapshot is stated by look-ups, which do not depend on it.
\<close>

section \<open>Errors and interfaces\<close>

record kErr =
  keOp :: string
  keCode :: int16

definition Error_kErr :: "kErr \<Rightarrow> string" where
  "Error_kErr e = keOp e @ '': kafka error code '' @ Itoa (sint (keCode e))"

datatype 'e pollErr = PCall 'e | PAssignment kerr | PKafka kErr

definition kafkaErr :: "string \<Rightarrow> int16 \<Rightarrow> 'e pollErr" where
  "kafkaErr op code = PKafka \<lparr>keOp = op, keCode = code\<rparr>"

definition Groups_static :: "string list \<Rightarrow> string list" where
  "Groups_static s = s"

record ('s, 'e) Coordinator =
  coDescribeGroups :: "'s \<Rightarrow> DescribeGroupsRequest \<Rightarrow> ('e + DescribeGroupsResponse) \<times> 's"
  coOffsetFetch :: "'s \<Rightarrow> OffsetFetchRequest \<Rightarrow> ('e + OffsetFetchResponse) \<times> 's"
  coListOffsets :: "'s \<Rightarrow> ListOffsetsRequest \<Rightarrow> ('e + ListOffsetsResponse) \<times> 's"

definition kclientCoordinator :: "Buffer \<Rightarrow> (KConn, kclientErr) Coordinator" where
  "kclientCoordinator fresh =
     \<lparr>coDescribeGroups = DescribeGroups_rpc fresh, coOffsetFetch = OffsetFetch_rpc fresh,
      coListOffsets = ListOffsets_rpc fresh\<rparr>"

text \<open>The poller; \<open>poOnError\<close> says whether a callback is set.\<close>

record Poller =
  poHolder :: "Holder option"
  poInterval :: int
  poOnError :: bool

type_synonym 'e reports = "(string \<times> 'e pollErr) list"

definition report :: "bool \<Rightarrow> 'e reports \<Rightarrow> string \<Rightarrow> 'e pollErr \<Rightarrow> 'e reports" where
  "report onErr reps grp err = (if onErr then reps @ [(grp, err)] else reps)"

definition reportAll :: "bool \<Rightarrow> 'e reports \<Rightarrow> string list \<Rightarrow> 'e pollErr \<Rightarrow> 'e reports" where
  "reportAll onErr reps groups err = (if onErr then reps @ map (\<lambda>g. (g, err)) groups else reps)"

section \<open>Stage 1: what the members own\<close>

type_synonym partSet = "(string, (int32, unit) gomap) gomap"
type_synonym owned = "(string, (string, TopicPartitions list) gomap) gomap"

definition addParts :: "partSet \<Rightarrow> TopicPartitions \<Rightarrow> partSet" where
  "addParts all tp =
     mput (tpTopic tp) (foldl (\<lambda>ts id. mput id () ts) (mgetOr [] all (tpTopic tp)) (tpPartitions tp)) all"

definition ownMember ::
  "bool \<Rightarrow> string \<Rightarrow> (string, TopicPartitions list) gomap \<times> partSet \<times> 'e reports \<Rightarrow> DescribedGroupMember
   \<Rightarrow> (string, TopicPartitions list) gomap \<times> partSet \<times> 'e reports" where
  "ownMember onErr gid acc m =
     (let (mems, all, reps) = acc in
      if length (dmMemberAssignment m) = 0 then acc
      else case DecodeAssignment (dmMemberAssignment m) of
             Inl err \<Rightarrow> (mems, all, report onErr reps gid (PAssignment err))
           | Inr a \<Rightarrow> (mput (dmMemberID m) (asPartitions a) mems, foldl addParts all (asPartitions a), reps))"

definition ownGroup ::
  "bool \<Rightarrow> owned \<times> partSet \<times> 'e reports \<Rightarrow> DescribedGroup \<Rightarrow> owned \<times> partSet \<times> 'e reports" where
  "ownGroup onErr acc g =
     (let (owned, all, reps) = acc in
      if dgErrorCode g \<noteq> 0 then (owned, all, report onErr reps (dgGroupID g) (kafkaErr ''DescribeGroups'' (dgErrorCode g)))
      else let (mems, all', reps') = foldl (ownMember onErr (dgGroupID g)) ([], all, reps) (dgMembers g)
           in (mput (dgGroupID g) mems owned, all', reps'))"

section \<open>Stage 2: high-water marks\<close>

type_synonym offsets = "(string \<times> int32, int64) gomap"

definition sortedIds :: "(int32, unit) gomap \<Rightarrow> int32 list" where
  "sortedIds parts = sort_key sint (mkeys parts)"

definition listOffsetsReq :: "partSet \<Rightarrow> ListOffsetsRequest" where
  "listOffsetsReq all =
     \<lparr>loReplicaID = -1, loIsolationLevel = IsolationReadUncommitted,
      loTopics = map (\<lambda>(topic, parts). \<lparr>lotName = topic,
        lotPartitions = map (\<lambda>id. \<lparr>loPartitionIndex = id, loCurrentLeaderEpoch = -1, loTimestamp = OffsetLatest\<rparr>)
          (sortedIds parts)\<rparr>) all\<rparr>"

definition hwmPart :: "string \<Rightarrow> offsets \<Rightarrow> ListOffsetsPartitionResp \<Rightarrow> offsets" where
  "hwmPart name m pr = (if lrErrorCode pr \<noteq> 0 then m else mput (name, lrPartitionIndex pr) (lrOffset pr) m)"

definition hwmOf :: "ListOffsetsResponse \<Rightarrow> offsets" where
  "hwmOf lo = foldl (\<lambda>m t. foldl (hwmPart (lrtName t)) m (lrtPartitions t)) [] (lrTopics lo)"

definition fetchHwm ::
  "('s, 'e) Coordinator \<Rightarrow> bool \<Rightarrow> string list \<Rightarrow> partSet \<Rightarrow> 's \<Rightarrow> 'e reports \<Rightarrow> offsets \<times> 's \<times> 'e reports" where
  "fetchHwm co onErr groups all s reps =
     (if length all > 0 then
        (case coListOffsets co s (listOffsetsReq all) of
           (Inl err, s') \<Rightarrow> ([], s', reportAll onErr reps groups (PCall err))
         | (Inr lo, s') \<Rightarrow> (hwmOf lo, s', reps))
      else ([], s, reps))"

section \<open>Stage 3: committed offsets\<close>

definition groupTopics :: "(string, TopicPartitions list) gomap \<Rightarrow> partSet" where
  "groupTopics members = foldl (\<lambda>tm ownedList. foldl addParts tm ownedList) [] (map snd members)"

definition offsetFetchReq :: "owned \<Rightarrow> OffsetFetchRequest" where
  "offsetFetchReq owned =
     \<lparr>ofGroups = map (\<lambda>(gid, members). \<lparr>ofgGroupID = gid,
        ofgTopics = map (\<lambda>(topic, parts). \<lparr>oftName = topic, oftPartitionIndexes = sortedIds parts\<rparr>) (groupTopics members),
        ofgTopicsNull = False\<rparr>) owned,
      ofRequireStable = False\<rparr>"

definition committedPart :: "string \<Rightarrow> offsets \<Rightarrow> OffsetFetchPartitionResp \<Rightarrow> offsets" where
  "committedPart name m pr =
     (if opErrorCode pr \<noteq> 0 \<or> sint (opCommittedOffset pr) < 0 then m
      else mput (name, opPartitionIndex pr) (opCommittedOffset pr) m)"

definition committedGroup ::
  "bool \<Rightarrow> (string, offsets) gomap \<times> 'e reports \<Rightarrow> OffsetFetchGroupResp \<Rightarrow> (string, offsets) gomap \<times> 'e reports" where
  "committedGroup onErr acc g =
     (let (committed, reps) = acc in
      if ogErrorCode g \<noteq> 0 then (committed, report onErr reps (ogGroupID g) (kafkaErr ''OffsetFetch'' (ogErrorCode g)))
      else (mput (ogGroupID g) (foldl (\<lambda>m t. foldl (committedPart (otName t)) m (otPartitions t)) [] (ogTopics g)) committed, reps))"

definition fetchCommitted ::
  "('s, 'e) Coordinator \<Rightarrow> bool \<Rightarrow> string list \<Rightarrow> owned \<Rightarrow> 's \<Rightarrow> 'e reports
   \<Rightarrow> (string, offsets) gomap \<times> 's \<times> 'e reports" where
  "fetchCommitted co onErr groups owned s reps =
     (if length owned > 0 then
        (case coOffsetFetch co s (offsetFetchReq owned) of
           (Inl err, s') \<Rightarrow> ([], s', reportAll onErr reps groups (PCall err))
         | (Inr ofr, s') \<Rightarrow> (let (committed, reps') = foldl (committedGroup onErr) ([], reps) (orGroups ofr)
                             in (committed, s', reps')))
      else ([], s, reps))"

section \<open>Stage 4: lag\<close>

definition addLag :: "offsets \<Rightarrow> offsets \<Rightarrow> string \<Rightarrow> MemberLoad \<Rightarrow> int32 \<Rightarrow> MemberLoad" where
  "addLag hwm commit topic ml pid =
     (let ml = ml\<lparr>mlAssignedPartitions := mlAssignedPartitions ml + 1\<rparr> in
      case (mget hwm (topic, pid), mget commit (topic, pid)) of
        (Some h, Some c) \<Rightarrow> if sint h > sint c then ml\<lparr>mlLagMessages := mlLagMessages ml + (h - c)\<rparr> else ml
      | _ \<Rightarrow> ml)"

definition memberLoad :: "offsets \<Rightarrow> offsets \<Rightarrow> string \<Rightarrow> TopicPartitions list \<Rightarrow> MemberLoad" where
  "memberLoad hwm commit mid ownedList =
     foldl (\<lambda>ml tp. foldl (addLag hwm commit (tpTopic tp)) ml (tpPartitions tp))
       \<lparr>mlMemberID = mid, mlAssignedPartitions = 0, mlLagMessages = 0, mlLatencyMicros = 0\<rparr> ownedList"

definition groupLoad :: "offsets \<Rightarrow> offsets \<Rightarrow> string \<Rightarrow> (string, TopicPartitions list) gomap \<Rightarrow> GroupLoad" where
  "groupLoad hwm commit gid members =
     \<lparr>glGroupID = gid,
      glMembers = foldl (\<lambda>ms (mid, ownedList). mput mid (memberLoad hwm commit mid ownedList) ms) [] members\<rparr>"

definition loads :: "offsets \<Rightarrow> (string, offsets) gomap \<Rightarrow> owned \<Rightarrow> (string, GroupLoad) gomap" where
  "loads hwm committed owned =
     foldl (\<lambda>gs (gid, members). mput gid (groupLoad hwm (mgetOr [] committed gid) gid members) gs) [] owned"

section \<open>One poll, and the poller\<close>

definition tick ::
  "('s, 'e) Coordinator \<Rightarrow> bool \<Rightarrow> bool \<Rightarrow> int \<Rightarrow> string list \<Rightarrow> Holder \<times> 's \<times> 'e reports \<Rightarrow> Holder \<times> 's \<times> 'e reports" where
  "tick co onErr cancelled now groups st =
     (let (holder, s, reps) = st;
          empty = \<lparr>lsBuiltAt = now, lsGroups = []\<rparr>
      in if cancelled then st
         else if length groups = 0 then (Store_holder holder empty, s, reps)
         else case coDescribeGroups co s \<lparr>dgrGroups = groups, dgrIncludeAuthorizedOperations = False\<rparr> of
                (Inl err, s') \<Rightarrow>
                  (if Get_holder holder = None then Store_holder holder empty else holder, s',
                   reportAll onErr reps groups (PCall err))
              | (Inr dg, s1) \<Rightarrow>
                  let (owned, all, reps1) = foldl (ownGroup onErr) ([], [], reps) (drGroups dg);
                      (hwm, s2, reps2) = fetchHwm co onErr groups all s1 reps1;
                      (committed, s3, reps3) = fetchCommitted co onErr groups owned s2 reps2
                  in (Store_holder holder (empty\<lparr>lsGroups := loads hwm committed owned\<rparr>), s3, reps3))"

text \<open>\<open>Run\<close>: defaults, a first poll, then one poll per firing of the ticker until the context ends.
  A firing is the state of the context, the clock and what the registry answers.\<close>

definition runDefaults :: "Poller \<Rightarrow> Poller" where
  "runDefaults p =
     (let p = (if poInterval p \<le> 0 then p\<lparr>poInterval := 15 * 1000000000\<rparr> else p)
      in if poHolder p = None then p\<lparr>poHolder := Some \<lparr>hCur = None\<rparr>\<rparr> else p)"

definition Run_poller ::
  "('s, 'e) Coordinator \<Rightarrow> (bool \<times> int \<times> string list) list \<Rightarrow> Poller \<Rightarrow> 's \<Rightarrow> Poller \<times> 's \<times> 'e reports" where
  "Run_poller co firings p s =
     (let p = runDefaults p;
          (h, s', reps) = foldl (\<lambda>st (cancelled, now, groups). tick co (poOnError p) cancelled now groups st)
             (case poHolder p of Some h \<Rightarrow> h | None \<Rightarrow> \<lparr>hCur = None\<rparr>, s, []) firings
      in (p\<lparr>poHolder := Some h\<rparr>, s', reps))"

section \<open>The registry of groups\<close>

record SyncRegistry =
  srGroups :: "(string, unit) gomap"

definition NewSyncRegistry :: SyncRegistry where
  "NewSyncRegistry = \<lparr>srGroups = []\<rparr>"

definition Add_registry :: "SyncRegistry \<Rightarrow> string \<Rightarrow> SyncRegistry" where
  "Add_registry r grp = r\<lparr>srGroups := mput grp () (srGroups r)\<rparr>"

definition Remove_registry :: "SyncRegistry \<Rightarrow> string \<Rightarrow> SyncRegistry" where
  "Remove_registry r grp = r\<lparr>srGroups := mdel grp (srGroups r)\<rparr>"

definition Groups_registry :: "SyncRegistry \<Rightarrow> string list" where
  "Groups_registry r = sort (mkeys (srGroups r))"

section \<open>What a member owns\<close>

definition decodes :: "DescribedGroupMember \<Rightarrow> bool" where
  "decodes m \<longleftrightarrow> dmMemberAssignment m \<noteq> [] \<and> (\<exists>a. DecodeAssignment (dmMemberAssignment m) = Inr a)"

definition decoded :: "DescribedGroupMember \<Rightarrow> TopicPartitions list" where
  "decoded m = (case DecodeAssignment (dmMemberAssignment m) of Inr a \<Rightarrow> asPartitions a | Inl _ \<Rightarrow> [])"

text \<open>The assignment of a member: that of the last entry with its pid that has one.\<close>

definition assignmentIn :: "DescribedGroup \<Rightarrow> string \<Rightarrow> TopicPartitions list option" where
  "assignmentIn g mid =
     (case filter (\<lambda>m. decodes m \<and> dmMemberID m = mid) (dgMembers g) of [] \<Rightarrow> None | ms \<Rightarrow> Some (decoded (last ms)))"

definition describedIn :: "DescribeGroupsResponse \<Rightarrow> string \<Rightarrow> DescribedGroup option" where
  "describedIn dg gid =
     (case filter (\<lambda>g. dgErrorCode g = 0 \<and> dgGroupID g = gid) (drGroups dg) of [] \<Rightarrow> None | gs \<Rightarrow> Some (last gs))"

lemma ownMember_eq:
  "\<exists>reps'. ownMember onErr gid (mems, all, reps) m =
     (if decodes m then mput (dmMemberID m) (decoded m) mems else mems,
      if decodes m then foldl addParts all (decoded m) else all, reps')"
  by (auto simp: ownMember_def decodes_def decoded_def split: sum.splits)

lemma ownMember_fold:
  "mget (fst (foldl (ownMember onErr gid) (mems, all, reps) ms)) mid =
     (case filter (\<lambda>m. decodes m \<and> dmMemberID m = mid) ms of [] \<Rightarrow> mget mems mid | ms' \<Rightarrow> Some (decoded (last ms')))"
proof (induction ms arbitrary: mems all reps)
  case (Cons m ms)
  from ownMember_eq [of onErr gid mems all reps m] show ?case
    using Cons.IH by (auto split: list.splits)
qed simp

lemma ownGroup_eq:
  "dgErrorCode g = 0 \<Longrightarrow> \<exists>mems rest. ownGroup onErr (owned, all, reps) g = (mput (dgGroupID g) mems owned, rest) \<and>
     wfmap mems \<and> mget mems = assignmentIn g"
proof -
  assume g: "dgErrorCode g = 0"
  obtain mems all' reps' where f: "foldl (ownMember onErr (dgGroupID g)) ([], all, reps) (dgMembers g) = (mems, all', reps')"
    by (metis prod_cases3)
  have "wfmap (fst (foldl (ownMember onErr (dgGroupID g)) ([], all, reps) (dgMembers g)))"
    by (rule foldl_inv) (auto simp: ownMember_def split: sum.splits)
  moreover have "mget mems mid = assignmentIn g mid" for mid
    using ownMember_fold [of onErr "dgGroupID g" "[]" all reps "dgMembers g" mid] f by (simp add: assignmentIn_def split: list.split)
  ultimately show ?thesis
    using g f by (auto simp: ownGroup_def)
qed

lemma ownGroup_error: "dgErrorCode g \<noteq> 0 \<Longrightarrow> fst (ownGroup onErr acc g) = fst acc"
  by (auto simp: ownGroup_def split: prod.splits)

lemma ownGroup_fold:
  "wfmap (fst (foldl (ownGroup onErr) ([], [], reps) gs)) \<and>
   rel_option (\<lambda>mems g. wfmap mems \<and> mget mems = assignmentIn g)
     (mget (fst (foldl (ownGroup onErr) ([], [], reps) gs)) gid)
     (case filter (\<lambda>g. dgErrorCode g = 0 \<and> dgGroupID g = gid) gs of [] \<Rightarrow> None | gs' \<Rightarrow> Some (last gs'))"
proof (induction gs rule: rev_induct)
  case (snoc g gs)
  obtain owned all reps' where f: "foldl (ownGroup onErr) ([], [], reps) gs = (owned, all, reps')"
    by (metis prod_cases3)
  show ?case
  proof (cases "dgErrorCode g = 0")
    case True
    from ownGroup_eq [OF this, of onErr owned all reps'] show ?thesis
      using snoc True f by (auto split: list.splits)
  next
    case False
    then show ?thesis
      using snoc f ownGroup_error [OF False, of onErr "(owned, all, reps')"] by simp
  qed
qed simp

section \<open>What the brokers answered\<close>

text \<open>
  The high-water mark of a partition in a ListOffsets response: the offset of the last entry of the
  partition that has no error.  The committed offset of a partition for a group in an OffsetFetch
  response: that of the last entry without an error and with an offset of at least 0, in the last entry of
  the group without an error.  A failed call tells nothing.
\<close>

definition markEntries :: "ListOffsetsResponse \<Rightarrow> (string \<times> ListOffsetsPartitionResp) list" where
  "markEntries lo = concat (map (\<lambda>t. map (Pair (lrtName t)) (lrtPartitions t)) (lrTopics lo))"

definition markIn :: "'e + ListOffsetsResponse \<Rightarrow> string \<times> int32 \<Rightarrow> int64 option" where
  "markIn answer k =
     (case answer of
        Inl e \<Rightarrow> None
      | Inr lo \<Rightarrow>
          (case filter (\<lambda>(n, pr). (n, lrPartitionIndex pr) = k \<and> lrErrorCode pr = 0) (markEntries lo) of
             [] \<Rightarrow> None | es \<Rightarrow> Some (lrOffset (snd (last es)))))"

definition commitEntries :: "OffsetFetchGroupResp \<Rightarrow> (string \<times> OffsetFetchPartitionResp) list" where
  "commitEntries g = concat (map (\<lambda>t. map (Pair (otName t)) (otPartitions t)) (ogTopics g))"

definition groupCommit :: "OffsetFetchGroupResp \<Rightarrow> string \<times> int32 \<Rightarrow> int64 option" where
  "groupCommit g k =
     (case filter (\<lambda>(n, pr). (n, opPartitionIndex pr) = k \<and> opErrorCode pr = 0 \<and> 0 \<le> sint (opCommittedOffset pr)) (commitEntries g) of
        [] \<Rightarrow> None | es \<Rightarrow> Some (opCommittedOffset (snd (last es))))"

definition commitIn :: "'e + OffsetFetchResponse \<Rightarrow> string \<Rightarrow> string \<times> int32 \<Rightarrow> int64 option" where
  "commitIn answer gid k =
     (case answer of
        Inl e \<Rightarrow> None
      | Inr ofr \<Rightarrow>
          (case filter (\<lambda>g. ogErrorCode g = 0 \<and> ogGroupID g = gid) (orGroups ofr) of
             [] \<Rightarrow> None | gs \<Rightarrow> groupCommit (last gs) k))"

lemma foldl_nested:
  "foldl (\<lambda>m t. foldl (f (name t)) m (parts t)) acc ts =
   foldl (\<lambda>m (n, p). f n m p) acc (concat (map (\<lambda>t. map (Pair (name t)) (parts t)) ts))"
  by (induction ts arbitrary: acc) (simp_all add: foldl_map)

lemma hwmOf_lookup: "mget (hwmOf lo) k = markIn (Inr lo) k"
proof -
  have "mget (foldl (\<lambda>m (n, pr). hwmPart n m pr) acc es) k =
      (case filter (\<lambda>(n, pr). (n, lrPartitionIndex pr) = k \<and> lrErrorCode pr = 0) es of
         [] \<Rightarrow> mget acc k | us \<Rightarrow> Some (lrOffset (snd (last us))))" for acc es
    by (induction es arbitrary: acc) (auto simp: hwmPart_def split: list.splits if_splits)
  from this [of "[]" "markEntries lo"] show ?thesis
    by (simp add: hwmOf_def foldl_nested markIn_def markEntries_def split: list.split)
qed

lemma commits_lookup:
  "mget (foldl (\<lambda>m t. foldl (committedPart (otName t)) m (otPartitions t)) [] (ogTopics g)) k = groupCommit g k"
proof -
  have "mget (foldl (\<lambda>m (n, pr). committedPart n m pr) acc es) k =
      (case filter (\<lambda>(n, pr). (n, opPartitionIndex pr) = k \<and> opErrorCode pr = 0 \<and> 0 \<le> sint (opCommittedOffset pr)) es of
         [] \<Rightarrow> mget acc k | us \<Rightarrow> Some (opCommittedOffset (snd (last us))))" for acc es
    by (induction es arbitrary: acc) (auto simp: committedPart_def split: list.splits if_splits)
  from this [of "[]" "commitEntries g"] show ?thesis
    by (simp add: foldl_nested groupCommit_def commitEntries_def split: list.split)
qed

lemma committedGroup_lookup:
  "mget (mgetOr [] (fst (foldl (committedGroup onErr) (acc, reps) gs)) gid) k =
     (case filter (\<lambda>g. ogErrorCode g = 0 \<and> ogGroupID g = gid) gs of
        [] \<Rightarrow> mget (mgetOr [] acc gid) k | us \<Rightarrow> groupCommit (last us) k)"
proof (induction gs arbitrary: acc reps)
  case (Cons g gs)
  show ?case
  proof (cases "ogErrorCode g = 0")
    case True
    then show ?thesis using Cons.IH commits_lookup [of g] by (auto simp: committedGroup_def mgetOr_def split: list.splits)
  next
    case False
    then show ?thesis using Cons.IH by (simp add: committedGroup_def)
  qed
qed simp

section \<open>The sums\<close>

definition knownLag :: "int64 option \<Rightarrow> int64 option \<Rightarrow> int" where
  "knownLag mark commit = (case (mark, commit) of (Some h, Some c) \<Rightarrow> max 0 (sint h - sint c) | _ \<Rightarrow> 0)"

definition partitionLag :: "offsets \<Rightarrow> offsets \<Rightarrow> string \<times> int32 \<Rightarrow> int" where
  "partitionLag hwm commit k = knownLag (mget hwm k) (mget commit k)"

definition ownedPairs :: "TopicPartitions list \<Rightarrow> (string \<times> int32) list" where
  "ownedPairs l = concat (map (\<lambda>tp. map (Pair (tpTopic tp)) (tpPartitions tp)) l)"

lemma addLag_fold:
  "foldl (addLag hwm commit topic) ml ids =
     ml\<lparr>mlAssignedPartitions := mlAssignedPartitions ml + int (length ids),
        mlLagMessages := mlLagMessages ml + of_int (\<Sum>pid\<leftarrow>ids. partitionLag hwm commit (topic, pid))\<rparr>"
proof (induction ids arbitrary: ml)
  case (Cons pid ids)
  have "of_int (sint h - sint c) = h - c" for h c :: int64
    by simp
  then have "addLag hwm commit topic ml pid =
      ml\<lparr>mlAssignedPartitions := mlAssignedPartitions ml + 1,
         mlLagMessages := mlLagMessages ml + of_int (partitionLag hwm commit (topic, pid))\<rparr>"
    by (auto simp: addLag_def partitionLag_def knownLag_def max_def Let_def split: option.splits)
  then show ?case
    by (simp add: Cons.IH add_ac)
qed simp

lemma memberLoad_eq:
  "memberLoad hwm commit mid l =
     \<lparr>mlMemberID = mid, mlAssignedPartitions = int (length (ownedPairs l)),
      mlLagMessages = of_int (\<Sum>k\<leftarrow>ownedPairs l. partitionLag hwm commit k), mlLatencyMicros = 0\<rparr>"
proof -
  have "foldl (\<lambda>ml tp. foldl (addLag hwm commit (tpTopic tp)) ml (tpPartitions tp)) ml l =
      ml\<lparr>mlAssignedPartitions := mlAssignedPartitions ml + int (length (ownedPairs l)),
         mlLagMessages := mlLagMessages ml + of_int (\<Sum>k\<leftarrow>ownedPairs l. partitionLag hwm commit k)\<rparr>" for ml
    by (induction l arbitrary: ml) (simp_all add: ownedPairs_def addLag_fold comp_def add_ac)
  then show ?thesis
    by (simp add: memberLoad_def)
qed

lemma loads_lookup:
  assumes "wfmap owned"
  shows "mget (loads hwm committed owned) gid =
    map_option (groupLoad hwm (mgetOr [] committed gid) gid) (mget owned gid)"
  unfolding loads_def mput_foldl [OF assms] by (simp split: option.split)

lemma groupLoad_lookup:
  assumes "wfmap members"
  shows "mget (glMembers (groupLoad hwm commit gid members)) mid = map_option (memberLoad hwm commit mid) (mget members mid)"
  using mput_foldl [OF assms, of "memberLoad hwm commit"] by (simp add: groupLoad_def split: option.split)

lemma groupLoad_id: "glGroupID (groupLoad hwm commit gid members) = gid"
  by (simp add: groupLoad_def)

section \<open>Properties of the poller\<close>

text \<open>
  C30: a poll whose DescribeGroups call fails reports the failure for every group and leaves the
  published snapshot alone; only when there was none yet does it publish an empty one, so that
  readers never see less than before.
\<close>

theorem failed_poll_keeps_snapshot:
  assumes "groups \<noteq> []"
    and "coDescribeGroups co s \<lparr>dgrGroups = groups, dgrIncludeAuthorizedOperations = False\<rparr> = (Inl err, s')"
  shows "\<exists>h' reps'. tick co onErr False now groups (h, s, reps) = (h', s', reps') \<and>
    (hCur h \<noteq> None \<longrightarrow> h' = h) \<and> (hCur h = None \<longrightarrow> hCur h' = Some \<lparr>lsBuiltAt = now, lsGroups = []\<rparr>) \<and>
    reps' = reps @ (if onErr then map (\<lambda>g. (g, PCall err)) groups else [])"
  using assms by (auto simp: tick_def Get_holder_def Store_holder_def reportAll_def)

section \<open>The offset requests\<close>

text \<open>The partitions in a set of partitions by topic.\<close>

definition inParts :: "partSet \<Rightarrow> string \<times> int32 \<Rightarrow> bool" where
  "inParts all k \<longleftrightarrow> (\<exists>ts. mget all (fst k) = Some ts \<and> mget ts (snd k) \<noteq> None)"

lemma addId_fold: "mget (foldl (\<lambda>ts id. mput id () ts) ts ids) i = (if i \<in> set ids then Some () else mget ts i)"
  by (induction ids arbitrary: ts) auto

lemma inParts_add:
  "inParts (addParts all tp) k \<longleftrightarrow> inParts all k \<or> fst k = tpTopic tp \<and> snd k \<in> set (tpPartitions tp)"
  by (auto simp: inParts_def addParts_def addId_fold mgetOr_def split: option.splits)

lemma inParts_fold: "inParts (foldl addParts all tps) k \<longleftrightarrow> inParts all k \<or> k \<in> set (ownedPairs tps)"
  by (induction tps arbitrary: all) (auto simp: inParts_add ownedPairs_def image_iff prod_eq_iff)

definition wfparts :: "partSet \<Rightarrow> bool" where
  "wfparts all \<longleftrightarrow> wfmap all \<and> (\<forall>t ts. mget all t = Some ts \<longrightarrow> wfmap ts)"

lemma wfparts_add: "wfparts all \<Longrightarrow> wfparts (addParts all tp)"
proof -
  assume wf: "wfparts all"
  then have "wfmap (mgetOr [] all (tpTopic tp))"
    by (auto simp: wfparts_def mgetOr_def split: option.split)
  then have "wfmap (foldl (\<lambda>ts id. mput id () ts) (mgetOr [] all (tpTopic tp)) (tpPartitions tp))"
    by (rule foldl_inv) simp
  then show ?thesis
    using wf by (auto simp: wfparts_def addParts_def)
qed

lemma wfparts_fold: "wfparts all \<Longrightarrow> wfparts (foldl addParts all tps)"
  by (erule foldl_inv) (rule wfparts_add)

lemma sortedIds_props:
  "wfmap ts \<Longrightarrow> set (sortedIds ts) = {i. mget ts i \<noteq> None} \<and> sorted_wrt (\<lambda>i j. sint i < sint j) (sortedIds ts)"
proof -
  assume "wfmap ts"
  then have "distinct (map sint (sortedIds ts))"
    by (simp add: sortedIds_def distinct_map gm.wf_ks inj_on_def signed_word_eqI)
  then have "sorted_wrt (<) (map sint (sortedIds ts))"
    by (simp add: strict_sorted_iff) (simp add: sortedIds_def)
  then show ?thesis
    by (simp add: sortedIds_def gm.set_ks sorted_wrt_map)
qed

lemma groupTopics_fold:
  "wfparts (foldl (\<lambda>tm l. foldl addParts tm l) tm ls) \<and>
   (inParts (foldl (\<lambda>tm l. foldl addParts tm l) tm ls) k \<longleftrightarrow> inParts tm k \<or> (\<exists>l \<in> set ls. k \<in> set (ownedPairs l)))"
  if "wfparts tm"
  using that by (induction ls arbitrary: tm) (auto simp: inParts_fold wfparts_fold)

definition covered :: "(string, TopicPartitions list) gomap \<Rightarrow> partSet \<Rightarrow> bool" where
  "covered mems all \<longleftrightarrow> (\<forall>mid l k. mget mems mid = Some l \<longrightarrow> k \<in> set (ownedPairs l) \<longrightarrow> inParts all k)"

lemma ownMember_covers:
  assumes "covered mems all" "wfparts all"
    and "foldl (ownMember onErr gid) (mems, all, reps) ms = (mems', all', reps')"
  shows "covered mems' all' \<and> wfparts all' \<and> (\<forall>k. inParts all k \<longrightarrow> inParts all' k)"
  using assms
proof (induction ms arbitrary: mems all reps)
  case (Cons m ms)
  let ?all = "if decodes m then foldl addParts all (decoded m) else all"
  let ?mems = "if decodes m then mput (dmMemberID m) (decoded m) mems else mems"
  obtain reps1 where 1: "ownMember onErr gid (mems, all, reps) m = (?mems, ?all, reps1)"
    using ownMember_eq [of onErr gid mems all reps m] by blast
  have "covered ?mems ?all" "wfparts ?all"
    using Cons.prems by (auto simp: covered_def inParts_fold wfparts_fold split: if_splits)
  with Cons.IH [of ?mems ?all reps1] 1 Cons.prems(3) show ?case
    by (auto simp: inParts_fold split: if_splits)
qed simp

lemma ownGroup_covers:
  assumes "\<forall>gid mems. mget owned gid = Some mems \<longrightarrow> covered mems all" "wfparts all"
    and "foldl (ownGroup onErr) (owned, all, reps) gs = (owned', all', reps')"
  shows "(\<forall>gid mems. mget owned' gid = Some mems \<longrightarrow> covered mems all') \<and> wfparts all'"
  using assms
proof (induction gs arbitrary: owned all reps)
  case (Cons g gs)
  obtain mems1 all1 reps1 where f: "foldl (ownMember onErr (dgGroupID g)) ([], all, reps) (dgMembers g) = (mems1, all1, reps1)"
    by (metis prod_cases3)
  have "covered mems1 all1 \<and> wfparts all1 \<and> (\<forall>k. inParts all k \<longrightarrow> inParts all1 k)"
    using ownMember_covers [OF _ Cons.prems(2) f] by (simp add: covered_def)
  then show ?case
    using Cons.IH [of "mput (dgGroupID g) mems1 owned" all1 reps1] Cons.IH [of owned all] Cons.prems f
    by (cases "dgErrorCode g = 0") (auto simp: ownGroup_def covered_def split: if_splits)
qed simp

lemma groupTopics_covers:
  assumes "wfmap members" "mget members mid = Some l" "k \<in> set (ownedPairs l)"
  shows "inParts (groupTopics members) k" and "wfparts (groupTopics members)"
proof -
  have "l \<in> set (map snd members)"
    using assms(1,2) by (force simp: mget_in_set)
  then show "inParts (groupTopics members) k" "wfparts (groupTopics members)"
    using groupTopics_fold [of "[]" "map snd members" k] assms(3) by (auto simp: groupTopics_def wfparts_def)
qed

text \<open>
  C31: the two offset calls ask for what the lag needs.  Every partition in the assignment of a
  described member is in the ListOffsets request and, for the member's group, in the OffsetFetch
  request; the partition ids of every requested topic are strictly increasing.
\<close>

theorem offset_requests_cover:
  assumes "foldl (ownGroup onErr) ([], [], reps) (drGroups dg) = (owned, all, reps1)"
    and "describedIn dg gid = Some g" "assignmentIn g mid = Some l" "(t, p) \<in> set (ownedPairs l)"
  shows "(\<exists>tr \<in> set (loTopics (listOffsetsReq all)). lotName tr = t \<and> p \<in> loPartitionIndex ` set (lotPartitions tr)) \<and>
    (\<exists>og \<in> set (ofGroups (offsetFetchReq owned)). ofgGroupID og = gid \<and>
       (\<exists>tr \<in> set (ofgTopics og). oftName tr = t \<and> p \<in> set (oftPartitionIndexes tr) \<and>
          sorted_wrt (\<lambda>i j. sint i < sint j) (oftPartitionIndexes tr))) \<and>
    (\<forall>tr \<in> set (loTopics (listOffsetsReq all)).
       sorted_wrt (\<lambda>i j. sint i < sint j) (map loPartitionIndex (lotPartitions tr)))"
proof -
  have wf: "wfmap owned"
    and rel: "rel_option (\<lambda>mems g. wfmap mems \<and> mget mems = assignmentIn g) (mget owned gid) (describedIn dg gid)"
    using ownGroup_fold [of onErr reps "drGroups dg" gid] assms(1) by (simp_all add: describedIn_def)
  obtain mems where mems: "mget owned gid = Some mems" "wfmap mems" "mget mems mid = Some l"
    using rel assms(2,3) by (auto simp: option_rel_Some2)
  have "covered mems all \<and> wfparts all"
    using ownGroup_covers [OF _ _ assms(1)] mems(1) by (simp add: wfparts_def)
  then have all: "inParts all (t, p)" "wfparts all"
    using mems(3) assms(4) by (auto simp: covered_def)
  obtain ts where ts: "(t, ts) \<in> set all" "p \<in> set (sortedIds ts)"
    using all sortedIds_props by (fastforce simp: inParts_def wfparts_def mget_in_set)
  have own: "inParts (groupTopics mems) (t, p)" "wfparts (groupTopics mems)"
    using groupTopics_covers [OF mems(2,3) assms(4)] by auto
  obtain us where us: "(t, us) \<in> set (groupTopics mems)" "p \<in> set (sortedIds us)" "sorted_wrt (\<lambda>i j. sint i < sint j) (sortedIds us)"
    using own sortedIds_props by (fastforce simp: inParts_def wfparts_def mget_in_set)
  have sorted: "sorted_wrt (\<lambda>i j. sint i < sint j) (sortedIds v)" if "(u, v) \<in> set all" for u v
    using that all(2) sortedIds_props by (auto simp: wfparts_def mget_in_set)
  have "\<exists>tr \<in> set (loTopics (listOffsetsReq all)). lotName tr = t \<and> p \<in> loPartitionIndex ` set (lotPartitions tr)"
    using ts by (force simp: listOffsetsReq_def image_iff)
  moreover have "(gid, mems) \<in> set owned"
    using wf mems(1) by (simp add: mget_in_set)
  then have "\<exists>og \<in> set (ofGroups (offsetFetchReq owned)). ofgGroupID og = gid \<and>
       (\<exists>tr \<in> set (ofgTopics og). oftName tr = t \<and> p \<in> set (oftPartitionIndexes tr) \<and>
          sorted_wrt (\<lambda>i j. sint i < sint j) (oftPartitionIndexes tr))"
    using us by (force simp: offsetFetchReq_def)
  ultimately show ?thesis
    using sorted by (auto simp: listOffsetsReq_def comp_def)
qed

section \<open>The measured lag\<close>

lemma fetchHwm_lookup:
  assumes "coListOffsets co s (listOffsetsReq all) = (marks, s')" "all \<noteq> []"
  shows "\<exists>hwm reps'. fetchHwm co onErr groups all s reps = (hwm, s', reps') \<and> mget hwm = markIn marks"
proof (cases marks)
  case (Inr lo)
  have "mget (hwmOf lo) = markIn marks" unfolding Inr by (rule ext) (rule hwmOf_lookup)
  then show ?thesis using assms Inr by (simp add: fetchHwm_def)
qed (use assms in \<open>simp add: fetchHwm_def markIn_def fun_eq_iff\<close>)

lemma fetchCommitted_lookup:
  assumes "coOffsetFetch co s (offsetFetchReq owned) = (commits, s')" "owned \<noteq> []"
  shows "\<exists>committed reps'. fetchCommitted co onErr groups owned s reps = (committed, s', reps') \<and>
    (\<forall>gid. mget (mgetOr [] committed gid) = commitIn commits gid)"
proof (cases commits)
  case (Inr ofr)
  have "mget (mgetOr [] (fst (foldl (committedGroup onErr) ([], reps) (orGroups ofr))) gid) = commitIn commits gid" for gid
    by (rule ext, subst committedGroup_lookup) (simp add: Inr commitIn_def mgetOr_def split: list.split)
  then show ?thesis
    using assms Inr by (cases "foldl (committedGroup onErr) ([], reps) (orGroups ofr)") (simp add: fetchCommitted_def)
qed (use assms in \<open>simp add: fetchCommitted_def commitIn_def fun_eq_iff mgetOr_def\<close>)

lemma measured_eq:
  assumes "\<forall>k \<in> set ks. mget hwm k = mark k" "\<forall>k \<in> set ks. mget com k = commit k"
  shows "(\<Sum>k\<leftarrow>ks. partitionLag hwm com k) = (\<Sum>k\<leftarrow>ks. knownLag (mark k) (commit k))"
  using assms by (simp add: partitionLag_def cong: map_cong)

text \<open>Where something is owned both calls are made, so that the sums are over what they answered.\<close>

lemma measured_same:
  assumes "foldl (ownGroup onErr) ([], [], reps) gs = (owned, all, reps1)" "all \<noteq> [] \<longrightarrow> mget hwm = markIn marks"
    and "owned \<noteq> [] \<longrightarrow> (\<forall>gid. mget (mgetOr [] committed gid) = commitIn commits gid)"
    and "mget owned gid = Some mems" "mget mems mid = Some l"
  shows "(\<Sum>k\<leftarrow>ownedPairs l. partitionLag hwm (mgetOr [] committed gid) k) =
    (\<Sum>k\<leftarrow>ownedPairs l. knownLag (markIn marks k) (commitIn commits gid k))"
proof (rule measured_eq)
  have "covered mems all" using ownGroup_covers [OF _ _ assms(1)] assms(4) by (simp add: wfparts_def)
  then have "all \<noteq> []" if "k \<in> set (ownedPairs l)" for k
    using assms(5) that by (fastforce simp: covered_def inParts_def)
  then show "\<forall>k\<in>set (ownedPairs l). mget hwm k = markIn marks k" using assms(2) by auto
  have "owned \<noteq> []" using assms(4) by auto
  then show "\<forall>k\<in>set (ownedPairs l). mget (mgetOr [] committed gid) k = commitIn commits gid k" using assms(3) by simp
qed

lemma tick_stages:
  assumes "groups \<noteq> []"
    and "coDescribeGroups co s \<lparr>dgrGroups = groups, dgrIncludeAuthorizedOperations = False\<rparr> = (Inr dg, s1)"
    and "foldl (ownGroup onErr) ([], [], reps) (drGroups dg) = (owned, all, reps1)"
    and "coListOffsets co s1 (listOffsetsReq all) = (marks, s2)"
    and "coOffsetFetch co (if all = [] then s1 else s2) (offsetFetchReq owned) = (commits, s3)"
  shows "\<exists>hwm committed s' reps'. tick co onErr False now groups (h, s, reps) =
      (h\<lparr>hCur := Some \<lparr>lsBuiltAt = now, lsGroups = loads hwm committed owned\<rparr>\<rparr>, s', reps') \<and>
    (all \<noteq> [] \<longrightarrow> mget hwm = markIn marks) \<and>
    (owned \<noteq> [] \<longrightarrow> (\<forall>gid. mget (mgetOr [] committed gid) = commitIn commits gid))"
proof -
  obtain hwm reps2 where h: "fetchHwm co onErr groups all s1 reps1 = (hwm, if all = [] then s1 else s2, reps2)"
      "all \<noteq> [] \<longrightarrow> mget hwm = markIn marks"
    using fetchHwm_lookup [OF assms(4), of onErr groups reps1] by (cases "all = []") (auto simp: fetchHwm_def)
  obtain committed s' reps3 where c: "fetchCommitted co onErr groups owned (if all = [] then s1 else s2) reps2 = (committed, s', reps3)"
      "owned \<noteq> [] \<longrightarrow> (\<forall>gid. mget (mgetOr [] committed gid) = commitIn commits gid)"
    using fetchCommitted_lookup [OF assms(5), of onErr groups reps2] by (cases "owned = []") (auto simp: fetchCommitted_def)
  have "tick co onErr False now groups (h, s, reps) =
      (h\<lparr>hCur := Some \<lparr>lsBuiltAt = now, lsGroups = loads hwm committed owned\<rparr>\<rparr>, s', reps3)"
    using assms(1-3) h(1) c(1) by (simp add: tick_def Store_holder_def)
  with h(2) c(2) show ?thesis by blast
qed

text \<open>
  C29: a poll whose DescribeGroups call succeeds publishes a snapshot with exactly the groups that
  were described without an error, whatever happened to the other groups and to the two offset
  calls, and in it exactly the members with a non-empty assignment that decodes.  Such a member has the
  number of its partitions and, as its lag, the sum over its partitions of the high-water mark that the
  ListOffsets response gives minus the committed offset that the OffsetFetch response gives its group,
  where both are known and the difference is positive; entries with an error, groups with an error and
  negative committed offsets count as unknown.  The sum is exact as long as it fits 63 bits.
\<close>

theorem poll_measures_lag:
  assumes "groups \<noteq> []"
    and "coDescribeGroups co s \<lparr>dgrGroups = groups, dgrIncludeAuthorizedOperations = False\<rparr> = (Inr dg, s1)"
    and "foldl (ownGroup onErr) ([], [], reps) (drGroups dg) = (owned, all, reps1)"
    and "coListOffsets co s1 (listOffsetsReq all) = (marks, s2)"
    and "coOffsetFetch co (if all = [] then s1 else s2) (offsetFetchReq owned) = (commits, s3)"
  shows "\<exists>snap s' reps'. tick co onErr False now groups (h, s, reps) = (h\<lparr>hCur := Some snap\<rparr>, s', reps') \<and> lsBuiltAt snap = now \<and>
    (\<forall>gid. case describedIn dg gid of
       None \<Rightarrow> mget (lsGroups snap) gid = None
     | Some g \<Rightarrow> \<exists>gl. mget (lsGroups snap) gid = Some gl \<and> glGroupID gl = gid \<and>
         (\<forall>mid. case assignmentIn g mid of
            None \<Rightarrow> mget (glMembers gl) mid = None
          | Some l \<Rightarrow> \<exists>ml. mget (glMembers gl) mid = Some ml \<and> mlMemberID ml = mid \<and>
              mlAssignedPartitions ml = int (length (ownedPairs l)) \<and>
              (let lag = (\<Sum>k\<leftarrow>ownedPairs l. knownLag (markIn marks k) (commitIn commits gid k)) in
               0 \<le> lag \<and> (lag < 2 ^ 63 \<longrightarrow> sint (mlLagMessages ml) = lag))))"
proof -
  obtain hwm committed s' reps' where t: "tick co onErr False now groups (h, s, reps) =
      (h\<lparr>hCur := Some \<lparr>lsBuiltAt = now, lsGroups = loads hwm committed owned\<rparr>\<rparr>, s', reps')"
    and hwm: "all \<noteq> [] \<longrightarrow> mget hwm = markIn marks"
    and com: "owned \<noteq> [] \<longrightarrow> (\<forall>gid. mget (mgetOr [] committed gid) = commitIn commits gid)"
    using tick_stages [OF assms] by blast
  let ?snap = "\<lparr>lsBuiltAt = now, lsGroups = loads hwm committed owned\<rparr>"
  let ?lag = "\<lambda>gid l. \<Sum>k\<leftarrow>ownedPairs l. knownLag (markIn marks k) (commitIn commits gid k)"
  have wf: "wfmap owned"
    and rel: "rel_option (\<lambda>mems g. wfmap mems \<and> mget mems = assignmentIn g) (mget owned gid) (describedIn dg gid)" for gid
    using ownGroup_fold [of onErr reps "drGroups dg" gid] assms(3) by (simp_all add: describedIn_def)
  note same = measured_same [OF assms(3) hwm com]
  have nonneg: "0 \<le> ?lag gid l" for gid l
    by (rule sum_list_nonneg) (auto simp: knownLag_def split: option.splits)
  have exact: "sint (of_int n :: int64) = n" if "0 \<le> n" "n < 2 ^ 63" for n
    using that by (simp add: signed_of_int signed_take_bit_int_eq_self)
  have member: "\<exists>ml. mget (glMembers (groupLoad hwm (mgetOr [] committed gid) gid mems)) mid = Some ml \<and> mlMemberID ml = mid \<and>
      mlAssignedPartitions ml = int (length (ownedPairs l)) \<and> (?lag gid l < 2 ^ 63 \<longrightarrow> sint (mlLagMessages ml) = ?lag gid l)"
    if "mget owned gid = Some mems" "wfmap mems" "mget mems mid = Some l" for gid mems mid l
    using that same [OF that(1,3)] exact [OF nonneg] by (simp add: groupLoad_lookup memberLoad_eq)
  show ?thesis
  proof (intro exI conjI allI, rule t, simp)
    show "case describedIn dg gid of
       None \<Rightarrow> mget (lsGroups ?snap) gid = None
     | Some g \<Rightarrow> \<exists>gl. mget (lsGroups ?snap) gid = Some gl \<and> glGroupID gl = gid \<and>
         (\<forall>mid. case assignmentIn g mid of
            None \<Rightarrow> mget (glMembers gl) mid = None
          | Some l \<Rightarrow> \<exists>ml. mget (glMembers gl) mid = Some ml \<and> mlMemberID ml = mid \<and>
              mlAssignedPartitions ml = int (length (ownedPairs l)) \<and>
              (let lag = ?lag gid l in 0 \<le> lag \<and> (lag < 2 ^ 63 \<longrightarrow> sint (mlLagMessages ml) = lag)))" for gid
      using rel [of gid] nonneg [of gid] member [of gid]
      by (cases "mget owned gid"; cases "describedIn dg gid")
        (auto simp: loads_lookup [OF wf] groupLoad_lookup groupLoad_id Let_def split: option.split)
  qed
qed

section \<open>Properties of the registry\<close>

text \<open>
  Whatever sequence of additions and removals the registry has seen, \<open>Groups\<close> lists the
  registered groups, each once and in increasing order.
\<close>

theorem registry_is_sorted_set:
  "let r = foldl (\<lambda>r (add, g). if add then Add_registry r g else Remove_registry r g) NewSyncRegistry ops in
   sorted_wrt (<) (Groups_registry r) \<and>
   set (Groups_registry r) = foldl (\<lambda>S (add, g). if add then insert g S else S - {g}) {} ops"
proof -
  have "wfmap (srGroups (foldl (\<lambda>r (add, g). if add then Add_registry r g else Remove_registry r g) r ops)) \<and>
      {g. mget (srGroups (foldl (\<lambda>r (add, g). if add then Add_registry r g else Remove_registry r g) r ops)) g \<noteq> None}
      = foldl (\<lambda>S (add, g). if add then insert g S else S - {g}) {g. mget (srGroups r) g \<noteq> None} ops"
    if "wfmap (srGroups r)" for r
    using that
  proof (induction ops arbitrary: r)
    case (Cons op ops)
    have "{g. mget (srGroups (Add_registry r x)) g \<noteq> None} = insert x {g. mget (srGroups r) g \<noteq> None}"
      "{g. mget (srGroups (Remove_registry r x)) g \<noteq> None} = {g. mget (srGroups r) g \<noteq> None} - {x}" for x
      by (auto simp: Add_registry_def Remove_registry_def)
    then show ?case
      using Cons.IH [of "Add_registry r (snd op)"] Cons.IH [of "Remove_registry r (snd op)"] Cons.prems
      by (cases op) (simp add: Add_registry_def Remove_registry_def)
  qed simp
  from this [of NewSyncRegistry] show ?thesis
    by (simp add: NewSyncRegistry_def Groups_registry_def gm.set_ks Let_def gm.wf_ks strict_sorted_iff)
qed

section \<open>Examples\<close>

definition ownedAssignment :: Assignment where
  "ownedAssignment = \<lparr>asVersion = 0, asPartitions = [\<lparr>tpTopic = ''t'', tpPartitions = [1, 0, 2]\<rparr>], asUserData = [],
     asUserDataNull = True, asRackID = '''', asRackIDNull = False, asRackIDPresent = False\<rparr>"

definition sampleDescribed :: DescribeGroupsResponse where
  "sampleDescribed = \<lparr>drThrottleTimeMs = 0, drGroups =
     [\<lparr>dgErrorCode = 0, dgGroupID = ''g'', dgGroupState = '''', dgProtocolType = '''', dgProtocolData = '''',
       dgMembers = [\<lparr>dmMemberID = ''m'', dmGroupInstanceID = '''', dmGroupInstanceIDNull = True, dmClientID = '''',
         dmClientHost = '''', dmMemberMetadata = [], dmMemberAssignment = AppendAssignment [] ownedAssignment\<rparr>],
       dgAuthorizedOperations = 0\<rparr>]\<rparr>"

definition sampleCommits :: OffsetFetchResponse where
  "sampleCommits = \<lparr>orThrottleTimeMs = 0, orGroups = [\<lparr>ogGroupID = ''g'', ogTopics =
     [\<lparr>otName = ''t'', otPartitions = map (\<lambda>(pid, off). \<lparr>opPartitionIndex = pid, opCommittedOffset = off,
       opCommittedLeaderEpoch = 0, opMetadata = '''', opMetadataNull = True, opErrorCode = 0\<rparr>) [(0, 7), (1, -1), (2, 4)]\<rparr>],
     ogErrorCode = 0\<rparr>]\<rparr>"

definition sampleMarks :: ListOffsetsResponse where
  "sampleMarks = \<lparr>lrThrottleTimeMs = 0, lrTopics = [\<lparr>lrtName = ''t'', lrtPartitions =
     map (\<lambda>(pid, code). \<lparr>lrPartitionIndex = pid, lrErrorCode = code, lrTimestamp = 0, lrOffset = 10, lrLeaderEpoch = 0\<rparr>)
       [(0, 0), (1, 0), (2, 6)]\<rparr>]\<rparr>"

definition sampleCoordinator :: "(unit, kclientErr) Coordinator" where
  "sampleCoordinator =
     \<lparr>coDescribeGroups = (\<lambda>s req. (Inr sampleDescribed, s)), coOffsetFetch = (\<lambda>s req. (Inr sampleCommits, s)),
      coListOffsets = (\<lambda>s req. (Inr sampleMarks, s))\<rparr>"

lemma sample_owned:
  "foldl (ownGroup True) ([], [], []) (drGroups sampleDescribed) =
     ([(''g'', [(''m'', [\<lparr>tpTopic = ''t'', tpPartitions = [1, 0, 2]\<rparr>])])], [(''t'', [(1, ()), (0, ()), (2, ())])], [] :: kclientErr reports)"
  by code_simp

lemma sample_described:
  "describedIn sampleDescribed ''g'' = Some (hd (drGroups sampleDescribed))"
  "assignmentIn (hd (drGroups sampleDescribed)) ''m'' = Some [\<lparr>tpTopic = ''t'', tpPartitions = [1, 0, 2]\<rparr>]"
proof -
  show "describedIn sampleDescribed ''g'' = Some (hd (drGroups sampleDescribed))"
    by (simp add: sampleDescribed_def describedIn_def)
  have "DecodeAssignment (AppendAssignment [] ownedAssignment) = Inr ownedAssignment"
    "AppendAssignment [] ownedAssignment \<noteq> []"
    by code_simp+
  then show "assignmentIn (hd (drGroups sampleDescribed)) ''m'' = Some [\<lparr>tpTopic = ''t'', tpPartitions = [1, 0, 2]\<rparr>]"
    by (simp add: sampleDescribed_def assignmentIn_def decodes_def decoded_def, simp add: ownedAssignment_def)
qed

text \<open>Partition 0 is behind by 3; partition 1 has a negative committed offset, partition 2 an error.\<close>

theorem poll_measures_lag_witness:
  "\<exists>snap gl ml reps. tick sampleCoordinator True False 5 [''g''] (\<lparr>hCur = None\<rparr>, (), []) = (\<lparr>hCur = Some snap\<rparr>, (), reps) \<and>
     mget (lsGroups snap) ''g'' = Some gl \<and> mget (glMembers gl) ''m'' = Some ml \<and>
     mlAssignedPartitions ml = 3 \<and> sint (mlLagMessages ml) = 3"
proof -
  let ?l = "[\<lparr>tpTopic = ''t'', tpPartitions = [1, 0, 2 :: int32]\<rparr>]"
  have d: "coDescribeGroups sampleCoordinator () \<lparr>dgrGroups = [''g''], dgrIncludeAuthorizedOperations = False\<rparr> = (Inr sampleDescribed, ())"
    by (simp add: sampleCoordinator_def)
  have m: "coListOffsets sampleCoordinator s req = (Inr sampleMarks, s)" for s req
    by (simp add: sampleCoordinator_def)
  have c: "coOffsetFetch sampleCoordinator s req = (Inr sampleCommits, s)" for s req
    by (simp add: sampleCoordinator_def)
  have lag: "(\<Sum>k\<leftarrow>ownedPairs ?l. knownLag (markIn (Inr sampleMarks :: kclientErr + _) k) (commitIn (Inr sampleCommits :: kclientErr + _) ''g'' k)) = 3"
    by code_simp
  have three: "length (ownedPairs ?l) = 3"
    by (simp add: ownedPairs_def)
  obtain snap s' reps' where t: "tick sampleCoordinator True False 5 [''g''] (\<lparr>hCur = None\<rparr>, (), []) = (\<lparr>hCur = Some snap\<rparr>, s', reps')"
    and snap: "\<forall>gid. case describedIn sampleDescribed gid of
       None \<Rightarrow> mget (lsGroups snap) gid = None
     | Some g \<Rightarrow> \<exists>gl. mget (lsGroups snap) gid = Some gl \<and> glGroupID gl = gid \<and>
         (\<forall>mid. case assignmentIn g mid of
            None \<Rightarrow> mget (glMembers gl) mid = None
          | Some l \<Rightarrow> \<exists>ml. mget (glMembers gl) mid = Some ml \<and> mlMemberID ml = mid \<and>
              mlAssignedPartitions ml = int (length (ownedPairs l)) \<and>
              (let lag = (\<Sum>k\<leftarrow>ownedPairs l. knownLag (markIn (Inr sampleMarks :: kclientErr + _) k) (commitIn (Inr sampleCommits :: kclientErr + _) gid k)) in
               0 \<le> lag \<and> (lag < 2 ^ 63 \<longrightarrow> sint (mlLagMessages ml) = lag)))"
    using poll_measures_lag [OF _ d sample_owned m c, of 5 "\<lparr>hCur = None\<rparr>"] by auto
  from snap [THEN spec, of "''g''"] obtain gl where gl: "mget (lsGroups snap) ''g'' = Some gl"
    and mem: "\<exists>ml. mget (glMembers gl) ''m'' = Some ml \<and> mlAssignedPartitions ml = int (length (ownedPairs ?l)) \<and>
      (let lag = 3 in 0 \<le> lag \<and> (lag < 2 ^ 63 \<longrightarrow> sint (mlLagMessages ml) = lag))"
    unfolding sample_described(1) option.case by (elim exE conjE) (drule spec [of _ "''m''"], unfold sample_described(2) option.case lag, blast)
  from mem gl t three show ?thesis by (auto simp: Let_def)
qed

theorem failed_poll_keeps_snapshot_witness:
  "\<exists>reps. tick (sampleCoordinator\<lparr>coDescribeGroups := \<lambda>s req. (Inl ErrCorrelationMismatch, s)\<rparr>) True False 5 [''g'']
     (\<lparr>hCur = Some \<lparr>lsBuiltAt = 1, lsGroups = []\<rparr>\<rparr>, (), []) =
     (\<lparr>hCur = Some \<lparr>lsBuiltAt = 1, lsGroups = []\<rparr>\<rparr>, (), reps) \<and> reps = [(''g'', PCall ErrCorrelationMismatch)]"
  using failed_poll_keeps_snapshot [of "[''g'']" "sampleCoordinator\<lparr>coDescribeGroups := \<lambda>s req. (Inl ErrCorrelationMismatch, s)\<rparr>"
      "()" ErrCorrelationMismatch "()" True 5 "\<lparr>hCur = Some \<lparr>lsBuiltAt = 1, lsGroups = []\<rparr>\<rparr>" "[]"]
  by simp

theorem offset_requests_cover_witness:
  "\<exists>tr \<in> set (loTopics (listOffsetsReq [(''t'', [(1, ()), (0, ()), (2, ())])])). lotName tr = ''t'' \<and>
     1 \<in> loPartitionIndex ` set (lotPartitions tr)"
  using offset_requests_cover [OF sample_owned sample_described, of "''t''" 1] by (simp add: ownedPairs_def)

end
