(* ===== verification/Listener.thy ===== *)
theory Listener
  imports ProxyConn
begin

text \<open>
  \<open>internal/proxy/listener.go\<close>: the accept loop.  \<open>Serve\<close> and the goroutines of the accepted
  connections interleave in \<open>serve_step\<close>, one rule per way through each blocking call: the outcomes
  of \<open>Accept\<close> and of \<open>DialBroker\<close>, the semaphore, the back-off timer, the end of a connection.  A
  client is the number of its \<open>Accept\<close>.
\<close>

section \<open>State\<close>

record ListenerCfg =
  liMaxConcurrent :: int
  liAcceptTimeout :: int
  liOnAcceptError :: bool

text \<open>Where the accept loop is; \<open>Stopped\<close> is the deferred wait for the connections.\<close>

datatype servePhase =
    Accepting
  | BackingOff
  | Acquiring nat
  | Dialing nat
  | Stopped "ioerr option"
  | ServeDone "ioerr option"

record Serve =
  svCfg :: ListenerCfg
  svSem :: nat
  svDelay :: int
  svPhase :: servePhase
  svNext :: nat
  svRunning :: "nat set"
  svClosed :: "nat set"
  svEnded :: "nat set"
  svErrors :: nat
  svCancelled :: bool

definition newServe :: "ListenerCfg \<Rightarrow> Serve" where
  "newServe cfg = \<lparr>svCfg = cfg, svSem = 0, svDelay = 0, svPhase = Accepting, svNext = 0, svRunning = {},
     svClosed = {}, svEnded = {}, svErrors = 0, svCancelled = False\<rparr>"

definition millisecond :: int where "millisecond = 1000000"
definition oneSecond :: int where "oneSecond = 1000000000"

definition nextDelay :: "int \<Rightarrow> int" where
  "nextDelay acceptDelay =
     (let d = (if acceptDelay = 0 then 5 * millisecond else acceptDelay * 2)
      in if d > oneSecond then oneSecond else d)"

text \<open>A context is its deadline; \<open>WithTimeout\<close> keeps the earlier of two.\<close>

definition dialContext :: "int \<Rightarrow> int option \<Rightarrow> int \<Rightarrow> int option" where
  "dialContext now parent d =
     (if d \<le> 0 then parent
      else Some (case parent of None \<Rightarrow> now + d | Some t \<Rightarrow> min t (now + d)))"

definition countError :: "Serve \<Rightarrow> Serve" where
  "countError s = (if liOnAcceptError (svCfg s) then s\<lparr>svErrors := Suc (svErrors s)\<rparr> else s)"

definition hasSem :: "Serve \<Rightarrow> bool" where
  "hasSem s \<longleftrightarrow> liMaxConcurrent (svCfg s) > 0"

definition releaseSem :: "Serve \<Rightarrow> Serve" where
  "releaseSem s = (if hasSem s then s\<lparr>svSem := svSem s - 1\<rparr> else s)"

definition acquireSem :: "Serve \<Rightarrow> Serve" where
  "acquireSem s = (if hasSem s then s\<lparr>svSem := Suc (svSem s)\<rparr> else s)"

definition semFree :: "Serve \<Rightarrow> bool" where
  "semFree s \<longleftrightarrow> (hasSem s \<longrightarrow> int (svSem s) < liMaxConcurrent (svCfg s))"

section \<open>Steps\<close>

inductive serve_step :: "Serve \<Rightarrow> Serve \<Rightarrow> bool" where
  accept_closed: "svPhase s = Accepting \<Longrightarrow> serve_step s (s\<lparr>svPhase := Stopped None\<rparr>)"
| accept_net_error: "svPhase s = Accepting \<Longrightarrow>
    serve_step s (countError s\<lparr>svDelay := nextDelay (svDelay s), svPhase := BackingOff\<rparr>)"
| accept_error: "svPhase s = Accepting \<Longrightarrow> serve_step s (countError s\<lparr>svPhase := Stopped (Some err)\<rparr>)"
| back_off: "svPhase s = BackingOff \<Longrightarrow> serve_step s (s\<lparr>svPhase := Accepting\<rparr>)"
| back_off_ctx: "svPhase s = BackingOff \<Longrightarrow> svCancelled s \<Longrightarrow> serve_step s (s\<lparr>svPhase := Stopped None\<rparr>)"
| accept: "svPhase s = Accepting \<Longrightarrow>
    serve_step s (s\<lparr>svDelay := 0, svPhase := Acquiring (svNext s), svNext := Suc (svNext s)\<rparr>)"
| acquire: "svPhase s = Acquiring cl \<Longrightarrow> semFree s \<Longrightarrow> serve_step s (acquireSem s\<lparr>svPhase := Dialing cl\<rparr>)"
| acquire_ctx: "svPhase s = Acquiring cl \<Longrightarrow> hasSem s \<Longrightarrow> svCancelled s \<Longrightarrow>
    serve_step s (s\<lparr>svClosed := insert cl (svClosed s), svPhase := Stopped None\<rparr>)"
| dial_error: "svPhase s = Dialing cl \<Longrightarrow>
    serve_step s (countError (releaseSem s)\<lparr>svClosed := insert cl (svClosed s), svPhase := Accepting\<rparr>)"
| dial: "svPhase s = Dialing cl \<Longrightarrow>
    serve_step s (s\<lparr>svRunning := insert cl (svRunning s), svPhase := Accepting\<rparr>)"
| conn_end: "cl \<in> svRunning s \<Longrightarrow>
    serve_step s (releaseSem s\<lparr>svRunning := svRunning s - {cl}, svEnded := insert cl (svEnded s)\<rparr>)"
| conn_fail: "cl \<in> svRunning s \<Longrightarrow>
    serve_step s (countError (releaseSem s)\<lparr>svRunning := svRunning s - {cl}, svEnded := insert cl (svEnded s)\<rparr>)"
| cancel: "serve_step s (s\<lparr>svCancelled := True\<rparr>)"
| finish: "svPhase s = Stopped res \<Longrightarrow> svRunning s = {} \<Longrightarrow> serve_step s (s\<lparr>svPhase := ServeDone res\<rparr>)"

section \<open>Invariant\<close>

text \<open>The client that the accept loop holds, and whether it holds a slot of the semaphore for it.\<close>

fun heldClient :: "servePhase \<Rightarrow> nat set" where
  "heldClient (Acquiring cl) = {cl}"
| "heldClient (Dialing cl) = {cl}"
| "heldClient _ = {}"

fun slots :: "servePhase \<Rightarrow> nat" where
  "slots (Dialing cl) = 1"
| "slots _ = 0"

text \<open>Slots taken are connections that run, and the one being dialled.\<close>

definition sem_inv :: "ListenerCfg \<Rightarrow> Serve \<Rightarrow> bool" where
  "sem_inv cfg s \<longleftrightarrow> svCfg s = cfg \<and> finite (svRunning s) \<and>
     (\<forall>cl. svPhase s = Dialing cl \<longrightarrow> cl \<notin> svRunning s) \<and>
     (liMaxConcurrent cfg > 0 \<longrightarrow>
       svSem s = card (svRunning s) + slots (svPhase s) \<and> int (svSem s) \<le> liMaxConcurrent cfg)"

text \<open>Every accepted client is in exactly one place.\<close>

definition clients_inv :: "Serve \<Rightarrow> bool" where
  "clients_inv s \<longleftrightarrow>
     {..<svNext s} = heldClient (svPhase s) \<union> svRunning s \<union> svClosed s \<union> svEnded s \<and>
     heldClient (svPhase s) \<inter> (svRunning s \<union> svClosed s \<union> svEnded s) = {} \<and>
     svRunning s \<inter> (svClosed s \<union> svEnded s) = {} \<and> svClosed s \<inter> svEnded s = {}"

definition loop_inv :: "Serve \<Rightarrow> bool" where
  "loop_inv s \<longleftrightarrow> 0 \<le> svDelay s \<and> svDelay s \<le> oneSecond \<and> (\<forall>res. svPhase s = ServeDone res \<longrightarrow> svRunning s = {})"

lemmas sem_simps = hasSem_def releaseSem_def acquireSem_def semFree_def countError_def

lemma nextDelay_bounds: "0 \<le> d \<Longrightarrow> 0 < nextDelay d \<and> nextDelay d \<le> oneSecond"
  by (auto simp: nextDelay_def Let_def oneSecond_def millisecond_def)

lemma loop_step: "serve_step s s' \<Longrightarrow> loop_inv s \<Longrightarrow> loop_inv s'"
proof (induction rule: serve_step.induct)
  case (accept_net_error s)
  then show ?case
    using nextDelay_bounds [of "svDelay s"] by (simp add: loop_inv_def sem_simps)
next
  case (accept s)
  then show ?case by (simp add: loop_inv_def oneSecond_def)
qed (simp_all add: loop_inv_def sem_simps)

lemma clients_step: "serve_step s s' \<Longrightarrow> clients_inv s \<Longrightarrow> clients_inv s'"
proof (induction rule: serve_step.induct)
  case (accept s)
  then have "svNext s \<notin> svRunning s \<union> svClosed s \<union> svEnded s"
    unfolding clients_inv_def by (metis Un_iff lessThan_iff less_irrefl)
  with accept show ?case
    by (simp add: clients_inv_def lessThan_Suc)
next
  case (conn_end cl s)
  then show ?case by (simp add: clients_inv_def sem_simps) blast
next
  case (conn_fail cl s)
  then show ?case by (simp add: clients_inv_def sem_simps) blast
next
  case (acquire_ctx s cl)
  then show ?case by (simp add: clients_inv_def)
next
  case (dial_error s cl)
  then show ?case by (simp add: clients_inv_def sem_simps)
next
  case (dial s cl)
  then show ?case by (simp add: clients_inv_def)
qed (simp_all add: clients_inv_def sem_simps)

lemma running_less: "sem_inv cfg s \<Longrightarrow> cl \<in> svRunning s \<Longrightarrow> \<exists>n. card (svRunning s) = Suc n \<and> card (svRunning s - {cl}) = n"
  by (auto simp: sem_inv_def card_Diff_singleton card_gt_0_iff intro!: Suc_pred [symmetric])

lemma sem_step: "serve_step s s' \<Longrightarrow> clients_inv s \<Longrightarrow> sem_inv cfg s \<Longrightarrow> sem_inv cfg s'"
proof (induction rule: serve_step.induct)
  case (acquire s cl)
  then show ?case by (auto simp: sem_inv_def clients_inv_def sem_simps)
next
  case (conn_end cl s)
  then show ?case using running_less [of cfg s cl] by (auto simp: sem_inv_def sem_simps)
next
  case (conn_fail cl s)
  then show ?case using running_less [of cfg s cl] by (auto simp: sem_inv_def sem_simps)
qed (auto simp: sem_inv_def sem_simps)

interpretation serving: step_system serve_step "newServe cfg" "\<lambda>s. loop_inv s \<and> clients_inv s \<and> sem_inv cfg s" for cfg
proof unfold_locales
  show "loop_inv (newServe cfg) \<and> clients_inv (newServe cfg) \<and> sem_inv cfg (newServe cfg)"
    by (simp add: loop_inv_def clients_inv_def sem_inv_def newServe_def oneSecond_def)
  show "loop_inv s' \<and> clients_inv s' \<and> sem_inv cfg s'" if "serve_step s s'" "loop_inv s \<and> clients_inv s \<and> sem_inv cfg s" for s s'
    using that loop_step clients_step sem_step by blast
qed

section \<open>Properties\<close>

text \<open>
  C33: whatever clients, brokers and shutdown do, the accept loop never has more connections running
  or being dialled than \<open>MaxConcurrent\<close>, and no slot of the semaphore is ever lost: the slots taken
  are exactly the running connections and the one being dialled.
\<close>

theorem connections_capped:
  assumes "serve_step\<^sup>*\<^sup>* (newServe cfg) s" "liMaxConcurrent cfg > 0"
  shows "svSem s = card (svRunning s) + slots (svPhase s) \<and> int (card (svRunning s) + slots (svPhase s)) \<le> liMaxConcurrent cfg"
  using serving.reachable [OF assms(1)] assms(2) by (simp add: sem_inv_def)

text \<open>
  Every client that was accepted is in exactly one place: in the hands of the accept loop, served
  by its connection, ended, or closed because it could not be served.  \<open>Serve\<close> returns only when
  no connection runs any more, and then every accepted client has ended or was closed.
\<close>

theorem clients_accounted:
  assumes "serve_step\<^sup>*\<^sup>* (newServe cfg) s"
  shows "{..<svNext s} = heldClient (svPhase s) \<union> svRunning s \<union> svClosed s \<union> svEnded s \<and>
    heldClient (svPhase s) \<inter> (svRunning s \<union> svClosed s \<union> svEnded s) = {} \<and>
    svRunning s \<inter> (svClosed s \<union> svEnded s) = {} \<and> svClosed s \<inter> svEnded s = {} \<and>
    (svPhase s = ServeDone res \<longrightarrow> {..<svNext s} = svClosed s \<union> svEnded s)"
  using serving.reachable [OF assms] by (auto simp: clients_inv_def loop_inv_def)

text \<open>
  The wait after a transient error of \<open>Accept\<close> grows from 5 ms by doubling to one second and never
  beyond, and a successful \<open>Accept\<close> resets it.
\<close>

lemma accept_backoff:
  assumes "serve_step\<^sup>*\<^sup>* (newServe cfg) s"
  shows "0 \<le> svDelay s \<and> svDelay s \<le> oneSecond"
  using serving.reachable [OF assms] by (simp add: loop_inv_def)

lemma nextDelay_iterates: "(nextDelay ^^ Suc n) 0 = min oneSecond (5 * millisecond * 2 ^ n)"
  by (induction n) (auto simp: nextDelay_def Let_def oneSecond_def millisecond_def min_def)

section \<open>Examples\<close>

definition sampleListener :: ListenerCfg where
  "sampleListener = \<lparr>liMaxConcurrent = 1, liAcceptTimeout = 0, liOnAcceptError = True\<rparr>"

definition servingOne :: Serve where
  "servingOne = (newServe sampleListener)\<lparr>svSem := 1, svNext := 1, svRunning := {0}\<rparr>"

lemma servingOne_reachable: "serve_step\<^sup>*\<^sup>* (newServe sampleListener) servingOne"
proof -
  define s1 where "s1 = (newServe sampleListener)\<lparr>svPhase := Acquiring 0, svNext := 1\<rparr>"
  define s2 where "s2 = s1\<lparr>svSem := 1, svPhase := Dialing 0\<rparr>"
  have "serve_step (newServe sampleListener) s1"
    using serve_step.accept [of "newServe sampleListener"] by (simp add: s1_def newServe_def)
  moreover have "serve_step s1 s2"
    using serve_step.acquire [of s1 0] by (simp add: s2_def s1_def newServe_def sem_simps sampleListener_def)
  moreover have "serve_step s2 servingOne"
    using serve_step.dial [of s2 0] by (simp add: s2_def s1_def servingOne_def newServe_def)
  ultimately show ?thesis by simp
qed

theorem connections_capped_witness: "int (card (svRunning servingOne)) \<le> 1"
  using connections_capped [OF servingOne_reachable] by (simp add: sampleListener_def)

theorem clients_accounted_witness: "{..<svNext servingOne} = svRunning servingOne \<and> svRunning servingOne = {0}"
  using clients_accounted [OF servingOne_reachable] by (simp add: servingOne_def newServe_def)

end
