(* ===== verification/Gateway.thy ===== *)
theory Gateway
  imports EndToEnd Planner MetadataCache Telemetry Listener
begin

text \<open>
  \<open>cmd/kproxy/main.go\<close> and \<open>internal/obs/admin.go\<close>: how the parts are put together.  The configuration
  after flag parsing, the choice of the topology, the health check over the metadata cache, the
  gauges, the admin handlers, the callback from the subscription store to the registry of polled
  groups, the planner pool as the interceptor sees it, and the shutdown sequence at the end of \<open>run\<close>
  as a step relation over the accept loop and the pool.  Durations are whole nanoseconds.
\<close>

section \<open>Configuration\<close>

record config =
  cfListen :: string
  cfBroker :: string
  cfBootstrap :: string
  cfAdmin :: string
  cfTopologyFlag :: string
  cfTopologyFile :: string
  cfConnLimit :: int
  cfFrameMax :: int
  cfIdleTimeout :: int
  cfPlanTimeout :: int
  cfRefresh :: int
  cfTelemetryEv :: int
  cfDialTimeout :: int
  cfDrainTimeout :: int
  cfPlannerWorker :: int
  cfPlannerQueue :: int
  cfSubMax :: int
  cfClientID :: string
  cfEnablePprof :: bool
  cfHealthMaxAge :: int

text \<open>The defaults of the command-line flags.\<close>

definition flagDefaults :: config where
  "flagDefaults =
     \<lparr>cfListen = '':9092'', cfBroker = '''', cfBootstrap = '''', cfAdmin = ''127.0.0.1:9099'', cfTopologyFlag = '''',
      cfTopologyFile = '''', cfConnLimit = 4096, cfFrameMax = 0, cfIdleTimeout = 5 * 60 * oneSecond,
      cfPlanTimeout = 2 * oneSecond, cfRefresh = 30 * oneSecond, cfTelemetryEv = 15 * oneSecond,
      cfDialTimeout = 5 * oneSecond, cfDrainTimeout = 30 * oneSecond, cfPlannerWorker = 0, cfPlannerQueue = 0,
      cfSubMax = 100000, cfClientID = ''kproxy'', cfEnablePprof = False, cfHealthMaxAge = 0\<rparr>"

definition checkConfig :: "config \<Rightarrow> config option" where
  "checkConfig cfg =
     (if cfBroker cfg = '''' then None
      else Some (if cfBootstrap cfg = '''' then cfg\<lparr>cfBootstrap := cfBroker cfg\<rparr> else cfg))"

datatype topoLoadErr = BadFlag topoErr | BadFile loadErr

definition chooseTopology :: "(string \<Rightarrow> loadErr + Mapping) \<Rightarrow> config \<Rightarrow> topoLoadErr + Mapping" where
  "chooseTopology load cfg =
     (if cfTopologyFlag cfg \<noteq> '''' then (case ParseFlag (cfTopologyFlag cfg) of Inl e \<Rightarrow> Inl (BadFlag e) | Inr t \<Rightarrow> Inr t)
      else if cfTopologyFile cfg \<noteq> '''' then (case load (cfTopologyFile cfg) of Inl e \<Rightarrow> Inl (BadFile e) | Inr t \<Rightarrow> Inr t)
      else Inr NewMapping)"

section \<open>Health and gauges\<close>

record healthCheck =
  hcCache :: Cache
  hcMaxAge :: int

definition MetadataAgeOK :: "int \<Rightarrow> healthCheck \<Rightarrow> bool" where
  "MetadataAgeOK now h \<longleftrightarrow> Age now (hcCache h) \<le> hcMaxAge h"

definition healthMaxAge :: "config \<Rightarrow> int" where
  "healthMaxAge cfg = (if cfHealthMaxAge cfg > 0 then cfHealthMaxAge cfg else 3 * cfRefresh cfg)"

text \<open>One firing of the ticker of \<open>gaugeRefresher\<close>.\<close>

definition gaugeRefresher :: "int \<Rightarrow> Holder \<Rightarrow> Store \<Rightarrow> Metrics \<Rightarrow> Metrics" where
  "gaugeRefresher now h st m =
     (let m = (case Get_holder h of None \<Rightarrow> m | Some snap \<Rightarrow> m\<lparr>TelemetryAgeNS := of_int (now - lsBuiltAt snap)\<rparr>)
      in m\<lparr>SubscriptionLen := of_nat (Len_store st)\<rparr>)"

section \<open>The admin server\<close>

record Admin =
  adMetrics :: "Metrics option"
  adHealth :: "healthCheck option"
  adEnablePprof :: bool

record Response =
  rsStatus :: nat
  rsContentType :: string
  rsBody :: string

datatype answer = Answer Response | PprofHandler | MovedTo string | NilDereference

definition rootHandler :: "Admin \<Rightarrow> string \<Rightarrow> answer" where
  "rootHandler a path =
     (if path \<noteq> ''/'' then Answer \<lparr>rsStatus = 404, rsContentType = ''text/plain; charset=utf-8'', rsBody = ''404 page not found'' @ [newline]\<rparr>
      else Answer \<lparr>rsStatus = 200, rsContentType = ''text/plain; charset=utf-8'',
             rsBody = ''kproxy admin'' @ [newline] @ ''  GET /healthz'' @ [newline] @ ''  GET /metrics'' @ [newline] @
               (if adEnablePprof a then ''  GET /debug/pprof/'' @ [newline] else [])\<rparr>)"

definition healthzHandler :: "int \<Rightarrow> Admin \<Rightarrow> answer" where
  "healthzHandler now a =
     (if (case adHealth a of None \<Rightarrow> False | Some h \<Rightarrow> \<not> MetadataAgeOK now h)
      then Answer \<lparr>rsStatus = 503, rsContentType = '''', rsBody = ''metadata stale'' @ [newline]\<rparr>
      else let panics = (case adMetrics a of None \<Rightarrow> 0 | Some m \<Rightarrow> Panics m)
           in Answer \<lparr>rsStatus = 200, rsContentType = '''', rsBody = ''ok panics='' @ Itoa (sint panics) @ [newline]\<rparr>)"

definition metricsHandler :: "(int64 \<Rightarrow> string) \<Rightarrow> Admin \<Rightarrow> answer" where
  "metricsHandler seconds a =
     (case adMetrics a of
        None \<Rightarrow> NilDereference
      | Some m \<Rightarrow> Answer \<lparr>rsStatus = 200, rsContentType = ''text/plain; version=0.0.4; charset=utf-8'',
                   rsBody = PromText seconds m\<rparr>)"

text \<open>The routing of \<open>http.ServeMux\<close> for clean paths: exact patterns, the subtrees of the patterns that end
  in a slash, and a redirection to the root of a subtree.\<close>

definition serveAdmin :: "(int64 \<Rightarrow> string) \<Rightarrow> int \<Rightarrow> Admin \<Rightarrow> string \<Rightarrow> answer" where
  "serveAdmin seconds now a path =
     (if path = ''/healthz'' then healthzHandler now a
      else if path = ''/metrics'' then metricsHandler seconds a
      else if adEnablePprof a \<and> take 13 path = ''/debug/pprof/'' then PprofHandler
      else if adEnablePprof a \<and> path = ''/debug/pprof'' then MovedTo ''/debug/pprof/''
      else rootHandler a path)"

text \<open>How \<open>Admin.Run\<close> ends: it cannot listen, its context is cancelled, or the server returns.\<close>

datatype adminErr = ErrServerClosed | AdminErr string

datatype adminEvent = AdminCancelled | ServerReturned adminErr

definition Run_admin :: "adminErr option \<Rightarrow> adminEvent \<Rightarrow> adminErr option" where
  "Run_admin listenErr ev =
     (case listenErr of
        Some e \<Rightarrow> Some e
      | None \<Rightarrow>
          (case ev of
             AdminCancelled \<Rightarrow> None
           | ServerReturned e \<Rightarrow> if e = ErrServerClosed then None else Some e))"

section \<open>Wiring\<close>

text \<open>\<open>subStore.SetOnChange\<close>: every reported group is added to the registry.\<close>

definition onChange :: "SyncRegistry \<Rightarrow> string list \<Rightarrow> SyncRegistry" where
  "onChange reg calls = foldl Add_registry reg calls"

text \<open>What the interceptor gets from \<open>Pool.Plan\<close>: a nil map for a computation that panicked.\<close>

definition poolAnswer :: "int64 \<Rightarrow> poolErr + Plan option \<Rightarrow> planErr + Plan \<times> int64" where
  "poolAnswer elapsed res =
     (case res of
        Inl ErrClosed \<Rightarrow> Inl PlanClosed
      | Inl ErrCtx \<Rightarrow> Inl PlanCtx
      | Inr None \<Rightarrow> Inr ([], elapsed)
      | Inr (Some pl) \<Rightarrow> Inr (pl, elapsed))"

section \<open>Serving and shutting down\<close>

text \<open>The end of \<open>run\<close>: serve until a signal or a failed subsystem, close the listening socket, wait for
  \<open>Serve\<close> or the drain deadline, cancel the root context and close the pool, wait for everything.\<close>

datatype mainPhase = Serving | Draining | Forcing | WaitingAll | Returned_main

record Gateway =
  gwServe :: Serve
  gwPool :: Pool
  gwPhase :: mainPhase
  gwListenClosed :: bool
  gwFailed :: bool

definition startGateway :: "ListenerCfg \<Rightarrow> Pool \<Rightarrow> Gateway" where
  "startGateway cfg pool = \<lparr>gwServe = newServe cfg, gwPool = pool, gwPhase = Serving, gwListenClosed = False, gwFailed = False\<rparr>"

text \<open>\<open>Accept\<close> reports a closed socket only when it was closed; the errgroup cancels its context when a
  subsystem fails.\<close>

inductive gateway_step :: "Gateway \<Rightarrow> Gateway \<Rightarrow> bool" where
  serve: "serve_step (gwServe g) s \<Longrightarrow> svCancelled s = svCancelled (gwServe g) \<Longrightarrow>
    svPhase (gwServe g) = Accepting \<and> svPhase s = Stopped None \<longrightarrow> gwListenClosed g \<Longrightarrow>
    gateway_step g (g\<lparr>gwServe := s\<rparr>)"
| fail: "gateway_step g (g\<lparr>gwFailed := True, gwServe := (gwServe g)\<lparr>svCancelled := True\<rparr>\<rparr>)"
| signal: "gwPhase g = Serving \<Longrightarrow> gateway_step g (g\<lparr>gwPhase := Draining, gwListenClosed := True\<rparr>)"
| served: "gwPhase g = Draining \<Longrightarrow> svPhase (gwServe g) = ServeDone res \<Longrightarrow> gateway_step g (g\<lparr>gwPhase := Forcing\<rparr>)"
| timeout: "gwPhase g = Draining \<Longrightarrow> gateway_step g (g\<lparr>gwPhase := Forcing\<rparr>)"
| force: "gwPhase g = Forcing \<Longrightarrow>
    gateway_step g (g\<lparr>gwPhase := WaitingAll, gwServe := (gwServe g)\<lparr>svCancelled := True\<rparr>,
      gwPool := (gwPool g)\<lparr>plClosed := True\<rparr>\<rparr>)"
| finish: "gwPhase g = WaitingAll \<Longrightarrow> svPhase (gwServe g) = ServeDone res \<Longrightarrow> gateway_step g (g\<lparr>gwPhase := Returned_main\<rparr>)"

definition gateway_inv :: "ListenerCfg \<Rightarrow> Gateway \<Rightarrow> bool" where
  "gateway_inv cfg g \<longleftrightarrow>
     loop_inv (gwServe g) \<and> clients_inv (gwServe g) \<and> sem_inv cfg (gwServe g) \<and>
     (svCancelled (gwServe g) \<longrightarrow> gwFailed g \<or> gwPhase g \<in> {WaitingAll, Returned_main}) \<and>
     (gwPhase g \<noteq> Serving \<longrightarrow> gwListenClosed g) \<and>
     (gwPhase g \<in> {WaitingAll, Returned_main} \<longrightarrow> plClosed (gwPool g)) \<and>
     (gwPhase g = Returned_main \<longrightarrow> (\<exists>res. svPhase (gwServe g) = ServeDone res))"

lemma cancelled_serve: "loop_inv s \<and> clients_inv s \<and> sem_inv cfg s \<Longrightarrow>
    loop_inv (s\<lparr>svCancelled := True\<rparr>) \<and> clients_inv (s\<lparr>svCancelled := True\<rparr>) \<and> sem_inv cfg (s\<lparr>svCancelled := True\<rparr>)"
  by (erule serving.inv_step [OF serve_step.cancel])

lemma serve_done_final: "serve_step s s' \<Longrightarrow> svPhase s = ServeDone res \<Longrightarrow> svPhase s' = ServeDone res"
  by (induction rule: serve_step.induct) (auto simp: sem_simps)

interpretation gateway: step_system gateway_step "startGateway cfg pool" "gateway_inv cfg" for cfg pool
proof unfold_locales
  show "gateway_inv cfg (startGateway cfg pool)"
    using serving.inv_init [of cfg] by (simp add: gateway_inv_def startGateway_def newServe_def)
  show "gateway_inv cfg g'" if "gateway_step g g'" "gateway_inv cfg g" for g g'
    using that
  proof (induction rule: gateway_step.induct)
    case (serve g s)
    then have "loop_inv s \<and> clients_inv s \<and> sem_inv cfg s"
      using serving.inv_step by (auto simp: gateway_inv_def)
    with serve serve_done_final [OF serve(1)] show ?case by (auto simp: gateway_inv_def)
  next
    case (fail g)
    then show ?case using cancelled_serve [of "gwServe g" cfg] by (auto simp: gateway_inv_def)
  next
    case (force g)
    then show ?case using cancelled_serve [of "gwServe g" cfg] by (auto simp: gateway_inv_def)
  qed (auto simp: gateway_inv_def)
qed

section \<open>Properties\<close>

text \<open>
  \<open>/healthz\<close> answers 503 exactly when the published metadata snapshot is older than the budget,
  or when none was ever published and the budget is below a year; the budget is the configured
  one, by default three refresh intervals.
\<close>

theorem healthz_reports_staleness:
  "(\<exists>r. serveAdmin seconds now \<lparr>adMetrics = mt, adHealth = Some \<lparr>hcCache = c, hcMaxAge = healthMaxAge cfg\<rparr>,
       adEnablePprof = pp\<rparr> ''/healthz'' = Answer r \<and>
     (rsStatus r = 503 \<or> rsStatus r = 200) \<and>
     (rsStatus r = 503 \<longleftrightarrow>
        (case Get_cache c of
           None \<Rightarrow> healthMaxAge cfg < 365 * 24 * 3600 * 10 ^ 9
         | Some snap \<Rightarrow> now - msBuiltAt snap > (if cfHealthMaxAge cfg > 0 then cfHealthMaxAge cfg else 3 * cfRefresh cfg))))"
  by (simp add: serveAdmin_def healthzHandler_def MetadataAgeOK_def Age_def Get_cache_def healthMaxAge_def
      split: option.split)

text \<open>
  With a refresh interval of zero the cache refreshes every 30 seconds, but the health budget is
  three times zero: every published snapshot is stale a moment later.
\<close>

lemma zero_refresh_never_healthy:
  assumes "cfRefresh cfg = 0" "cfHealthMaxAge cfg = 0" "cCur c = Some snap" "msBuiltAt snap < now"
  shows "cRefresh (NewCache (cfRefresh cfg)) = 30 * 10 ^ 9 \<and>
    \<not> MetadataAgeOK now \<lparr>hcCache = c, hcMaxAge = healthMaxAge cfg\<rparr>"
  using assms by (simp add: NewCache_def MetadataAgeOK_def healthMaxAge_def Age_def)

lemma put_reports:
  assumes "\<And>g m. Get_sub s g m \<noteq> None \<Longrightarrow> g \<in> set (stCalls s)" "stOnChange s"
  shows "Get_sub (snd (Put now s sub)) g m \<noteq> None \<Longrightarrow> g \<in> set (stCalls (snd (Put now s sub)))"
    and "stOnChange (snd (Put now s sub))"
proof -
  show "stOnChange (snd (Put now s sub))"
    using assms(2) by (simp add: Put_def Let_def notifyChange_def)
  have old: "mget (byGroup s) g = Some ms \<Longrightarrow> mget ms m = Some r \<Longrightarrow> g \<in> set (stCalls s)" for g ms m r
    using assms(1) [of g m] by (simp add: Get_sub_def)
  show "g \<in> set (stCalls (snd (Put now s sub)))" if "Get_sub (snd (Put now s sub)) g m \<noteq> None"
    using that assms(2) old
    by (auto simp: Put_def Let_def notifyChange_def Get_sub_def mgetOr_def split: if_splits option.splits)
qed

lemma onChange_groups: "set (Groups_registry (onChange reg calls)) = set (Groups_registry reg) \<union> set calls"
  unfolding onChange_def
  by (induction calls arbitrary: reg) (auto simp: Groups_registry_def Add_registry_def in_mkeys)

text \<open>A group is never dropped from the registry, even when its last member leaves.\<close>

lemma registry_never_shrinks:
  "set (Groups_registry reg) \<subseteq> set (Groups_registry (onChange reg calls))"
  by (simp add: onChange_groups)

text \<open>
  A computation that panics is answered without an error: the interceptor takes the nil plan, and
  rewrites the assignment of every member to an empty one.
\<close>

lemma panic_empties_assignments:
  assumes "APIKey h = APISyncGroup" "dHasPlanner (icDeps ic)" "icSubscription ic = Some st"
    and "DecodeSyncGroupRequest body (APIVersion h) = Inr sg"
    and "inMembers (planInputs ic st sg) \<noteq> []" "inPartitions (planInputs ic st sg) \<noteq> []"
    and "envPlan env (planInputs ic st sg) = poolAnswer elapsed (Inr (rpPlan (runOne (\<lambda>_. None) r)))"
  shows "\<exists>p. fst (OnRequest env h body ic) = Some p \<and>
    pRewriteRequest p = Some (AppendSyncGroupRequest [] (plannedRequest env sg [])) \<and>
    (\<forall>a \<in> set (sgAssignments (plannedRequest env sg [])). saMemberAssignment a = encodeAssignment env [])"
proof -
  have "envPlan env (planInputs ic st sg) = Inr ([], elapsed)"
    using assms(7) by (simp add: poolAnswer_def runOne_def)
  from OnRequest_syncgroup [OF assms(1-6) this] show ?thesis
    by (auto simp: newPending_def plannedRequest_def)
qed

end
