(* ===== verification/DemoClients.thy ===== *)
theory DemoClients
  imports Gateway
begin

text \<open>
  The demonstration clients under \<open>example\<close>: \<open>consumer\<close>, \<open>producer\<close> and \<open>probe\<close>.  They run on the
  franz-go client library, which is not part of the sources: what it returns from a poll, a commit or
  a delivery is an argument of the step that receives it.  Each program is a step relation over its
  goroutines; a log line is its message without the time stamp.
\<close>

section \<open>Lists of brokers\<close>

text \<open>The loop of \<open>splitCSV\<close>, which both programs have: the runes of the string, the parts so far and the
  current part.\<close>

definition csvRune :: "string list \<times> string \<Rightarrow> int \<Rightarrow> string list \<times> string" where
  "csvRune st c =
     (let (out, cur) = st in
      if c = of_char (CHR '','') then (if cur \<noteq> '''' then (out @ [cur], '''') else (out, cur))
      else (out, cur @ encodeRune c))"

definition splitCSV :: "string \<Rightarrow> string list" where
  "splitCSV s = (let (out, cur) = foldl csvRune ([], '''') (runes s) in if cur \<noteq> '''' then out @ [cur] else out)"

section \<open>Log lines\<close>

fun joinWith :: "string \<Rightarrow> string list \<Rightarrow> string" where
  "joinWith sep [] = ''''"
| "joinWith sep [x] = x"
| "joinWith sep (x # y # xs) = x @ sep @ joinWith sep (y # xs)"

text \<open>The verb \<open>%v\<close> on a slice.\<close>

definition fmtSlice :: "string list \<Rightarrow> string" where
  "fmtSlice xs = ''['' @ joinWith '' '' xs @ '']''"

text \<open>The entries of the map come in the order of the iteration.\<close>

definition fmtParts :: "(string \<times> int32 list) list \<Rightarrow> string" where
  "fmtParts m =
     (if m = [] then ''<none>''
      else concat (map (\<lambda>(t, ps). t @ ''='' @ fmtSlice (map (\<lambda>p. Itoa (sint p)) (sort_key sint ps)) @ '' '') m))"

definition tagged :: "string \<Rightarrow> string \<Rightarrow> string" where
  "tagged cid msg = ''['' @ cid @ ''] '' @ msg"

definition deltaSign :: string where "deltaSign = byteStr [0xCE, 0x94]"

definition dash :: string where "dash = byteStr [0xE2, 0x80, 0x94]"

section \<open>The consumer\<close>

record ConsumerFlags =
  cfBrokers :: string
  cfTopic :: string
  cfGroup :: string
  cfConsumerID :: string
  cfInstance :: string
  cfSlow :: int
  cfCrashAfter :: int
  cfCommitEvery :: int

definition consumerDefaults :: ConsumerFlags where
  "consumerDefaults = \<lparr>cfBrokers = ''localhost:19094'', cfTopic = ''event-tracking_track-events-approved'',
     cfGroup = ''demo-group'', cfConsumerID = '''', cfInstance = '''', cfSlow = 0, cfCrashAfter = 0,
     cfCommitEvery = 5 * oneSecond\<rparr>"

definition resolveID :: "int \<Rightarrow> ConsumerFlags \<Rightarrow> ConsumerFlags" where
  "resolveID pid f = (if cfConsumerID f = '''' then f\<lparr>cfConsumerID := ''demo-consumer-'' @ Itoa pid\<rparr> else f)"

datatype kgoOpt =
    SeedBrokers "string list"
  | KgoClientID string
  | ConsumerGroup string
  | ConsumeTopics string
  | CooperativeStickyBalancer
  | AutoCommitInterval int
  | SessionTimeout int
  | RebalanceTimeout int
  | OnPartitionsAssigned "(string \<times> int32 list) list \<Rightarrow> string"
  | OnPartitionsRevoked "(string \<times> int32 list) list \<Rightarrow> string"
  | OnPartitionsLost "(string \<times> int32 list) list \<Rightarrow> string"
  | InstanceID string
  | DefaultProduceTopic string
  | AllowAutoTopicCreation
  | DebugLogger

definition consumerOpts :: "ConsumerFlags \<Rightarrow> kgoOpt list" where
  "consumerOpts f =
     [SeedBrokers (splitCSV (cfBrokers f)), KgoClientID (cfConsumerID f), ConsumerGroup (cfGroup f),
      ConsumeTopics (cfTopic f), CooperativeStickyBalancer, AutoCommitInterval (cfCommitEvery f),
      SessionTimeout (15 * oneSecond), RebalanceTimeout (30 * oneSecond),
      OnPartitionsAssigned (\<lambda>m. tagged (cfConsumerID f) (''assigned: '' @ fmtParts m)),
      OnPartitionsRevoked (\<lambda>m. tagged (cfConsumerID f) (''revoked:  '' @ fmtParts m)),
      OnPartitionsLost (\<lambda>m. tagged (cfConsumerID f) (''LOST:     '' @ fmtParts m))] @
     (if cfInstance f \<noteq> '''' then [InstanceID (cfInstance f)] else [])"

text \<open>Without a client a program exits; this holds for the producer as well.\<close>

definition afterClient :: "string option \<Rightarrow> 's \<Rightarrow> nat + 's" where
  "afterClient err start = (case err of Some _ \<Rightarrow> Inl 1 | None \<Rightarrow> Inr start)"

text \<open>Where the main loop is: before the check of the context, in a poll, in the callback for the records
  of a poll, or past its end; a crash ends the process.\<close>

datatype loopPhase = AtCheck | InPoll | InRecords nat | Left | Crashed

record Consumer =
  cnPhase :: loopPhase
  cnCancelled :: bool
  cnSignalled :: bool
  cnReporting :: bool
  cnProcessed :: int64
  cnPrev :: int64
  cnSlept :: int
  cnCommits :: nat
  cnLog :: "string list"

definition startConsumer :: Consumer where
  "startConsumer = \<lparr>cnPhase = AtCheck, cnCancelled = False, cnSignalled = False, cnReporting = True, cnProcessed = 0,
     cnPrev = 0, cnSlept = 0, cnCommits = 0, cnLog = []\<rparr>"

definition say :: "string \<Rightarrow> string \<Rightarrow> Consumer \<Rightarrow> Consumer" where
  "say cid msg c = c\<lparr>cnLog := cnLog c @ [tagged cid msg]\<rparr>"

definition onSignal :: "string \<Rightarrow> Consumer \<Rightarrow> Consumer" where
  "onSignal cid c = (say cid (''signal '' @ dash @ '' leaving group cleanly'') c)\<lparr>cnSignalled := True, cnCancelled := True\<rparr>"

definition crash :: "string \<Rightarrow> Consumer \<Rightarrow> Consumer" where
  "crash cid c = (say cid (''CRASH '' @ dash @ '' exiting without commit'') c)\<lparr>cnPhase := Crashed\<rparr>"

definition reportTick :: "string \<Rightarrow> Consumer \<Rightarrow> Consumer" where
  "reportTick cid c =
     (let cur = cnProcessed c
      in (say cid (''processed='' @ Itoa (sint cur) @ '' '' @ deltaSign @ ''='' @ Itoa (sint (cur - cnPrev c))) c)\<lparr>cnPrev := cur\<rparr>)"

definition leaveGroup :: "string \<Rightarrow> string option \<Rightarrow> Consumer \<Rightarrow> Consumer" where
  "leaveGroup cid commitErr c =
     (let c = (say cid (''shutdown '' @ dash @ '' committing'') c)\<lparr>cnCommits := cnCommits c + 1\<rparr>;
          c = (case commitErr of None \<Rightarrow> c | Some e \<Rightarrow> say cid (''final commit err: '' @ e) c)
      in c\<lparr>cnPhase := Left\<rparr>)"

definition logPollErr :: "string \<Rightarrow> Consumer \<Rightarrow> string \<times> int32 \<times> string \<Rightarrow> Consumer" where
  "logPollErr cid c e =
     (case e of (topic, part, err) \<Rightarrow>
        if \<not> cnCancelled c
        then say cid (''poll err t='' @ topic @ '' p='' @ Itoa (sint part) @ '': '' @ err) c
        else c)"

definition fetched :: "string \<Rightarrow> (string \<times> int32 \<times> string) list \<Rightarrow> nat \<Rightarrow> Consumer \<Rightarrow> Consumer" where
  "fetched cid errs n c = (foldl (logPollErr cid) c errs)\<lparr>cnPhase := InRecords n\<rparr>"

definition handleRecord :: "int \<Rightarrow> nat \<Rightarrow> Consumer \<Rightarrow> Consumer" where
  "handleRecord slow n c =
     c\<lparr>cnProcessed := cnProcessed c + 1, cnSlept := (if slow > 0 then cnSlept c + slow else cnSlept c), cnPhase := InRecords n\<rparr>"

inductive consumer_step :: "ConsumerFlags \<Rightarrow> Consumer \<Rightarrow> Consumer \<Rightarrow> bool" for f where
  signal: "cnPhase c \<notin> {Left, Crashed} \<Longrightarrow> \<not> cnSignalled c \<Longrightarrow> consumer_step f c (onSignal (cfConsumerID f) c)"
| crash: "cnPhase c \<notin> {Left, Crashed} \<Longrightarrow> cfCrashAfter f > 0 \<Longrightarrow> consumer_step f c (crash (cfConsumerID f) c)"
| report: "cnPhase c \<notin> {Left, Crashed} \<Longrightarrow> cnReporting c \<Longrightarrow> consumer_step f c (reportTick (cfConsumerID f) c)"
| report_end: "cnPhase c \<notin> {Left, Crashed} \<Longrightarrow> cnCancelled c \<Longrightarrow> consumer_step f c (c\<lparr>cnReporting := False\<rparr>)"
| leave: "cnPhase c = AtCheck \<Longrightarrow> cnCancelled c \<Longrightarrow> consumer_step f c (leaveGroup (cfConsumerID f) commitErr c)"
| poll: "cnPhase c = AtCheck \<Longrightarrow> \<not> cnCancelled c \<Longrightarrow> consumer_step f c (c\<lparr>cnPhase := InPoll\<rparr>)"
| fetched: "cnPhase c = InPoll \<Longrightarrow> consumer_step f c (fetched (cfConsumerID f) errs n c)"
| handle: "cnPhase c = InRecords (Suc n) \<Longrightarrow> consumer_step f c (handleRecord (cfSlow f) n c)"
| next_poll: "cnPhase c = InRecords 0 \<Longrightarrow> consumer_step f c (c\<lparr>cnPhase := AtCheck\<rparr>)"

section \<open>The producer\<close>

record ProducerFlags =
  pfBrokers :: string
  pfTopic :: string
  pfRate :: int
  pfProducerID :: string
  pfKeySpace :: int

definition producerDefaults :: ProducerFlags where
  "producerDefaults = \<lparr>pfBrokers = ''localhost:19094'', pfTopic = ''event-tracking_track-events-approved'', pfRate = 100,
     pfProducerID = ''demo-producer'', pfKeySpace = 1000\<rparr>"

definition producerOpts :: "ProducerFlags \<Rightarrow> kgoOpt list" where
  "producerOpts f = [SeedBrokers (splitCSV (pfBrokers f)), KgoClientID (pfProducerID f), DefaultProduceTopic (pfTopic f),
     AllowAutoTopicCreation]"

definition produceInterval :: "int \<Rightarrow> int" where
  "produceInterval rate = oneSecond div max 1 rate"

datatype producerPhase = Producing | Flushing | Finished | Panicked

record Producer =
  prPhase :: producerPhase
  prCancelled :: bool
  prReporting :: bool
  prSent :: int64
  prPrev :: int64
  prProduced :: "(string \<times> string) list"
  prUnacked :: nat
  prLog :: "string list"

text \<open>\<open>time.NewTicker\<close> panics on an interval that is not positive.\<close>

definition startProducer :: "ProducerFlags \<Rightarrow> Producer" where
  "startProducer f =
     \<lparr>prPhase = (if produceInterval (pfRate f) \<le> 0 then Panicked else Producing), prCancelled = False,
      prReporting = True, prSent = 0, prPrev = 0, prProduced = [], prUnacked = 0, prLog = []\<rparr>"

text \<open>One event: \<open>rand.IntN\<close> panics on a key space that is not positive and otherwise draws a key below it.\<close>

definition produce :: "ProducerFlags \<Rightarrow> int \<Rightarrow> int \<Rightarrow> int64 \<Rightarrow> Producer \<Rightarrow> Producer" where
  "produce f draw now rnd p =
     (if pfKeySpace f \<le> 0 then p\<lparr>prPhase := Panicked\<rparr>
      else let k = Itoa (draw mod pfKeySpace f);
               v = ''evt@'' @ Itoa now @ '' k='' @ k @ '' rnd='' @ Itoa (sint rnd)
           in p\<lparr>prProduced := prProduced p @ [(k, v)], prUnacked := prUnacked p + 1\<rparr>)"

definition delivered :: "string option \<Rightarrow> Producer \<Rightarrow> Producer" where
  "delivered err p =
     (let p = p\<lparr>prUnacked := prUnacked p - 1\<rparr> in
      case err of
        Some e \<Rightarrow> if \<not> prCancelled p then p\<lparr>prLog := prLog p @ [''produce err: '' @ e]\<rparr> else p
      | None \<Rightarrow> p\<lparr>prSent := prSent p + 1\<rparr>)"

definition producerReport :: "Producer \<Rightarrow> Producer" where
  "producerReport p =
     (let cur = prSent p
      in p\<lparr>prLog := prLog p @ [''produced='' @ Itoa (sint cur) @ '' '' @ deltaSign @ ''='' @ Itoa (sint (cur - prPrev p))], prPrev := cur\<rparr>)"

definition flushing :: "Producer \<Rightarrow> Producer" where
  "flushing p = p\<lparr>prLog := prLog p @ [''flushing... produced='' @ Itoa (sint (prSent p))], prPhase := Flushing\<rparr>"

text \<open>\<open>Flush\<close> returns when every record has been delivered or has failed.\<close>

inductive producer_step :: "ProducerFlags \<Rightarrow> Producer \<Rightarrow> Producer \<Rightarrow> bool" for f where
  signal: "prPhase p \<in> {Producing, Flushing} \<Longrightarrow> producer_step f p (p\<lparr>prCancelled := True\<rparr>)"
| report: "prPhase p \<in> {Producing, Flushing} \<Longrightarrow> prReporting p \<Longrightarrow> producer_step f p (producerReport p)"
| report_end: "prPhase p \<in> {Producing, Flushing} \<Longrightarrow> prCancelled p \<Longrightarrow> producer_step f p (p\<lparr>prReporting := False\<rparr>)"
| tick: "prPhase p = Producing \<Longrightarrow> 0 \<le> draw \<Longrightarrow> producer_step f p (produce f draw now rnd p)"
| ack: "prPhase p \<in> {Producing, Flushing} \<Longrightarrow> prUnacked p > 0 \<Longrightarrow> producer_step f p (delivered err p)"
| flush: "prPhase p = Producing \<Longrightarrow> prCancelled p \<Longrightarrow> producer_step f p (flushing p)"
| flushed: "prPhase p = Flushing \<Longrightarrow> prUnacked p = 0 \<Longrightarrow> producer_step f p (p\<lparr>prPhase := Finished\<rparr>)"

section \<open>The probe\<close>

text \<open>\<open>example/probe/main.go\<close>: one synchronous record; without an argument or without a client it panics.\<close>

definition probeOpts :: "string \<Rightarrow> kgoOpt list" where
  "probeOpts bs = [SeedBrokers [bs], DebugLogger, DefaultProduceTopic ''event-tracking_track-events-approved'']"

definition probeLine :: "string + int32 \<times> int64 \<Rightarrow> string" where
  "probeLine r =
     (case r of
        Inl err \<Rightarrow> ''ERR '' @ err
      | Inr (part, pos) \<Rightarrow> ''OK '' @ Itoa (sint part) @ '' '' @ Itoa (sint pos))"

definition probe ::
  "string list \<Rightarrow> (kgoOpt list \<Rightarrow> string option) \<Rightarrow> (string \<Rightarrow> (string + int32 \<times> int64) list) \<Rightarrow> string list option" where
  "probe args newClient produceSync =
     (if length args < 2 then None
      else case newClient (probeOpts (args ! 1)) of
             Some _ \<Rightarrow> None
           | None \<Rightarrow> Some (map probeLine (produceSync ''hello'')))"

section \<open>Splitting at commas\<close>

lemma high_bytes: "\<forall>n\<in>set ns. 128 \<le> n \<and> n < 256 \<Longrightarrow> CHR '','' \<notin> set (byteStr ns)"
proof
  assume ns: "\<forall>n\<in>set ns. 128 \<le> n \<and> n < 256" and "CHR '','' \<in> set (byteStr ns)"
  then obtain n where n: "n \<in> set ns" "char_of n = CHR '',''" by (auto simp: byteStr_def)
  then have "of_char (char_of n) = (44 :: int)" by simp
  then have "n mod 256 = 44" by simp
  then show False using ns n(1) by auto
qed

lemma encodeRune_comma: "encodeRune 44 = '',''"
  by code_simp

lemma csvRune_simps:
  "csvRune (out, cur) 44 = (if cur \<noteq> '''' then (out @ [cur], '''') else (out, cur))"
  "c \<noteq> 44 \<Longrightarrow> csvRune (out, cur) c = (out, cur @ encodeRune c)"
  by (simp_all add: csvRune_def)

lemma encodeRune_no_comma:
  assumes "c \<noteq> 44"
  shows "CHR '','' \<notin> set (encodeRune c)"
proof (cases "0 \<le> c \<and> c \<le> 0x7F")
  case True
  have "char_of c \<noteq> CHR '',''"
  proof
    assume "char_of c = CHR '',''"
    then have "of_char (char_of c) = (44 :: int)" by simp
    then show False using True assms by simp
  qed
  then show ?thesis using True by (simp add: encodeRune_def byteStr_def)
next
  case False
  then show ?thesis unfolding encodeRune_def by (auto intro!: high_bytes)
qed

text \<open>The loop against the split of the text it has still to read.\<close>

lemma csv_loop:
  "CHR '','' \<notin> set cur \<Longrightarrow> foldl csvRune (out, cur) rs = (out', cur') \<Longrightarrow>
   out' @ (if cur' \<noteq> '''' then [cur'] else []) =
   out @ filter (\<lambda>f. f \<noteq> '''') (SplitByte (CHR '','') (cur @ concat (map encodeRune rs)))"
proof (induction rs arbitrary: out cur)
  case (Cons c rs)
  show ?case
  proof (cases "c = 44")
    case True
    then show ?thesis using Cons.prems Cons.IH [of "''''" "if cur \<noteq> '''' then out @ [cur] else out"]
      by (simp add: csvRune_simps encodeRune_comma SplitByte_append del: if_split split: if_split_asm)
  next
    case False
    then show ?thesis using Cons.prems Cons.IH [of "cur @ encodeRune c" out] encodeRune_no_comma [OF False]
      by (simp add: csvRune_simps)
  qed
qed (simp add: SplitByte_none)

text \<open>
  C40: \<open>splitCSV\<close>, which reads the list of bootstrap servers, returns the non-empty fields between the
  commas, in their order: of the string itself when it is valid UTF-8, and of the string with every
  invalid byte replaced otherwise.
\<close>

theorem splitCSV_fields:
  "splitCSV s = filter (\<lambda>f. f \<noteq> '''') (SplitByte (CHR '','') (concat (map encodeRune (runes s)))) \<and>
   (validUTF8 s \<longrightarrow> splitCSV s = filter (\<lambda>f. f \<noteq> '''') (SplitByte (CHR '','') s))"
proof -
  obtain out cur where "foldl csvRune ([], '''') (runes s) = (out, cur)" by fastforce
  from csv_loop [OF _ this] this
  have "splitCSV s = filter (\<lambda>f. f \<noteq> '''') (SplitByte (CHR '','') (concat (map encodeRune (runes s))))"
    by (auto simp: splitCSV_def split: if_splits)
  then show ?thesis by (simp add: encode_runes)
qed

theorem splitCSV_fields_witness:
  "splitCSV '',a:1,,b:2,'' = [''a:1'', ''b:2'']"
proof -
  have "validUTF8 '',a:1,,b:2,''" by code_simp
  moreover have "filter (\<lambda>f. f \<noteq> '''') (SplitByte (CHR '','') '',a:1,,b:2,'') = [''a:1'', ''b:2'']" by simp
  ultimately show ?thesis using splitCSV_fields [of "'',a:1,,b:2,''"] by metis
qed

section \<open>Leaving\<close>

text \<open>A consumer that returns was cancelled and has tried to commit, once; one that crashed has not.\<close>

definition consumerInv :: "Consumer \<Rightarrow> bool" where
  "consumerInv c \<longleftrightarrow> (cnPhase c = Left \<longrightarrow> cnCancelled c) \<and> cnCommits c = of_bool (cnPhase c = Left)"

lemma say_simps [simp]:
  "cnPhase (say cid m c) = cnPhase c" "cnCancelled (say cid m c) = cnCancelled c" "cnCommits (say cid m c) = cnCommits c"
  by (simp_all add: say_def)

lemma fetched_simps [simp]:
  "cnCancelled (fetched cid errs n c) = cnCancelled c" "cnCommits (fetched cid errs n c) = cnCommits c"
  "cnPhase (fetched cid errs n c) = InRecords n"
proof -
  have "cnCancelled (foldl (logPollErr cid) c errs) = cnCancelled c \<and> cnCommits (foldl (logPollErr cid) c errs) = cnCommits c"
    by (induction errs arbitrary: c) (auto simp: logPollErr_def split: prod.splits)
  then show "cnCancelled (fetched cid errs n c) = cnCancelled c" "cnCommits (fetched cid errs n c) = cnCommits c"
      "cnPhase (fetched cid errs n c) = InRecords n"
    by (simp_all add: fetched_def)
qed

interpretation consuming: step_system "consumer_step f" startConsumer consumerInv for f
proof unfold_locales
  show "consumerInv startConsumer" by (simp add: consumerInv_def startConsumer_def)
  show "consumerInv c'" if "consumer_step f c c'" "consumerInv c" for c c'
    using that by (cases rule: consumer_step.cases)
      (auto simp: consumerInv_def onSignal_def crash_def reportTick_def leaveGroup_def handleRecord_def Let_def split: option.splits)
qed

lemma consumer_commits:
  "(consumer_step f)\<^sup>*\<^sup>* startConsumer c \<Longrightarrow> cnPhase c = Left \<Longrightarrow> cnCancelled c \<and> cnCommits c = 1"
  "(consumer_step f)\<^sup>*\<^sup>* startConsumer c \<Longrightarrow> cnPhase c = Crashed \<Longrightarrow> cnCommits c = 0"
  using consuming.reachable [of f c] by (simp_all add: consumerInv_def)

text \<open>Every produced record is sent, failed or still on its way; none is when the producer returns.\<close>

definition producerInv :: "Producer \<Rightarrow> bool" where
  "producerInv p \<longleftrightarrow> (prPhase p = Finished \<longrightarrow> prUnacked p = 0) \<and> prUnacked p \<le> length (prProduced p) \<and>
     (\<exists>failed. of_nat (length (prProduced p)) = prSent p + of_nat (prUnacked p) + of_nat failed)"

lemma producerInv_delivered:
  assumes "producerInv p" "prPhase p \<in> {Producing, Flushing}" "prUnacked p > 0"
  shows "producerInv (delivered err p)"
proof -
  obtain u failed where u: "prUnacked p = Suc u"
      "of_nat (length (prProduced p)) = prSent p + of_nat (prUnacked p) + of_nat failed"
    using assms by (cases "prUnacked p") (auto simp: producerInv_def)
  have sum: "\<exists>k. of_nat (length (prProduced p)) = sent + of_nat u + of_nat k" if "sent = prSent p \<or> sent = prSent p + 1" for sent
    using that u by (elim disjE) (rule exI [of _ "Suc failed"], simp, rule exI [of _ failed], simp)
  show ?thesis using assms u(1) sum
    by (auto simp: producerInv_def delivered_def Let_def split: option.splits)
qed

interpretation producing: step_system "producer_step f" "startProducer f" producerInv for f
proof unfold_locales
  show "producerInv (startProducer f)" by (auto simp: producerInv_def startProducer_def intro: exI [of _ 0])
  show "producerInv p'" if "producer_step f p p'" "producerInv p" for p p'
    using that by (cases rule: producer_step.cases)
      (auto simp: producerInv_delivered, auto simp: producerInv_def produce_def producerReport_def flushing_def Let_def algebra_simps)
qed

text \<open>The producer panics at its start when asked for more than one event in a nanosecond.\<close>

lemma producer_rate_panics: "prPhase (startProducer f) = Panicked \<longleftrightarrow> pfRate f > oneSecond"
proof -
  have "produceInterval (pfRate f) \<le> 0 \<longleftrightarrow> oneSecond < max 1 (pfRate f)"
    using pos_imp_zdiv_pos_iff [of "max 1 (pfRate f)" oneSecond] by (simp add: produceInterval_def oneSecond_def not_less [symmetric])
  then show ?thesis by (auto simp: startProducer_def oneSecond_def)
qed

end
