(* ===== verification/System.thy ===== *)
theory System
  imports Gateway
begin

text \<open>
  The running gateway: everything that \<open>run\<close> of \<open>cmd/kproxy/main.go\<close> wires together.  The connections
  of all clients share one interceptor, whose handlers read the snapshots that the metadata cache and
  the telemetry poller publish and ask the planner pool; both pollers share one side-channel client,
  and everything counts into one record of metrics.

  \<open>boot\<close> is the part of \<open>run\<close> up to the start of the subsystems, with its error returns;
  \<open>system_step\<close> interleaves the accept loop and the shutdown sequence, the pumps of every connection, the
  planner pool, the refreshes of the cache, the polls and the gauge ticker.
\<close>

section \<open>State\<close>

text \<open>
  The goroutine of a client in \<open>svRunning\<close> has not yet called \<open>OnConnStart\<close> while it is in neither of the
  two maps; its connection is in \<open>syConns\<close> between \<open>OnConnStart\<close> and \<open>OnConnEnd\<close>; what \<open>Run\<close> returned is in
  \<open>syFinished\<close> until the goroutine has given back its slot and ended.
\<close>

record System =
  syGw :: Gateway
  syIc :: Interceptor
  syConns :: "nat \<rightharpoonup> (Interceptor, RewriteFn) Run"
  syFinished :: "nat \<rightharpoonup> connErr option"
  syCache :: Cache
  syHolder :: Holder
  sySide :: KConn
  syConnCfg :: Config

section \<open>Starting\<close>

datatype bootErr =
    BrokerRequired
  | TopologyFailed topoLoadErr
  | DialFailed ioerr
  | ListenFailed ioerr

text \<open>What the operating system answers: the topology file, the dialled connection, the listening
  socket, and the number of processors.\<close>

record BootEnv =
  beLoad :: "string \<Rightarrow> loadErr + Mapping"
  beDial :: "string \<Rightarrow> int \<Rightarrow> ioerr + instream \<times> outstream"
  beListen :: "string \<Rightarrow> ioerr option"
  beProcs :: int

definition Dial :: "BootEnv \<Rightarrow> string \<Rightarrow> string \<Rightarrow> int \<Rightarrow> ioerr + KConn" where
  "Dial be addr clientID dialTimeout =
     (case beDial be addr dialTimeout of Inl e \<Rightarrow> Inl e | Inr c \<Rightarrow> Inr (NewKConn c clientID))"

definition wireStore :: "config \<Rightarrow> Store" where
  "wireStore cfg = SetOnChange (NewStore (cfSubMax cfg)) True"

definition wireInterceptor :: "config \<Rightarrow> Mapping \<Rightarrow> Interceptor" where
  "wireInterceptor cfg topo =
     NewInterceptor \<lparr>dTopology = Some topo, dMetadata = Some None, dTelemetry = Some None, dHasPlanner = True,
       dPlanTimeout = cfPlanTimeout cfg\<rparr> (Some (wireStore cfg)) (Some NewMetrics)"

definition connConfig :: "config \<Rightarrow> Config" where
  "connConfig cfg = \<lparr>cfgMaxFrameSize = cfFrameMax cfg, cfgIdleTimeout = cfIdleTimeout cfg, cfgMaxInflight = 0,
     cfgPendingMaxAge = 0, cfgFrames = Some NewMetrics\<rparr>"

definition listenerConfig :: "config \<Rightarrow> ListenerCfg" where
  "listenerConfig cfg = \<lparr>liMaxConcurrent = cfConnLimit cfg, liAcceptTimeout = cfDialTimeout cfg, liOnAcceptError = True\<rparr>"

definition startSystem :: "int \<Rightarrow> config \<Rightarrow> Mapping \<Rightarrow> KConn \<Rightarrow> System" where
  "startSystem procs cfg topo side =
     \<lparr>syGw = startGateway (listenerConfig cfg) (New procs (cfPlannerWorker cfg) (cfPlannerQueue cfg)),
      syIc = wireInterceptor cfg topo, syConns = Map.empty, syFinished = Map.empty, syCache = NewCache (cfRefresh cfg),
      syHolder = \<lparr>hCur = None\<rparr>, sySide = side, syConnCfg = connConfig cfg\<rparr>"

definition boot :: "BootEnv \<Rightarrow> config \<Rightarrow> bootErr + System" where
  "boot be cfg0 =
     (case checkConfig cfg0 of
        None \<Rightarrow> Inl BrokerRequired
      | Some cfg \<Rightarrow>
          (case chooseTopology (beLoad be) cfg of
             Inl e \<Rightarrow> Inl (TopologyFailed e)
           | Inr topo \<Rightarrow>
               (case Dial be (cfBootstrap cfg) (cfClientID cfg) (cfDialTimeout cfg) of
                  Inl e \<Rightarrow> Inl (DialFailed e)
                | Inr side \<Rightarrow>
                    (case beListen be (cfListen cfg) of
                       Some e \<Rightarrow> Inl (ListenFailed e)
                     | None \<Rightarrow> Inr (startSystem (beProcs be) cfg topo side)))))"

section \<open>Shared objects\<close>

text \<open>The interceptor as a handler finds it: its pointers to the cache and to the holder followed.\<close>

definition liveIc :: "System \<Rightarrow> Interceptor" where
  "liveIc s = (syIc s)\<lparr>icDeps := (icDeps (syIc s))\<lparr>dMetadata := Some (Get_cache (syCache s)),
     dTelemetry := Some (Get_holder (syHolder s))\<rparr>\<rparr>"

text \<open>A connection counts its frames in the metrics that the interceptor counts in as well.\<close>

definition liveRun :: "System \<Rightarrow> (Interceptor, RewriteFn) Run \<Rightarrow> (Interceptor, RewriteFn) Run" where
  "liveRun s r = r\<lparr>rnIc := liveIc s, rnConn := (rnConn r)\<lparr>coFrames := icMetrics (syIc s)\<rparr>\<rparr>"

definition withFrames :: "Metrics option \<Rightarrow> Metrics option \<Rightarrow> Metrics option" where
  "withFrames frames mx =
     (case (frames, mx) of
        (Some f, Some m) \<Rightarrow> Some (m\<lparr>FramesClientToBroker := FramesClientToBroker f,
          FramesBrokerToClient := FramesBrokerToClient f, TrackerDropped := TrackerDropped f\<rparr>)
      | _ \<Rightarrow> mx)"

definition storeRun :: "nat \<Rightarrow> (Interceptor, RewriteFn) Run \<Rightarrow> System \<Rightarrow> System" where
  "storeRun cl r s = s\<lparr>syConns := (syConns s)(cl \<mapsto> r),
     syIc := (rnIc r)\<lparr>icMetrics := withFrames (coFrames (rnConn r)) (icMetrics (rnIc r))\<rparr>\<rparr>"

definition countInto :: "(Metrics \<Rightarrow> Metrics) \<Rightarrow> System \<Rightarrow> System" where
  "countInto f s = s\<lparr>syIc := onMetrics f (syIc s)\<rparr>"

text \<open>The groups that the poller asks for: those reported by the store.\<close>

definition polledGroups :: "System \<Rightarrow> string list" where
  "polledGroups s =
     (case icSubscription (syIc s) of
        None \<Rightarrow> []
      | Some st \<Rightarrow> Groups_registry (onChange NewSyncRegistry (stCalls st)))"

text \<open>The admin server of the gateway, unless its address is empty.\<close>

definition systemAdmin :: "config \<Rightarrow> System \<Rightarrow> Admin option" where
  "systemAdmin cfg s =
     (if cfAdmin cfg = '''' then None
      else Some \<lparr>adMetrics = icMetrics (syIc s), adHealth = Some \<lparr>hcCache = syCache s, hcMaxAge = healthMaxAge cfg\<rparr>,
        adEnablePprof = cfEnablePprof cfg\<rparr>)"

text \<open>What a handler gets from the pool: the answer to a call with its inputs, or its own timeout.\<close>

definition poolEnv :: "Pool \<Rightarrow> Env \<Rightarrow> bool" where
  "poolEnv p env \<longleftrightarrow>
     (\<forall>inp. envPlan env inp = Inl PlanCtx \<or>
        (\<exists>c res d. plCaller p c = Returned inp res \<and> envPlan env inp = poolAnswer d res)) \<and>
     (\<forall>m. mset (envRange env m) = mset m)"

section \<open>Steps\<close>

definition fetchDone :: "nat \<Rightarrow> nat \<Rightarrow> fetchResult \<Rightarrow> Cache \<Rightarrow> Cache" where
  "fetchDone t k res c = c\<lparr>cFlight := None, cPhase := (cPhase c)(t := Fetched k res)\<rparr>"

text \<open>The return of \<open>OnError\<close>, to the goroutine of \<open>Run\<close>.\<close>

definition errorReported :: "nat \<Rightarrow> Cache \<Rightarrow> Cache" where
  "errorReported t c = c\<lparr>cPhase := (cPhase c)(t := Idle)\<rparr>"

text \<open>A step of the cache alone: no fetch returns, and \<open>OnError\<close> does not.\<close>

definition cacheOnly :: "Cache \<Rightarrow> Cache \<Rightarrow> bool" where
  "cacheOnly c c' \<longleftrightarrow> (\<forall>t k. cPhase c t = Fetching k \<longrightarrow> cPhase c' t = Fetching k) \<and>
     (\<forall>t e. cPhase c t = Reporting e \<longrightarrow> cPhase c' t = Reporting e)"

definition connStarted :: "Metrics \<Rightarrow> Metrics" where
  "connStarted m = m\<lparr>ConnActive := ConnActive m + 1\<rparr>"

definition connEnded :: "Metrics \<Rightarrow> Metrics" where
  "connEnded m = m\<lparr>ConnActive := ConnActive m - 1\<rparr>"

definition refreshFailed :: "Metrics \<Rightarrow> Metrics" where
  "refreshFailed m = m\<lparr>MetadataRefreshErrors := MetadataRefreshErrors m + 1\<rparr>"

inductive system_step :: "(Inputs \<Rightarrow> Plan option) \<Rightarrow> System \<Rightarrow> System \<Rightarrow> bool" for compute where
  gateway: "gateway_step (syGw s) g \<Longrightarrow> svRunning (gwServe (syGw s)) \<subseteq> svRunning (gwServe g) \<Longrightarrow>
    system_step compute s (s\<lparr>syGw := g\<rparr>)"
| conn_start: "cl \<in> svRunning (gwServe (syGw s)) \<Longrightarrow> syConns s cl = None \<Longrightarrow> syFinished s cl = None \<Longrightarrow>
    system_step compute s (countInto connStarted
      (s\<lparr>syConns := (syConns s)(cl \<mapsto> startRun (NewConn (syConnCfg s) client broker b1 b2) (syIc s))\<rparr>))"
| conn_end: "syConns s cl = Some r \<Longrightarrow> returned r \<Longrightarrow>
    system_step compute s (countInto connEnded
      (s\<lparr>syConns := (syConns s)(cl := None), syFinished := (syFinished s)(cl \<mapsto> rnCloseErr r)\<rparr>))"
| stop: "gateway_step (syGw s) g \<Longrightarrow> svRunning (gwServe g) = svRunning (gwServe (syGw s)) - {cl} \<Longrightarrow>
    syFinished s cl = Some err \<Longrightarrow> svErrors (gwServe g) = svErrors (gwServe (syGw s)) + of_bool (err \<noteq> None) \<Longrightarrow>
    system_step compute s (s\<lparr>syGw := g, syFinished := (syFinished s)(cl := None)\<rparr>)"
| conn: "syConns s cl = Some r \<Longrightarrow> poolEnv (gwPool (syGw s)) env \<Longrightarrow>
    run_step (\<lambda>n. productionHooks env) (liveRun s r) r' \<Longrightarrow>
    rnCtxDone r' \<longrightarrow> rnCtxDone r \<or> svCancelled (gwServe (syGw s)) \<Longrightarrow>
    system_step compute s (storeRun cl r' s)"
| pool: "planner_step compute (gwPool (syGw s)) p \<Longrightarrow> system_step compute s (s\<lparr>syGw := (syGw s)\<lparr>gwPool := p\<rparr>\<rparr>)"
| fetch: "cPhase (syCache s) t = Fetching k \<Longrightarrow> Fetch fresh now (sySide s) = (res, side) \<Longrightarrow>
    system_step compute s (s\<lparr>syCache := fetchDone t k (map_sum FetchFailed Some res) (syCache s), sySide := side\<rparr>)"
| cache: "refresh_step (syCache s) c \<Longrightarrow> cacheOnly (syCache s) c \<Longrightarrow> system_step compute s (s\<lparr>syCache := c\<rparr>)"
| on_error: "cPhase (syCache s) t = Reporting e \<Longrightarrow>
    system_step compute s (countInto refreshFailed (s\<lparr>syCache := errorReported t (syCache s)\<rparr>))"
| poll: "tick (kclientCoordinator fresh) True cancelled now (polledGroups s) (syHolder s, sySide s, []) = (h, side, reps) \<Longrightarrow>
    system_step compute s (s\<lparr>syHolder := h, sySide := side\<rparr>)"
| gauge: "icSubscription (syIc s) = Some st \<Longrightarrow>
    system_step compute s (countInto (gaugeRefresher now (syHolder s) st) s)"

end
