(* ===== verification/SystemCorrect.thy ===== *)
theory SystemCorrect
  imports System
begin

text \<open>
  What holds in every reachable state of the whole gateway, whatever the interleaving of its clients,
  pollers, planner workers and shutdown: invariants of the parts, lifted to the composition.
\<close>

section \<open>What a pump does to the interceptor\<close>

lemma run_step_ic:
  assumes "run_step hk r r'"
  shows "rnIc r' = rnIc r \<or> (\<exists>n h body. rnIc r' = snd (hkOnRequest (hk n) h body (rnIc r))) \<or>
    (\<exists>n rw dst body p. rnIc r' = snd (hkRewrite (hk n) (rnIc r) rw dst body p))"
  using assms
proof (induction rule: run_step.induct)
  case (up s n pe)
  then show ?case
    by (auto simp: upStep_def split: prod.split option.split dest!: upstream_tracker) (metis snd_conv)+
next
  case (down s n pe)
  then show ?case
    by (auto simp: downStep_def split: prod.split option.split dest!: downstream_tracker) (metis snd_conv)+
qed (simp_all add: closeBoth_def)

text \<open>A property of the interceptor that its handlers keep is kept by every step of a connection.\<close>

lemma run_step_keeps:
  assumes "run_step (\<lambda>n. productionHooks env) r r'" "Q (rnIc r)"
    and "\<And>h body ic. Q ic \<Longrightarrow> Q (snd (OnRequest env h body ic))"
    and "\<And>rw dst body p ic. Q ic \<Longrightarrow> Q (snd (applyRewrite env ic rw dst body p))"
  shows "Q (rnIc r')"
  using run_step_ic [OF assms(1)] assms(2-4) by (auto simp: productionHooks_def)

lemma OnRequest_store:
  assumes "Q st" "icSubscription ic = Some st" "\<And>st now sub. Q st \<Longrightarrow> sbMemberID sub \<noteq> '''' \<Longrightarrow> Q (snd (Put now st sub))"
  shows "\<exists>st'. icSubscription (snd (OnRequest env h body ic)) = Some st' \<and> Q st'"
  using assms
  by (auto simp: OnRequest_def onMetadata_def onFindCoordinator_def onJoinGroup_def onSyncGroup_def onMetrics_def
      bumpPassthru_def bumpErr_def Let_def split: option.split sum.split prod.split)

lemma applyRewrite_store: "icSubscription (snd (applyRewrite env ic rw dst body p)) = icSubscription ic"
  by (auto simp: applyRewrite_def rewriteMetadataResp_def rewriteFindCoordResp_def onMetrics_def bumpErr_def Let_def
      split: RewriteFn.split sum.split prod.split)

text \<open>The gauges that the handlers do not touch.\<close>

definition outerGauges :: "Interceptor \<Rightarrow> (int64 \<times> int64) option" where
  "outerGauges ic = map_option (\<lambda>m. (ConnActive m, MetadataRefreshErrors m)) (icMetrics ic)"

lemma outerGauges_onMetrics:
  "(\<And>m. ConnActive (f m) = ConnActive m \<and> MetadataRefreshErrors (f m) = MetadataRefreshErrors m) \<Longrightarrow>
   outerGauges (onMetrics f ic) = outerGauges ic"
  by (cases "icMetrics ic") (simp_all add: outerGauges_def onMetrics_def)

lemma outerGauges_simps [simp]:
  "outerGauges (ic\<lparr>icSubscription := st\<rparr>) = outerGauges ic" "outerGauges (ic\<lparr>icSyncGroupRewrites := n\<rparr>) = outerGauges ic"
  "outerGauges (ic\<lparr>icDeps := d\<rparr>) = outerGauges ic" "outerGauges (bumpPassthru ic) = outerGauges ic"
  "outerGauges (bumpErr ic) = outerGauges ic"
  by (simp_all add: outerGauges_def bumpPassthru_def bumpErr_def onMetrics_def option.map_comp comp_def)

lemma OnRequest_gauges: "outerGauges (snd (OnRequest env h body ic)) = outerGauges ic"
  by (auto simp: OnRequest_def onMetadata_def onFindCoordinator_def onJoinGroup_def onSyncGroup_def
      outerGauges_onMetrics Let_def split: option.split sum.split prod.split)

lemma applyRewrite_gauges: "outerGauges (snd (applyRewrite env ic rw dst body p)) = outerGauges ic"
  by (auto simp: applyRewrite_def rewriteMetadataResp_def rewriteFindCoordResp_def outerGauges_onMetrics Let_def
      split: RewriteFn.split sum.split prod.split)

lemma outerGauges_frames:
  "outerGauges (ic\<lparr>icMetrics := withFrames frames (icMetrics ic)\<rparr>) = outerGauges ic"
  by (simp add: outerGauges_def withFrames_def split: option.split)

section \<open>The interceptor's dependencies\<close>

definition depsOk :: "Mapping \<Rightarrow> Interceptor \<Rightarrow> bool" where
  "depsOk topo ic \<longleftrightarrow> dTopology (icDeps ic) = Some topo \<and> dHasPlanner (icDeps ic)"

lemma liveIc_simps [simp]:
  "depsOk topo (liveIc s) = depsOk topo (syIc s)" "icSubscription (liveIc s) = icSubscription (syIc s)"
  "outerGauges (liveIc s) = outerGauges (syIc s)" "mapsTo topo (liveIc s) = mapsTo topo (syIc s)"
  "dMetadata (icDeps (liveIc s)) = Some (cCur (syCache s))"
  by (simp_all add: liveIc_def depsOk_def mapsTo_def Get_cache_def)

lemma storeRun_simps [simp]:
  "syGw (storeRun cl r s) = syGw s" "syCache (storeRun cl r s) = syCache s" "syHolder (storeRun cl r s) = syHolder s"
  "syConns (storeRun cl r s) = (syConns s)(cl \<mapsto> r)" "syFinished (storeRun cl r s) = syFinished s" "icSubscription (syIc (storeRun cl r s)) = icSubscription (rnIc r)"
  "icDeps (syIc (storeRun cl r s)) = icDeps (rnIc r)" "outerGauges (syIc (storeRun cl r s)) = outerGauges (rnIc r)"
  by (simp_all add: storeRun_def outerGauges_frames)

lemma countInto_simps [simp]:
  "syGw (countInto f s) = syGw s" "syCache (countInto f s) = syCache s" "syHolder (countInto f s) = syHolder s"
  "syConns (countInto f s) = syConns s" "syFinished (countInto f s) = syFinished s" "icSubscription (syIc (countInto f s)) = icSubscription (syIc s)"
  "icDeps (syIc (countInto f s)) = icDeps (syIc s)"
  by (simp_all add: countInto_def onMetrics_def)

lemma depsOk_step: "system_step compute s s' \<Longrightarrow> depsOk topo (syIc s) \<Longrightarrow> depsOk topo (syIc s')"
proof (induction rule: system_step.induct)
  case (conn s cl r env r')
  have "depsOk topo (rnIc r')"
    by (rule run_step_keeps [OF conn(3)]) (use conn(5) in \<open>simp_all add: depsOk_def OnRequest_deps applyRewrite_deps liveRun_def liveIc_def\<close>)
  then show ?case by (simp add: depsOk_def)
qed (simp_all add: depsOk_def)

section \<open>Connections\<close>

definition pendingOk :: "(Interceptor, RewriteFn) Run \<Rightarrow> bool" where
  "pendingOk r \<longleftrightarrow> trackerInv (coTracker (rnConn r)) \<and> (\<forall>k p. findPending (coTracker (rnConn r)) k = Some p \<longrightarrow> rewriterFits p)"

lemma pendingOk_run: "production.runOk topo r \<longleftrightarrow> mapsTo topo (rnIc r) \<and> pendingOk r"
  by (simp add: production.runOk_def production.connOk_def pendingOk_def)

definition connsOk :: "Mapping \<Rightarrow> System \<Rightarrow> bool" where
  "connsOk topo s \<longleftrightarrow> (byNodeID topo \<noteq> [] \<longrightarrow> (\<forall>cl r. syConns s cl = Some r \<longrightarrow> pendingOk r))"

lemma connsOk_step:
  assumes "system_step compute s s'" "depsOk topo (syIc s)" "connsOk topo s"
  shows "connsOk topo s'"
  using assms
proof (induction rule: system_step.induct)
  case (conn_start cl s client broker b1 b2)
  have "pendingOk (startRun (NewConn (syConnCfg s) client broker b1 b2) (syIc s))" if "byNodeID topo \<noteq> []"
    using production.start_ok [of topo "syIc s"] that conn_start(4) by (simp add: pendingOk_run mapsTo_def depsOk_def)
  with conn_start show ?case by (simp add: connsOk_def)
next
  case (conn s cl r env r')
  have "pendingOk r'" if "byNodeID topo \<noteq> []"
    using production.step_ok [OF conn(3)] that conn(1,5,6)
    by (simp add: pendingOk_run liveRun_def mapsTo_def depsOk_def connsOk_def liveIc_def) (simp add: pendingOk_def)
  with conn show ?case by (simp add: connsOk_def)
qed (simp_all add: connsOk_def)

section \<open>The subscription store and the polled groups\<close>

text \<open>No record without a member id, and every group with a record has been reported to the registry.\<close>

definition reported :: "Store \<Rightarrow> bool" where
  "reported st \<longleftrightarrow> stOnChange st \<and> storeInv st \<and> (\<forall>g. Get_sub st g '''' = None) \<and>
     (\<forall>g m. Get_sub st g m \<noteq> None \<longrightarrow> g \<in> set (stCalls st))"

lemma reported_put: "reported st \<Longrightarrow> sbMemberID sub \<noteq> '''' \<Longrightarrow> reported (snd (Put now st sub))"
proof -
  assume st: "reported st" and sub: "sbMemberID sub \<noteq> ''''"
  have rep: "g \<in> set (stCalls st)" if "Get_sub st g m \<noteq> None" for g m
    using st that unfolding reported_def by blast
  have on: "stOnChange st" "storeInv st" using st by (simp_all add: reported_def)
  have "Get_sub (snd (Put now st sub)) g '''' = None" for g
    using st sub by (auto simp: Put_get reported_def)
  then show ?thesis
    using put_reports [of st now sub] rep on(1) Put_inv [OF on(2)] unfolding reported_def by meson
qed

definition storeOk :: "Interceptor \<Rightarrow> bool" where
  "storeOk ic \<longleftrightarrow> (\<exists>st. icSubscription ic = Some st \<and> reported st)"

lemma storeOk_step: "system_step compute s s' \<Longrightarrow> storeOk (syIc s) \<Longrightarrow> storeOk (syIc s')"
proof (induction rule: system_step.induct)
  case (conn s cl r env r')
  have "storeOk (rnIc r')"
  proof (rule run_step_keeps [OF conn(3)])
    show "storeOk (rnIc (liveRun s r))" using conn(5) by (simp add: liveRun_def storeOk_def)
    show "storeOk (snd (OnRequest env h body ic))" if "storeOk ic" for h body ic
      using that OnRequest_store [of reported _ ic env h body] reported_put by (auto simp: storeOk_def)
  qed (simp add: storeOk_def applyRewrite_store)
  then show ?case by (simp add: storeOk_def)
qed (simp_all add: storeOk_def)

section \<open>Published metadata\<close>

definition snapOk :: "MetaSnapshot \<Rightarrow> bool" where
  "snapOk snap \<longleftrightarrow> wfmap (msByTopic snap) \<and> '''' \<notin> set (mkeys (msByTopic snap))"

lemma addTopic_named: "'''' \<notin> set (mkeys acc) \<Longrightarrow> '''' \<notin> set (mkeys (addTopic acc t))"
  by (auto simp: addTopic_def usableTopic_def in_mkeys)

lemma buildSnapshot_ok: "snapOk (buildSnapshot now resp)"
proof -
  have "'''' \<notin> set (mkeys (foldl addTopic [] (mrTopics resp)))"
    by (rule foldl_inv [where P = "\<lambda>acc. '''' \<notin> set (mkeys acc)"], simp add: mkeys_def) (rule addTopic_named)
  then show ?thesis by (simp add: snapOk_def buildSnapshot_def addTopic_wf)
qed

text \<open>A snapshot is published, or fetched and about to be.\<close>

definition cacheOk :: "Cache \<Rightarrow> bool" where
  "cacheOk c \<longleftrightarrow> pred_option snapOk (cCur c) \<and> (\<forall>t k snap. cPhase c t = Fetched k (Inr (Some snap)) \<longrightarrow> snapOk snap)"

lemma cacheOk_refresh: "refresh_step c c' \<Longrightarrow> cacheOnly c c' \<Longrightarrow> cacheOk c \<Longrightarrow> cacheOk c'"
  by (induction rule: refresh_step.induct)
    (auto simp: cacheOk_def cacheOnly_def publish_def refreshReturns_def split: sum.splits option.splits if_splits)

lemma cacheOk_fetch:
  "cacheOk c \<Longrightarrow> Fetch fresh now side = (res, side') \<Longrightarrow> cacheOk (fetchDone t k (map_sum FetchFailed Some res) c)"
  using buildSnapshot_ok
  by (auto simp: cacheOk_def fetchDone_def Fetch_def split: sum.splits prod.splits if_splits)

lemma cacheOk_step: "system_step compute s s' \<Longrightarrow> cacheOk (syCache s) \<Longrightarrow> cacheOk (syCache s')"
  by (induction rule: system_step.induct)
    (simp_all add: cacheOk_fetch cacheOk_refresh, simp add: cacheOk_def errorReported_def)

section \<open>The planner pool\<close>

definition poolOk :: "(Inputs \<Rightarrow> Plan option) \<Rightarrow> Pool \<Rightarrow> bool" where
  "poolOk compute p \<longleftrightarrow> (\<exists>tab. answered compute tab p)"

lemma poolOk_close: "poolOk compute p \<Longrightarrow> poolOk compute (p\<lparr>plClosed := b\<rparr>)"
  by (simp add: poolOk_def answered_def inFlight_def)

lemma poolOk_gateway: "gateway_step g g' \<Longrightarrow> poolOk compute (gwPool g) \<Longrightarrow> poolOk compute (gwPool g')"
  by (induction rule: gateway_step.induct) (simp_all add: poolOk_close)

lemma poolOk_planner: "planner_step compute p p' \<Longrightarrow> poolOk compute p \<Longrightarrow> poolOk compute p'"
  using answered_worker answered_plan answered_close unfolding planner_step_def poolOk_def by blast

lemma poolOk_step: "system_step compute s s' \<Longrightarrow> poolOk compute (gwPool (syGw s)) \<Longrightarrow> poolOk compute (gwPool (syGw s'))"
  by (induction rule: system_step.induct) (simp_all add: poolOk_gateway poolOk_planner)

text \<open>The plan that a handler gets is the plan of its own inputs.\<close>

lemma poolEnv_own:
  assumes "poolOk compute p" "poolEnv p env" "envPlan env inp = Inr (pl, d)"
  shows "compute inp = None \<and> pl = [] \<or> compute inp = Some pl"
proof -
  obtain c res d' where c: "plCaller p c = Returned inp res" "poolAnswer d' res = Inr (pl, d)"
    using assms(2,3) unfolding poolEnv_def by (metis sum.distinct(1))
  obtain out where out: "res = Inr out" "pl = (case out of None \<Rightarrow> [] | Some q \<Rightarrow> q)"
    using c(2) by (auto simp: poolAnswer_def split: sum.splits poolErr.splits option.splits)
  have "resultOk compute (plCaller p c)" using assms(1) by (auto simp: poolOk_def answered_def)
  then have "out = compute inp" using c(1) out(1) by (simp add: resultOk_def)
  with out(2) show ?thesis by (auto split: option.splits)
qed

section \<open>Accept loop, gauges and shutdown\<close>

lemma planner_closed: "planner_step compute p p' \<Longrightarrow> plClosed p \<Longrightarrow> plClosed p'"
  unfolding planner_step_def
  by (elim disjE worker_step.cases plan_step.cases close_step.cases) (auto simp: setCaller_def)

lemma gatewayInv_step: "system_step compute s s' \<Longrightarrow> gateway_inv lc (syGw s) \<Longrightarrow> gateway_inv lc (syGw s')"
proof (induction rule: system_step.induct)
  case (pool s p)
  then show ?case using planner_closed by (auto simp: gateway_inv_def)
qed (simp_all add: gateway.inv_step)

text \<open>The connections that run or have ended are those of running goroutines of the accept loop; the
  context of a connection is that of the accept loop.\<close>

definition connected :: "System \<Rightarrow> bool" where
  "connected s \<longleftrightarrow> dom (syConns s) \<union> dom (syFinished s) \<subseteq> svRunning (gwServe (syGw s)) \<and>
     dom (syConns s) \<inter> dom (syFinished s) = {} \<and>
     (\<forall>cl r. syConns s cl = Some r \<longrightarrow> errInv r \<and> (rnCtxDone r \<longrightarrow> svCancelled (gwServe (syGw s))))"

lemma serve_cancelled: "serve_step s s' \<Longrightarrow> svCancelled s \<Longrightarrow> svCancelled s'"
  by (induction rule: serve_step.induct) (simp_all add: sem_simps)

lemma gateway_cancelled: "gateway_step g g' \<Longrightarrow> svCancelled (gwServe g) \<Longrightarrow> svCancelled (gwServe g')"
  by (induction rule: gateway_step.induct) simp_all

lemma liveRun_simps [simp]:
  "rnErrCh (liveRun s r) = rnErrCh r" "rnClosed (liveRun s r) = rnClosed r" "errInv (liveRun s r) = errInv r"
  "rnIc (liveRun s r) = liveIc s" "rnCtxDone (liveRun s r) = rnCtxDone r"
  by (simp_all add: liveRun_def errInv_def)

lemma connected_step: "system_step compute s s' \<Longrightarrow> connected s \<Longrightarrow> connected s'"
proof (induction rule: system_step.induct)
  case (gateway s g)
  then show ?case using gateway_cancelled [OF gateway(1)] unfolding connected_def by (simp, blast)
next
  case (conn_start cl s client broker b1 b2)
  have "\<not> rnCtxDone (startRun c i)" for c :: "RewriteFn Conn" and i :: Interceptor by (simp add: startRun_def)
  with conn_start show ?case by (auto simp: connected_def errInv_start split: if_splits)
next
  case (conn_end s cl r)
  then show ?case by (auto simp: connected_def split: if_splits)
next
  case (stop s g cl err)
  then have "cl \<notin> dom (syConns s)" by (auto simp: connected_def)
  with stop show ?case using gateway_cancelled [OF stop(1)] by (auto simp: connected_def split: if_splits)
next
  case (conn s cl r env r')
  then show ?case
    using errInv_step [OF conn(3)] by (auto simp: connected_def split: if_splits)
qed (simp_all add: connected_def)

text \<open>
  Between its count in \<open>ErrorsTotal\<close> and the return of \<open>OnError\<close> a failed refresh is not yet in the metrics;
  only \<open>Run\<close> reports.
\<close>

definition reporting :: "Cache \<Rightarrow> bool" where
  "reporting c \<longleftrightarrow> (case cPhase c runThread of Reporting e \<Rightarrow> True | _ \<Rightarrow> False)"

definition errorsOk :: "Cache \<Rightarrow> bool" where
  "errorsOk c \<longleftrightarrow> failuresCounted c \<and> (\<forall>t e. cPhase c t = Reporting e \<longrightarrow> t = runThread)"

lemma errorsOk_refresh: "refresh_step c c' \<Longrightarrow> errorsOk c \<Longrightarrow> errorsOk c'"
proof -
  assume step: "refresh_step c c'" and ok: "errorsOk c"
  have "\<forall>t e. cPhase c' t = Reporting e \<longrightarrow> t = runThread"
    using step ok by (induction rule: refresh_step.induct) (auto simp: errorsOk_def refreshReturns_def split: if_splits)
  then show ?thesis using ok failuresCounted_step [OF step] by (simp add: errorsOk_def)
qed

lemma errorsOk_step: "system_step compute s s' \<Longrightarrow> errorsOk (syCache s) \<Longrightarrow> errorsOk (syCache s')"
proof (induction rule: system_step.induct)
  case (fetch s t k fresh now res side)
  from errorsOk_refresh [OF refresh_step.fetched [OF fetch(1)] fetch(3)] show ?case by (simp add: fetchDone_def)
next
  case (on_error s t e)
  from errorsOk_refresh [OF refresh_step.report [OF on_error(1)] on_error(2)] show ?case by (simp add: errorReported_def)
qed (simp_all add: errorsOk_refresh)

text \<open>What a step of the cache alone adds to \<open>ErrorsTotal\<close> it begins to report.\<close>

lemma cacheOnly_reporting:
  assumes "refresh_step c c'" "cacheOnly c c'"
  shows "cErrors c' - of_bool (reporting c') = cErrors c - of_bool (reporting c)"
  using assms
  by (induction rule: refresh_step.induct)
    (auto simp: reporting_def refreshReturns_def cacheOnly_def split: phase.splits if_splits)

definition gaugesOk :: "System \<Rightarrow> bool" where
  "gaugesOk s \<longleftrightarrow> outerGauges (syIc s) =
     Some (of_nat (card (dom (syConns s))), cErrors (syCache s) - of_bool (reporting (syCache s)))"

lemma outerGauges_count:
  "outerGauges (syIc (countInto f s)) = map_option (\<lambda>m. (ConnActive (f m), MetadataRefreshErrors (f m))) (icMetrics (syIc s))"
  by (simp add: outerGauges_def countInto_def onMetrics_def option.map_comp comp_def)

lemma conns_finite:
  assumes "connected s" "gateway_inv lc (syGw s)"
  shows "finite (dom (syConns s))"
proof (rule finite_subset)
  show "dom (syConns s) \<subseteq> svRunning (gwServe (syGw s))" using assms(1) by (simp add: connected_def)
  show "finite (svRunning (gwServe (syGw s)))" using assms(2) by (simp add: gateway_inv_def sem_inv_def)
qed

lemma gaugesOk_step:
  assumes "system_step compute s s'" "connected s" "gateway_inv lc (syGw s)" "errorsOk (syCache s)" "gaugesOk s"
  shows "gaugesOk s'"
  using assms
proof (induction rule: system_step.induct)
  case (conn_start cl s client broker b1 b2)
  then have "finite (dom (syConns s))" "cl \<notin> dom (syConns s)" using conns_finite by auto
  then have "card (insert cl (dom (syConns s))) = Suc (card (dom (syConns s)))" by simp
  then show ?case
    using conn_start(7) by (auto simp: gaugesOk_def outerGauges_count connStarted_def) (auto simp: outerGauges_def)
next
  case (conn_end s cl r)
  then have "finite (dom (syConns s))" "cl \<in> dom (syConns s)" using conns_finite by auto
  then have "card (dom (syConns s)) = Suc (card (dom (syConns s) - {cl}))"
    by (rule card.remove)
  then show ?case
    using conn_end(6) by (auto simp: gaugesOk_def outerGauges_count connEnded_def) (auto simp: outerGauges_def)
next
  case (conn s cl r env r')
  have "outerGauges (rnIc r') = outerGauges (syIc s)"
    by (rule run_step_keeps [OF conn(3)]) (simp_all add: OnRequest_gauges applyRewrite_gauges)
  moreover have "insert cl (dom (syConns s)) = dom (syConns s)" using conn(1) by auto
  ultimately show ?case using conn(8) by (simp add: gaugesOk_def)
next
  case (cache s c)
  then show ?case by (simp add: gaugesOk_def cacheOnly_reporting)
next
  case (fetch s t k fresh now res side)
  then have "reporting (fetchDone t k r (syCache s)) = reporting (syCache s)" for r
    by (auto simp: reporting_def fetchDone_def)
  with fetch show ?case by (simp add: gaugesOk_def) (simp add: fetchDone_def)
next
  case (on_error s t e)
  then have "t = runThread" by (auto simp: errorsOk_def)
  with on_error(1) have "reporting (syCache s)" "\<not> reporting (errorReported t (syCache s))"
    by (simp_all add: reporting_def errorReported_def)
  with on_error(5) show ?case
    by (auto simp: gaugesOk_def outerGauges_count refreshFailed_def errorReported_def) (auto simp: outerGauges_def)
next
  case (gauge s st now)
  then show ?case
    by (auto simp: gaugesOk_def outerGauges_count gaugeRefresher_def Let_def split: option.split) (auto simp: outerGauges_def)
qed (simp_all add: gaugesOk_def fetchDone_def)

section \<open>Reachable states\<close>

definition systemInv :: "(Inputs \<Rightarrow> Plan option) \<Rightarrow> config \<Rightarrow> Mapping \<Rightarrow> System \<Rightarrow> bool" where
  "systemInv compute cfg topo s \<longleftrightarrow> depsOk topo (syIc s) \<and> connsOk topo s \<and> storeOk (syIc s) \<and> cacheOk (syCache s) \<and>
     poolOk compute (gwPool (syGw s)) \<and> gateway_inv (listenerConfig cfg) (syGw s) \<and> connected s \<and>
     errorsOk (syCache s) \<and> gaugesOk s"

lemma systemInv_start: "systemInv compute cfg topo (startSystem procs cfg topo side)"
proof -
  have "poolOk compute (New procs w q)" for w q unfolding poolOk_def using answered_new by blast
  moreover have "reported (wireStore cfg)"
    by (simp add: reported_def wireStore_def SetOnChange_def NewStore_def Get_sub_def storeInv_def)
  moreover have "gateway_inv (listenerConfig cfg) (startGateway (listenerConfig cfg) p)" for p by (rule gateway.inv_init)
  ultimately show ?thesis
    by (simp add: systemInv_def startSystem_def depsOk_def wireInterceptor_def NewInterceptor_def connsOk_def storeOk_def
        cacheOk_def NewCache_def connected_def startGateway_def newServe_def gaugesOk_def outerGauges_def NewMetrics_def
        errorsOk_def failuresCounted_def uncounted_def runFailures_def reporting_def)
qed

interpretation whole: step_system "system_step compute" "startSystem procs cfg topo side" "systemInv compute cfg topo"
  for compute procs cfg topo side
proof unfold_locales
  show "systemInv compute cfg topo (startSystem procs cfg topo side)" by (rule systemInv_start)
  show "systemInv compute cfg topo s'" if "system_step compute s s'" "systemInv compute cfg topo s" for s s'
    using that(2) depsOk_step [OF that(1)] connsOk_step [OF that(1)] storeOk_step [OF that(1)] cacheOk_step [OF that(1)]
      poolOk_step [OF that(1)] gatewayInv_step [OF that(1)] connected_step [OF that(1)] errorsOk_step [OF that(1)]
      gaugesOk_step [OF that(1), of "listenerConfig cfg"]
    by (simp add: systemInv_def)
qed

text \<open>What \<open>boot\<close> returns is the start of such a run.\<close>

lemma boot_starts:
  assumes "boot be cfg0 = Inr s"
  shows "\<exists>cfg topo side. checkConfig cfg0 = Some cfg \<and> chooseTopology (beLoad be) cfg = Inr topo \<and>
    s = startSystem (beProcs be) cfg topo side"
  using assms by (auto simp: boot_def split: option.splits sum.splits)

lemma booted_inv:
  assumes "boot be cfg0 = Inr s0" "(system_step compute)\<^sup>*\<^sup>* s0 s"
  obtains cfg topo where "checkConfig cfg0 = Some cfg" "chooseTopology (beLoad be) cfg = Inr topo"
    "systemInv compute cfg topo s"
  using boot_starts [OF assms(1)] assms(2) whole.reachable by metis

lemma system_conn:
  assumes "systemInv compute cfg topo s" "byNodeID topo \<noteq> []" "syConns s cl = Some r"
  shows "production.connOk topo (rnConn (liveRun s r)) (liveIc s)"
  using assms by (auto simp: systemInv_def production.connOk_def connsOk_def pendingOk_def liveRun_def liveIc_def depsOk_def mapsTo_def)

section \<open>Waiting for a response\<close>

text \<open>The age at which \<open>run\<close> has its connections evict a pending request: the default of the tracker.\<close>

definition pendingMaxAge :: int where
  "pendingMaxAge = 5 * 60 * second"

definition ageOk :: "System \<Rightarrow> bool" where
  "ageOk s \<longleftrightarrow> cfgPendingMaxAge (syConnCfg s) = 0 \<and>
     (\<forall>cl r. syConns s cl = Some r \<longrightarrow> tMaxAge (coTracker (rnConn r)) = pendingMaxAge)"

lemma run_step_age:
  assumes "run_step hk r r'"
  shows "tMaxAge (coTracker (rnConn r')) = tMaxAge (coTracker (rnConn r))"
  using assms
proof (induction rule: run_step.induct)
  case (up s n pe)
  then show ?case
    by (auto simp: upStep_def Register_params split: prod.split option.split dest!: upstream_tracker)
next
  case (down s n pe)
  then show ?case
    by (auto simp: downStep_def Take_params split: prod.split option.split dest!: downstream_tracker)
qed (simp_all add: closeBoth_def)

lemma ageOk_step: "system_step compute s s' \<Longrightarrow> ageOk s \<Longrightarrow> ageOk s'"
proof (induction rule: system_step.induct)
  case (conn_start cl s client broker b1 b2)
  then show ?case
    by (simp add: ageOk_def countInto_def onMetrics_def startRun_def NewConn_def NewTracker_def pendingMaxAge_def Let_def)
next
  case (conn s cl r env r')
  then show ?case using run_step_age [OF conn(3)] by (simp add: ageOk_def storeRun_def liveRun_def)
qed (simp_all add: ageOk_def countInto_def onMetrics_def)

lemma ageOk_reachable: "(system_step compute)\<^sup>*\<^sup>* (startSystem procs cfg topo side) s \<Longrightarrow> ageOk s"
  by (induction rule: rtranclp_induct) (auto intro: ageOk_step, simp add: ageOk_def startSystem_def connConfig_def)

text \<open>
  The steps of the gateway while client \<open>cl\<close> waits for the response to its request \<open>k\<close>: anything that leaves
  its connection or at least its tracker alone; an iteration of its upstream pump whose clock reads at
  most \<open>limit\<close>; an iteration of its downstream pump that does not read a frame with the id \<open>k\<close>.
\<close>

inductive waiting :: "(Inputs \<Rightarrow> Plan option) \<Rightarrow> nat \<Rightarrow> int32 \<Rightarrow> int \<Rightarrow> System \<Rightarrow> System \<Rightarrow> bool" for compute cl k limit where
  elsewhere: "system_step compute s s' \<Longrightarrow> syConns s' cl = syConns s cl \<Longrightarrow> waiting compute cl k limit s s'"
| quiet: "syConns s cl = Some r \<Longrightarrow> system_step compute s (storeRun cl r' s) \<Longrightarrow>
    coTracker (rnConn r') = coTracker (rnConn r) \<Longrightarrow> waiting compute cl k limit s (storeRun cl r' s)"
| up: "syConns s cl = Some r \<Longrightarrow> poolEnv (gwPool (syGw s)) env \<Longrightarrow> rnUp r = Running \<Longrightarrow> peNow pe \<le> limit \<Longrightarrow>
    waiting compute cl k limit s (storeRun cl (upStep (productionHooks env) pe (liveRun s r)) s)"
| down: "syConns s cl = Some r \<Longrightarrow> poolEnv (gwPool (syGw s)) env \<Longrightarrow> rnDown r = Running \<Longrightarrow>
    (\<forall>body b rd. ReadFrame (coBrokerR (rnConn r)) (coDownBuf (rnConn r)) = Inr (body, b, rd) \<longrightarrow> PeekResponseCorrelID body \<noteq> Inr k) \<Longrightarrow>
    waiting compute cl k limit s (storeRun cl (downStep (productionHooks env) pe (liveRun s r)) s)"

lemma up_system:
  assumes "syConns s cl = Some r" "poolEnv (gwPool (syGw s)) env" "rnUp r = Running"
  shows "system_step compute s (storeRun cl (upStep (productionHooks env) pe (liveRun s r)) s)"
proof -
  have "run_step (\<lambda>n. productionHooks env) (liveRun s r) (upStep (productionHooks env) pe (liveRun s r))"
    using assms(3) run_step.up [of "liveRun s r" "\<lambda>n. productionHooks env"] by (simp add: liveRun_def)
  then show ?thesis by (rule system_step.conn [OF assms(1,2)]) simp
qed

lemma down_system:
  assumes "syConns s cl = Some r" "poolEnv (gwPool (syGw s)) env" "rnDown r = Running"
  shows "system_step compute s (storeRun cl (downStep (productionHooks env) pe (liveRun s r)) s)"
proof -
  have "run_step (\<lambda>n. productionHooks env) (liveRun s r) (downStep (productionHooks env) pe (liveRun s r))"
    using assms(3) run_step.down [of "liveRun s r" "\<lambda>n. productionHooks env"] by (simp add: liveRun_def)
  then show ?thesis by (rule system_step.conn [OF assms(1,2)]) simp
qed

lemma waiting_system: "waiting compute cl k limit s s' \<Longrightarrow> system_step compute s s'"
  by (induction rule: waiting.induct) (auto intro: up_system down_system)

lemma waiting_systems: "(waiting compute cl k limit)\<^sup>*\<^sup>* s s' \<Longrightarrow> (system_step compute)\<^sup>*\<^sup>* s s'"
  by (induction rule: rtranclp_induct) (auto intro: waiting_system rtranclp.rtrancl_into_rtrancl)

definition awaits :: "nat \<Rightarrow> int32 \<Rightarrow> RewriteFn Pending \<Rightarrow> System \<Rightarrow> bool" where
  "awaits cl k p s \<longleftrightarrow> (\<exists>r. syConns s cl = Some r \<and> findPending (coTracker (rnConn r)) k = Some p)"

lemma up_awaits:
  assumes "trackerInv (coTracker (rnConn r))" "findPending (coTracker (rnConn r)) k = Some p"
    and "peNow pe - pSent p \<le> tMaxAge (coTracker (rnConn r))"
  shows "findPending (coTracker (rnConn (upStep hk pe r))) k = Some p"
proof -
  obtain e c i where pump: "upstreamPump hk pe (rnConn r) (rnIc r) = (e, c, i)" by (metis prod_cases3)
  have "findPending (coTracker c) k = Some p"
    using upstream_tracker [OF pump] assms Register_keeps [OF assms] by auto
  then show ?thesis using pump by (cases e) (simp_all add: upStep_def)
qed

lemma down_awaits:
  assumes "trackerInv (coTracker (rnConn r))" "findPending (coTracker (rnConn r)) k = Some p"
    and "\<forall>body b rd. ReadFrame (coBrokerR (rnConn r)) (coDownBuf (rnConn r)) = Inr (body, b, rd) \<longrightarrow> PeekResponseCorrelID body \<noteq> Inr k"
  shows "findPending (coTracker (rnConn (downStep hk pe r))) k = Some p"
proof -
  obtain e c i where pump: "downstreamPump hk pe (rnConn r) (rnIc r) = (e, c, i)" by (metis prod_cases3)
  have "coTracker c = coTracker (rnConn r) \<or> (\<exists>j. j \<noteq> k \<and> coTracker c = snd (Take (coTracker (rnConn r)) j))"
    using pump assms(3)
    by (auto simp: downstreamPump_def handleResponse_def Let_def split: option.splits sum.splits prod.splits if_splits
        dest!: forwardDown_tracker)
  then have "findPending (coTracker c) k = Some p" using assms(2) tracker.take_rest [OF assms(1)] by auto
  then show ?thesis using pump by (cases e) (simp_all add: downStep_def)
qed

lemma waiting_awaits:
  assumes "waiting compute cl k limit s s'" "awaits cl k p s" "limit - pSent p \<le> pendingMaxAge" "ageOk s"
    and "\<And>r. syConns s cl = Some r \<Longrightarrow> trackerInv (coTracker (rnConn r))"
  shows "awaits cl k p s'"
  using assms
proof (induction rule: waiting.induct)
  case (up s r env pe)
  then have "findPending (coTracker (rnConn (upStep (productionHooks env) pe (liveRun s r)))) k = Some p"
    by (intro up_awaits) (auto simp: liveRun_def awaits_def ageOk_def)
  then show ?case by (simp add: awaits_def)
next
  case (down s r env pe)
  then have "findPending (coTracker (rnConn (downStep (productionHooks env) pe (liveRun s r)))) k = Some p"
    by (intro down_awaits) (auto simp: liveRun_def awaits_def)
  then show ?case by (simp add: awaits_def)
qed (auto simp: awaits_def)

lemma system_tracker:
  assumes "(system_step compute)\<^sup>*\<^sup>* (startSystem procs cfg topo side) s" "byNodeID topo \<noteq> []" "syConns s cl = Some r"
  shows "trackerInv (coTracker (rnConn r))"
  using whole.reachable [OF assms(1)] assms(2,3) by (simp add: systemInv_def connsOk_def pendingOk_def)

lemma still_awaited:
  assumes "(waiting compute cl k limit)\<^sup>*\<^sup>* s s'" "(system_step compute)\<^sup>*\<^sup>* (startSystem procs cfg topo side) s"
    and "byNodeID topo \<noteq> []" "awaits cl k p s" "limit - pSent p \<le> pendingMaxAge"
  shows "awaits cl k p s'"
  using assms(1)
proof (induction rule: rtranclp_induct)
  case (step s1 s2)
  have reach: "(system_step compute)\<^sup>*\<^sup>* (startSystem procs cfg topo side) s1"
    using assms(2) waiting_systems [OF step.hyps(1)] by simp
  show ?case
    by (rule waiting_awaits [OF step.hyps(2) step.IH assms(5) ageOk_reachable [OF reach] system_tracker [OF reach assms(3)]])
qed (rule assms(4))

text \<open>A request for addresses, from its forwarding to the arrival of its response.\<close>

lemma address_awaited:
  assumes "(system_step compute)\<^sup>*\<^sup>* (startSystem procs cfg topo side) s" "byNodeID topo \<noteq> []"
    and "syConns s cl = Some r" "rnUp r = Running" "poolEnv (gwPool (syGw s)) env0"
    and "ReadFrame (coClientR (rnConn r)) (coUpBuf (rnConn r)) = Inr (req, b0, rd0)" "DecodeRequestHeader req = Inr h"
    and "APIKey h = APIMetadata \<or> APIKey h = APIFindCoordinator"
    and "upstreamPump (productionHooks env0) pe0 (rnConn (liveRun s r)) (liveIc s) = (None, c0, i0)"
    and "(waiting compute cl (CorrelID h) (peSent pe0 + pendingMaxAge))\<^sup>*\<^sup>*
      (storeRun cl (upStep (productionHooks env0) pe0 (liveRun s r)) s) s'"
    and "syConns s' cl = Some r'"
  shows "(system_step compute)\<^sup>*\<^sup>* (startSystem procs cfg topo side) s'" (is ?reach)
    and "\<exists>p. findPending (coTracker (rnConn r')) (CorrelID h) = Some p \<and> pAPIKey p = APIKey h \<and> pAPIVersion p = APIVersion h" (is ?found)
    and "written (coBrokerW c0) = written (coBrokerW (rnConn r)) @ encFrame req" (is ?sent)
proof -
  let ?s1 = "storeRun cl (upStep (productionHooks env0) pe0 (liveRun s r)) s"
  have reach: "(system_step compute)\<^sup>*\<^sup>* (startSystem procs cfg topo side) ?s1"
    using assms(1) up_system [OF assms(3,5,4)] by (rule rtranclp.rtrancl_into_rtrancl)
  then show ?reach using waiting_systems [OF assms(10)] by simp
  obtain p where p: "findPending (coTracker c0) (CorrelID h) = Some p" "pAPIKey p = APIKey h" "pAPIVersion p = APIVersion h"
      "pSent p = peSent pe0" and ?sent
    using address_registered [OF system_conn [OF whole.reachable [OF assms(1)] assms(2,3)] _ assms(7,8,9)] assms(6)
    by (auto simp: liveRun_def)
  then have "awaits cl (CorrelID h) p ?s1" using assms(9) by (simp add: awaits_def upStep_def)
  from still_awaited [OF assms(10) reach assms(2) this] p(4) have "awaits cl (CorrelID h) p s'" by simp
  with p(2,3) assms(11) show ?found by (auto simp: awaits_def)
  show ?sent by fact
qed

section \<open>What clients see\<close>

text \<open>
  C1: a client that asks for metadata is told the advertised brokers.  Under a topology that names a
  node id, with advertised addresses that fit the wire format: when, in any reachable state of the whole
  gateway, the upstream pump of a connection forwards
  a Metadata request, and the broker's response with the request's correlation id reaches the downstream pump
  before that pump has read another one with that id and without an iteration of the
  upstream pump later than \<open>pendingMaxAge\<close> (5 minutes) after the request, whatever else
  happens in the gateway in between, then the broker got the client's own request, and the frame
  that the client gets has the correlation id and decodes to the broker's response in which every broker
  that the topology knows stands at its advertised address and every other at its own; when the
  topology knows all of them, only advertised addresses remain.
\<close>

theorem clients_see_advertised_brokers:
  assumes "(system_step compute)\<^sup>*\<^sup>* (startSystem procs cfg topo side) s" "byNodeID topo \<noteq> []"
    and "syConns s cl = Some r" "rnUp r = Running" "poolEnv (gwPool (syGw s)) env0"
    and "ReadFrame (coClientR (rnConn r)) (coUpBuf (rnConn r)) = Inr (req, b0, rd0)" "DecodeRequestHeader req = Inr h"
    and "APIKey h = APIMetadata"
    and "upstreamPump (productionHooks env0) pe0 (rnConn (liveRun s r)) (liveIc s) = (None, c0, i0)"
    and "(waiting compute cl (CorrelID h) (peSent pe0 + pendingMaxAge))\<^sup>*\<^sup>*
      (storeRun cl (upStep (productionHooks env0) pe0 (liveRun s r)) s) s'"
    and "syConns s' cl = Some r'"
    and "ReadFrame (coBrokerR (rnConn r')) (coDownBuf (rnConn r')) = Inr (body, b, rd)" "PeekResponseCorrelID body = Inr (CorrelID h)"
    and "advertisedFit (IsFlexibleResponse APIMetadata (APIVersion h)) topo"
    and "downstreamPump (productionHooks env) pe (rnConn (liveRun s' r')) (liveIc s') = (None, c, i)"
  shows "written (coBrokerW c0) = written (coBrokerW (rnConn r)) @ encFrame req \<and>
    (\<exists>rh bk sent ck. DecodeResponseHeader body APIMetadata (APIVersion h) = Inr rh \<and>
      DecodeMetadataResponse (drop (RespHeaderSize rh) body) (APIVersion h) = Inr bk \<and>
      written (coClientW c) = written (coClientW (rnConn r')) @
        encFrame (AppendResponseHeader [] APIMetadata (APIVersion h) (CorrelID h) @ sent) \<and>
      DecodeMetadataResponse sent (APIVersion h) = Inr ck \<and>
      ck = bk\<lparr>mrBrokers := map (rewriteBroker (envFold env) topo) (mrBrokers bk)\<rparr> \<and>
      (list_all (brokerMapped (envFold env) topo) (mrBrokers bk) \<longrightarrow>
        list_all (\<lambda>b. \<lparr>epHost = mbHost b, epPort = mbPort b\<rparr> \<in> snd ` set (byNodeID topo) \<union> snd ` set (byHostPt topo))
          (mrBrokers ck)))"
proof -
  note waited = address_awaited [OF assms(1-7) disjI1 [OF assms(8)] assms(9-11)]
  obtain p where p: "findPending (coTracker (rnConn r')) (CorrelID h) = Some p" "pAPIKey p = APIMetadata" "pAPIVersion p = APIVersion h"
    using waited(2) assms(8) by auto
  note conn = system_conn [OF whole.reachable [OF waited(1)] assms(2,11)]
  from metadata_delivered [OF conn, of body b rd "CorrelID h" p env pe c i] p assms(12-15) waited(3)
  show ?thesis by (simp add: liveRun_def)
qed

text \<open>
  C2: the same for coordinators.  Under the conditions of the previous property, the response of a
  forwarded FindCoordinator request reaches the client as the broker's response with the coordinators that
  the topology knows at their advertised addresses and every other at its own; when it knows all of them,
  only advertised addresses remain.
\<close>

theorem clients_see_advertised_coordinators:
  assumes "(system_step compute)\<^sup>*\<^sup>* (startSystem procs cfg topo side) s" "byNodeID topo \<noteq> []"
    and "syConns s cl = Some r" "rnUp r = Running" "poolEnv (gwPool (syGw s)) env0"
    and "ReadFrame (coClientR (rnConn r)) (coUpBuf (rnConn r)) = Inr (req, b0, rd0)" "DecodeRequestHeader req = Inr h"
    and "APIKey h = APIFindCoordinator"
    and "upstreamPump (productionHooks env0) pe0 (rnConn (liveRun s r)) (liveIc s) = (None, c0, i0)"
    and "(waiting compute cl (CorrelID h) (peSent pe0 + pendingMaxAge))\<^sup>*\<^sup>*
      (storeRun cl (upStep (productionHooks env0) pe0 (liveRun s r)) s) s'"
    and "syConns s' cl = Some r'"
    and "ReadFrame (coBrokerR (rnConn r')) (coDownBuf (rnConn r')) = Inr (body, b, rd)" "PeekResponseCorrelID body = Inr (CorrelID h)"
    and "advertisedFit (IsFlexibleResponse APIFindCoordinator (APIVersion h)) topo"
    and "downstreamPump (productionHooks env) pe (rnConn (liveRun s' r')) (liveIc s') = (None, c, i)"
  shows "written (coBrokerW c0) = written (coBrokerW (rnConn r)) @ encFrame req \<and>
    (\<exists>rh bk sent ck. DecodeResponseHeader body APIFindCoordinator (APIVersion h) = Inr rh \<and>
      DecodeFindCoordinatorResponse (drop (RespHeaderSize rh) body) (APIVersion h) = Inr bk \<and>
      written (coClientW c) = written (coClientW (rnConn r')) @
        encFrame (AppendResponseHeader [] APIFindCoordinator (APIVersion h) (CorrelID h) @ sent) \<and>
      DecodeFindCoordinatorResponse sent (APIVersion h) = Inr ck \<and>
      ck = snd (RewriteFindCoordinatorResponse (envFold env) bk (Some topo)) \<and>
      (coordinatorsKnown (envFold env) topo bk \<longrightarrow>
        set (toldEndpoints ck) \<subseteq> snd ` set (byNodeID topo) \<union> snd ` set (byHostPt topo)))"
proof -
  note waited = address_awaited [OF assms(1-7) disjI2 [OF assms(8)] assms(9-11)]
  obtain p where p: "findPending (coTracker (rnConn r')) (CorrelID h) = Some p" "pAPIKey p = APIFindCoordinator" "pAPIVersion p = APIVersion h"
    using waited(2) assms(8) by auto
  note conn = system_conn [OF whole.reachable [OF waited(1)] assms(2,11)]
  from coordinator_delivered [OF conn, of body b rd "CorrelID h" p env pe c i] p assms(12-15) waited(3)
  show ?thesis by (simp add: liveRun_def)
qed

section \<open>What brokers get\<close>

text \<open>A request whose pending entry carries a new body reaches the broker with that body behind its own header.\<close>

lemma spliced_upstream:
  assumes "ReadFrame (coClientR c0) (coUpBuf c0) = Inr (body, b, rd)" "DecodeRequestHeader body = Inr h"
    and "hkOnRequest hk h (drop (HeaderSize h) body) i0 = (Some q, i')" "pRewriteRequest q = Some req"
    and "upstreamPump hk pe c0 i0 = (None, c, i)"
  shows "written (coBrokerW c) = written (coBrokerW c0) @ encFrame (take (HeaderSize h) body @ req)"
proof -
  let ?out = "take (HeaderSize h) body @ req"
  have splice: "spliceRequest h body (stampPending h (peSent pe) q) = ?out"
    using assms(4) by (simp add: spliceRequest_def stampPending_def)
  have dl: "setDeadline pe c0 = None"
    using assms(5) by (auto simp: upstreamPump_def split: option.splits)
  have "\<exists>c1. forwardUp ?out c1 = (None, c) \<and> coBrokerW c1 = coBrokerW c0"
    using assms(5) unfolding upstreamPump_def handleRequest_def Let_def dl assms(1-3) splice
    by (auto simp: dl assms(1-3) splice split: prod.splits if_splits)
  then show ?thesis using forwardUp_written [of ?out] by (metis fst_conv snd_conv)
qed

text \<open>A request without a pending entry reaches the broker as it is.\<close>

lemma passed_upstream:
  assumes "ReadFrame (coClientR c0) (coUpBuf c0) = Inr (body, b, rd)" "DecodeRequestHeader body = Inr h"
    and "fst (hkOnRequest hk h (drop (HeaderSize h) body) i0) = None"
    and "upstreamPump hk pe c0 i0 = (None, c, i)"
  shows "written (coBrokerW c) = written (coBrokerW c0) @ encFrame body"
proof -
  have dl: "setDeadline pe c0 = None"
    using assms(4) by (auto simp: upstreamPump_def split: option.splits)
  obtain i' where req: "hkOnRequest hk h (drop (HeaderSize h) body) i0 = (None, i')"
    using assms(3) by (metis prod.collapse)
  have "\<exists>c1. forwardUp body c1 = (None, c) \<and> coBrokerW c1 = coBrokerW c0"
    using assms(4) by (auto simp: upstreamPump_def handleRequest_def dl assms(1,2) req split: prod.splits)
  then show ?thesis using forwardUp_written [of body] by (metis fst_conv snd_conv)
qed

text \<open>What the planner answers to a leader is the plan of well-formed inputs.\<close>

lemma leader_plan:
  assumes inv: "systemInv (\<lambda>inp. Some (Compute (ord inp) inp)) cfg topo s" and "poolEnv (gwPool (syGw s)) env"
    and "distinct (map saMemberID (sgAssignments sg))"
    and "icSubscription (syIc s) = Some st" "Get_cache (syCache s) = Some snap"
    and "envPlan env (planInputs (liveIc s) st sg) = Inr (pl, dur)"
  shows "wfInputs (planInputs (liveIc s) st sg)" "pl = Compute (ord (planInputs (liveIc s) st sg)) (planInputs (liveIc s) st sg)"
proof -
  have "snapOk snap" "Get_sub st (sgGroup sg) '''' = None" "dMetadata (icDeps (liveIc s)) = Some (Some snap)"
    using inv assms(4,5) by (auto simp: systemInv_def cacheOk_def Get_cache_def storeOk_def reported_def)
  then show "wfInputs (planInputs (liveIc s) st sg)"
    using planInputs_wf [OF _ _ assms(3), of "liveIc s" snap] by (simp add: snapOk_def)
  show "pl = Compute (ord (planInputs (liveIc s) st sg)) (planInputs (liveIc s) st sg)"
    using poolEnv_own [of "\<lambda>inp. Some (Compute (ord inp) inp)", OF _ assms(2,6)] inv by (simp add: systemInv_def)
qed

text \<open>
  C7: what the broker gets for a leader's SyncGroup request.  In every reachable state with a
  published metadata snapshot, when the upstream pump forwards a SyncGroup request that lists distinct members:
  if the planner pool answered in time with a plan that can be encoded, the frame written to the broker
  has the client's header and a body that decodes to the client's request with the same members, and every
  partition, in the snapshot, of every topic that a listed member with a recorded subscription subscribes to stands in
  the assignment of exactly one listed member; if the pool gave no plan (it timed out or is
  closed), the broker gets the leader's own frame, byte for byte.
\<close>

theorem broker_gets_every_partition_once:
  assumes "(system_step (\<lambda>inp. Some (Compute (ord inp) inp)))\<^sup>*\<^sup>* (startSystem procs cfg topo side) s"
    and "poolEnv (gwPool (syGw s)) env" "syConns s cl = Some r"
    and "ReadFrame (coClientR (rnConn r)) (coUpBuf (rnConn r)) = Inr (body, b, rd)" "DecodeRequestHeader body = Inr h"
    and "APIKey h = APISyncGroup" "DecodeSyncGroupRequest (drop (HeaderSize h) body) (APIVersion h) = Inr sg"
    and "distinct (map saMemberID (sgAssignments sg))"
    and "icSubscription (syIc s) = Some st" "Get_cache (syCache s) = Some snap"
    and "a \<in> set (sgAssignments sg)" "Get_sub st (sgGroup sg) (saMemberID a) = Some sub"
    and "t \<in> set (sbTopics sub)" "p \<in> set (mgetOr [] (msByTopic snap) t)"
    and "upstreamPump (productionHooks env) pe (rnConn (liveRun s r)) (liveIc s) = (None, c, i)"
  shows "case envPlan env (planInputs (liveIc s) st sg) of
      Inl e \<Rightarrow> written (coBrokerW c) = written (coBrokerW (rnConn r)) @ encFrame body
    | Inr (pl, dur) \<Rightarrow> planFits env sg pl \<longrightarrow>
        (\<exists>req sg'. written (coBrokerW c) = written (coBrokerW (rnConn r)) @ encFrame (take (HeaderSize h) body @ req) \<and>
          DecodeRequestHeader (take (HeaderSize h) body @ req) = Inr h \<and>
          DecodeSyncGroupRequest req (APIVersion h) = Inr sg' \<and> sg' = sg\<lparr>sgAssignments := sgAssignments sg'\<rparr> \<and>
          map saMemberID (sgAssignments sg') = map saMemberID (sgAssignments sg) \<and>
          (\<exists>!j. j < length (sgAssignments sg') \<and> (t, p) \<in> set (blobPairs (saMemberAssignment (sgAssignments sg' ! j)))))"
proof -
  have inv: "systemInv (\<lambda>inp. Some (Compute (ord inp) inp)) cfg topo s" by (rule whole.reachable [OF assms(1)])
  let ?ic = "liveIc s"
  have store: "icSubscription ?ic = Some st" using assms(9) by simp
  have read: "ReadFrame (coClientR (rnConn (liveRun s r))) (coUpBuf (rnConn (liveRun s r))) = Inr (body, b, rd)"
      "coBrokerW (rnConn (liveRun s r)) = coBrokerW (rnConn r)"
    using assms(4) by (simp_all add: liveRun_def)
  show ?thesis
  proof (cases "envPlan env (planInputs ?ic st sg)")
    case (Inl e)
    have "fst (hkOnRequest (productionHooks env) h (drop (HeaderSize h) body) ?ic) = None"
      using OnRequest_unplanned [OF assms(6) store assms(7) Inl] by (simp add: productionHooks_def)
    from passed_upstream [OF read(1) assms(5) this assms(15)] Inl read(2) show ?thesis by simp
  next
    case (Inr ans)
    obtain pl dur where ans: "envPlan env (planInputs ?ic st sg) = Inr (pl, dur)" using Inr by (cases ans) simp
    have md: "dMetadata (icDeps ?ic) = Some (Some snap)" and planner: "dHasPlanner (icDeps ?ic)"
      using assms(10) inv by (simp_all add: Get_cache_def systemInv_def depsOk_def liveIc_def)
    note wf = leader_plan(1) [OF inv assms(2,8-10) ans] and pl = leader_plan(2) [OF inv assms(2,8-10) ans]
    have range: "mset (envRange env m) = mset m" for m using assms(2) by (simp add: poolEnv_def)
    show ?thesis unfolding ans sum.case prod.case
    proof (intro impI)
      assume fits: "planFits env sg pl"
      let ?req = "AppendSyncGroupRequest [] (plannedRequest env sg pl)"
      note once = planned_once [OF assms(8) wf md pl fits range assms(11-14)]
      note decoded = planned_reencoded [OF assms(7) fits]
      obtain i' where "hkOnRequest (productionHooks env) h (drop (HeaderSize h) body) ?ic = (Some (newPending h None (Some ?req)), i')"
        using OnRequest_syncgroup [OF assms(6) planner store assms(7) once(1,2) ans]
        by (simp add: productionHooks_def) (metis prod.collapse)
      then have "written (coBrokerW c) = written (coBrokerW (rnConn r)) @ encFrame (take (HeaderSize h) body @ ?req)"
        using spliced_upstream [OF read(1) assms(5) _ _ assms(15), of _ i' ?req] read(2) by (simp add: newPending_def)
      moreover have "map saMemberID (sgAssignments (plannedRequest env sg pl)) = map saMemberID (sgAssignments sg)"
        "plannedRequest env sg pl = sg\<lparr>sgAssignments := sgAssignments (plannedRequest env sg pl)\<rparr>"
        by (simp_all add: plannedRequest_def comp_def)
      ultimately show "\<exists>req sg'. written (coBrokerW c) = written (coBrokerW (rnConn r)) @ encFrame (take (HeaderSize h) body @ req) \<and>
          DecodeRequestHeader (take (HeaderSize h) body @ req) = Inr h \<and>
          DecodeSyncGroupRequest req (APIVersion h) = Inr sg' \<and> sg' = sg\<lparr>sgAssignments := sgAssignments sg'\<rparr> \<and>
          map saMemberID (sgAssignments sg') = map saMemberID (sgAssignments sg) \<and>
          (\<exists>!j. j < length (sgAssignments sg') \<and> (t, p) \<in> set (blobPairs (saMemberAssignment (sgAssignments sg' ! j))))"
        using decoded once(3) DecodeRequestHeader_splice [OF assms(5)] by blast
    qed
  qed
qed

section \<open>Members of a group\<close>

definition recorded :: "string \<Rightarrow> string \<Rightarrow> Interceptor \<Rightarrow> bool" where
  "recorded g m ic \<longleftrightarrow> (\<exists>st. icSubscription ic = Some st \<and> Get_sub st g m \<noteq> None)"

lemma recorded_step: "system_step compute s s' \<Longrightarrow> recorded g m (syIc s) \<Longrightarrow> recorded g m (syIc s')"
proof (induction rule: system_step.induct)
  case (conn s cl r env r')
  have "recorded g m (rnIc r')"
  proof (rule run_step_keeps [OF conn(3)])
    show "recorded g m (rnIc (liveRun s r))" using conn(5) by (simp add: recorded_def)
    show "recorded g m (snd (OnRequest env h body ic))" if "recorded g m ic" for h body ic
    proof -
      have "Get_sub (snd (Put now st sub)) g m \<noteq> None" if "Get_sub st g m \<noteq> None" for now st sub
        using that by (simp add: Put_get)
      then show ?thesis
        using that OnRequest_store [of "\<lambda>st. Get_sub st g m \<noteq> None" _ ic env h body] unfolding recorded_def by blast
    qed
  qed (simp add: recorded_def applyRewrite_store)
  then show ?case by (simp add: recorded_def)
qed (simp_all add: recorded_def)

text \<open>
  A member once recorded stays recorded: no later step of the gateway, not even the end of its
  connection, removes its subscription, so every later plan of its group counts with it.
\<close>

theorem members_are_never_forgotten:
  assumes "(system_step compute)\<^sup>*\<^sup>* s s'" "icSubscription (syIc s) = Some st" "Get_sub st g m \<noteq> None"
  shows "\<exists>st'. icSubscription (syIc s') = Some st' \<and> Get_sub st' g m \<noteq> None"
proof -
  have "recorded g m (syIc s')"
    using assms(1) by (induction rule: rtranclp_induct) (use assms(2,3) recorded_step in \<open>auto simp: recorded_def\<close>)
  then show ?thesis by (simp add: recorded_def)
qed

text \<open>
  A listed member that the store does not know gets nothing: its own assignment by the leader is
  replaced by an empty one.
\<close>

lemma unknown_member_emptied:
  assumes "wfInputs (planInputs ic st sg)" "pl = Compute ord (planInputs ic st sg)"
    and "planFits env sg pl" "\<And>m. mset (envRange env m) = mset m"
    and "j < length (sgAssignments sg)" "Get_sub st (sgGroup sg) (saMemberID (sgAssignments sg ! j)) = None"
  shows "blobPairs (saMemberAssignment (sgAssignments (plannedRequest env sg pl) ! j)) = []"
proof -
  let ?mid = "saMemberID (sgAssignments sg ! j)" and ?blob = "saMemberAssignment (sgAssignments (plannedRequest env sg pl) ! j)"
  have "(t, p) \<notin> set (blobPairs ?blob)" for t p
  proof
    assume "(t, p) \<in> set (blobPairs ?blob)"
    moreover have "fitsAssignment (plannedAssignment env (mgetOr [] pl ?mid))" "wfmap (mgetOr [] pl ?mid)"
      using assms(3,5) Compute_exact [OF assms(1), of ord] assms(2) by (simp_all add: planFits_def list_all_length Let_def mget_wfplan)
    ultimately have "p \<in> set (partsOf pl ?mid t)"
      using blobPairs_planned [OF _ assms(4)] assms(5) by (simp add: plannedRequest_def partsOf_def)
    then have "?mid \<in> mMemberID ` set (inMembers (planInputs ic st sg))"
      using Compute_sound [OF assms(1), of p ord ?mid t] assms(2) by (auto intro: rev_image_eqI)
    then show False using assms(6) by (auto simp: planInputs_def Let_def member_topics)
  qed
  then show ?thesis by (metis list.set_intros(1) neq_Nil_conv surj_pair)
qed

section \<open>What operators see\<close>

text \<open>
  C36: every group with a recorded subscription is polled: in every reachable state the registry that
  the store's callback fills lists every group of which the store holds a member, and no record is
  kept for a nameless member.
\<close>

theorem subscribed_groups_polled:
  assumes "(system_step compute)\<^sup>*\<^sup>* (startSystem procs cfg topo side) s" "icSubscription (syIc s) = Some st"
    and "Get_sub st g m \<noteq> None"
  shows "g \<in> set (polledGroups s) \<and> m \<noteq> ''''"
proof -
  have "reported st"
    using whole.reachable [OF assms(1)] assms(2) by (auto simp: systemInv_def storeOk_def)
  then show ?thesis
    using assms(2,3) by (force simp: reported_def polledGroups_def onChange_groups)
qed

lemma running_gauges:
  assumes "(system_step compute)\<^sup>*\<^sup>* (startSystem procs cfg topo side) s"
  shows "\<exists>mx. icMetrics (syIc s) = Some mx \<and> ConnActive mx = of_nat (card (dom (syConns s))) \<and>
    MetadataRefreshErrors mx + of_bool (reporting (syCache s)) = cErrors (syCache s)"
  using whole.reachable [OF assms] by (auto simp: systemInv_def gaugesOk_def outerGauges_def)

text \<open>
  C37: the gauges tell the truth.  In every reachable state \<open>ConnActive\<close> is the number of connections
  between their \<open>OnConnStart\<close> and their \<open>OnConnEnd\<close>, all of them connections that the accept loop runs and
  has not seen the end of; \<open>ErrorsTotal\<close> of the cache is the number of refreshes of \<open>Run\<close> that failed, less
  the one that has just returned and is not yet counted; \<open>MetadataRefreshErrors\<close> is the same number, less the
  one that is not yet counted or not yet reported.  All counts are modulo \<open>2\<^sup>6\<^sup>4\<close>.
\<close>

theorem gauges_tell_the_truth:
  assumes "(system_step compute)\<^sup>*\<^sup>* (startSystem procs cfg topo side) s"
  shows "\<exists>mx. icMetrics (syIc s) = Some mx \<and> ConnActive mx = of_nat (card (dom (syConns s))) \<and>
    dom (syConns s) \<subseteq> svRunning (gwServe (syGw s)) - dom (syFinished s) \<and>
    ErrorsTotal (syCache s) + of_bool (uncounted (syCache s)) = of_nat (runFailures (syCache s)) \<and>
    MetadataRefreshErrors mx + of_bool (uncounted (syCache s) \<or> reporting (syCache s)) = of_nat (runFailures (syCache s))"
proof -
  have inv: "connected s" "errorsOk (syCache s)" using whole.reachable [OF assms] by (simp_all add: systemInv_def)
  obtain mx where mx: "icMetrics (syIc s) = Some mx" "ConnActive mx = of_nat (card (dom (syConns s)))"
      "MetadataRefreshErrors mx + of_bool (reporting (syCache s)) = cErrors (syCache s)"
    using running_gauges [OF assms] by blast
  have "\<not> (uncounted (syCache s) \<and> reporting (syCache s))"
    by (auto simp: uncounted_def reporting_def split: phase.splits)
  then have "MetadataRefreshErrors mx + of_bool (uncounted (syCache s) \<or> reporting (syCache s)) = of_nat (runFailures (syCache s))"
    using mx(3) inv(2) by (auto simp: errorsOk_def failuresCounted_def)
  then show ?thesis
    using mx(1,2) inv by (auto simp: connected_def errorsOk_def failuresCounted_def ErrorsTotal_def)
qed

text \<open>
  C35: a shutdown of the whole gateway is orderly.  The sockets of a connection are closed only because one
  of its own pumps stopped, or a subsystem has failed (its error group then cancels every connection at
  once), or the drain has ended or timed out; when the program returns, no connection is left, neither
  running nor about to end, the pool is closed, and every client that was ever accepted has been served to
  its end or closed.
\<close>

theorem shutdown_is_orderly:
  assumes "(system_step compute)\<^sup>*\<^sup>* (startSystem procs cfg topo side) s"
  shows "(\<forall>cl r. syConns s cl = Some r \<and> rnClosed r \<longrightarrow> (\<exists>e. rnUp r = Exited e \<or> rnDown r = Exited e) \<or>
      gwFailed (syGw s) \<or> gwPhase (syGw s) \<in> {WaitingAll, Returned_main}) \<and>
    (gwPhase (syGw s) = Returned_main \<longrightarrow> syConns s = Map.empty \<and> syFinished s = Map.empty \<and> plClosed (gwPool (syGw s)) \<and>
      {..<svNext (gwServe (syGw s))} = svClosed (gwServe (syGw s)) \<union> svEnded (gwServe (syGw s)))"
proof -
  have inv: "gateway_inv (listenerConfig cfg) (syGw s)" "connected s"
    using whole.reachable [OF assms] by (simp_all add: systemInv_def)
  have "\<exists>e. rnUp r = Exited e \<or> rnDown r = Exited e"
    if "gwPhase (syGw s) \<notin> {WaitingAll, Returned_main}" "\<not> gwFailed (syGw s)" "syConns s cl = Some r" "rnClosed r" for cl r
  proof -
    have "\<not> svCancelled (gwServe (syGw s))" using inv(1) that(1,2) by (auto simp: gateway_inv_def)
    then have "errInv r" "\<not> rnCtxDone r" using inv(2) that(3) by (auto simp: connected_def)
    then have "errInv r \<and> rnErrCh r \<noteq> []" using that(4) by (simp add: errInv_def)
    then show ?thesis by (cases "rnErrCh r") (auto simp: errInv_def)
  qed
  moreover have "syConns s = Map.empty \<and> syFinished s = Map.empty \<and> plClosed (gwPool (syGw s)) \<and>
      {..<svNext (gwServe (syGw s))} = svClosed (gwServe (syGw s)) \<union> svEnded (gwServe (syGw s))"
    if "gwPhase (syGw s) = Returned_main"
    using inv that by (auto simp: gateway_inv_def connected_def loop_inv_def clients_inv_def)
  ultimately show ?thesis by blast
qed

end
