(* ===== verification/Flags.thy ===== *)
theory Flags
  imports System
begin

text \<open>
  The command line of \<open>cmd/kproxy/main.go\<close>: the flags that \<open>run\<close> declares, read the way package
  \<open>flag\<close> reads them, and \<open>main\<close> with its exit status.  The values are parsed by the functions of
  package \<open>strconv\<close> in base 0 and by \<open>time.ParseDuration\<close>; what the fraction digits of a duration
  add, a computation in floating point, is the parameter \<open>frac\<close>.
\<close>

section \<open>Integers in base 0\<close>

definition lowerDigit :: "char \<Rightarrow> int option" where
  "lowerDigit c =
     (let n = of_char (lowerA c) in
      if 48 \<le> n \<and> n \<le> (57 :: int) then Some (n - 48)
      else if 97 \<le> n \<and> n \<le> 122 then Some (n - 97 + 10)
      else None)"

text \<open>The digit loop of \<open>ParseUint\<close>: underscores are skipped, a digit beyond the base is an error.\<close>

fun baseDigits :: "int \<Rightarrow> int \<Rightarrow> string \<Rightarrow> int option" where
  "baseDigits base acc [] = Some acc"
| "baseDigits base acc (c # cs) =
     (if c = CHR ''_'' then baseDigits base acc cs
      else case lowerDigit c of
             None \<Rightarrow> None
           | Some d \<Rightarrow> if d \<ge> base then None else baseDigits base (acc * base + d) cs)"

definition splitBase :: "string \<Rightarrow> int \<times> string" where
  "splitBase s =
     (if s \<noteq> [] \<and> hd s = CHR ''0'' then
        (if length s \<ge> 3 \<and> lowerA (s ! 1) = CHR ''b'' then (2, drop 2 s)
         else if length s \<ge> 3 \<and> lowerA (s ! 1) = CHR ''o'' then (8, drop 2 s)
         else if length s \<ge> 3 \<and> lowerA (s ! 1) = CHR ''x'' then (16, drop 2 s)
         else (8, drop 1 s))
      else (10, s))"

datatype lastSeen = SawStart | SawDigit | SawUnderscore | SawOther

fun underscoreLoop :: "bool \<Rightarrow> lastSeen \<Rightarrow> string \<Rightarrow> bool" where
  "underscoreLoop hex i [] \<longleftrightarrow> i \<noteq> SawUnderscore"
| "underscoreLoop hex i (c # cs) \<longleftrightarrow>
     (if (case lowerDigit c of Some d \<Rightarrow> d < 10 \<or> hex \<and> d < 16 | None \<Rightarrow> False) then underscoreLoop hex SawDigit cs
      else if c = CHR ''_'' then i = SawDigit \<and> underscoreLoop hex SawUnderscore cs
      else i \<noteq> SawUnderscore \<and> underscoreLoop hex SawOther cs)"

definition underscoreOK :: "string \<Rightarrow> bool" where
  "underscoreOK s =
     (if length s \<ge> 2 \<and> hd s = CHR ''0'' \<and> lowerA (s ! 1) \<in> set ''box''
      then underscoreLoop (lowerA (s ! 1) = CHR ''x'') SawDigit (drop 2 s)
      else underscoreLoop False SawStart s)"

text \<open>\<open>ParseInt(s, 0, 64)\<close>: None stands for a syntax or a range error.\<close>

definition ParseInt64 :: "string \<Rightarrow> int option" where
  "ParseInt64 s =
     (let neg = (s \<noteq> [] \<and> hd s = CHR ''-'');
          s0 = (if s \<noteq> [] \<and> (hd s = CHR ''-'' \<or> hd s = CHR ''+'') then tl s else s)
      in if s0 = [] then None
         else let (base, ds) = splitBase s0
              in case baseDigits base 0 ds of
                   None \<Rightarrow> None
                 | Some n \<Rightarrow>
                     if CHR ''_'' \<in> set ds \<and> \<not> underscoreOK s0 then None
                     else let i = (if neg then - n else n)
                          in if - (2 ^ 63) \<le> i \<and> i < 2 ^ 63 then Some i else None)"

section \<open>Durations\<close>

definition unitMap :: "(string \<times> int) list" where
  "unitMap = [(''ns'', 1), (''us'', 1000), (byteStr [0xC2, 0xB5] @ ''s'', 1000), (byteStr [0xCE, 0xBC] @ ''s'', 1000),
     (''ms'', 1000000), (''s'', 10 ^ 9), (''m'', 60 * 10 ^ 9), (''h'', 3600 * 10 ^ 9)]"

text \<open>One pass of the loop: a number, an optional fraction and a unit; the result is the duration that
  it adds, and what is left of the string.\<close>

definition durationTerm :: "(string \<Rightarrow> int \<Rightarrow> int) \<Rightarrow> string \<Rightarrow> (int \<times> string) option" where
  "durationTerm frac s =
     (let ds = takeWhile isDigit s; r = dropWhile isDigit s; v = the (parseDigits 0 ds);
          dot = (r \<noteq> [] \<and> hd r = CHR ''.'');
          fs = (if dot then takeWhile isDigit (tl r) else []);
          r1 = (if dot then dropWhile isDigit (tl r) else r);
          u = takeWhile (\<lambda>c. c \<noteq> CHR ''.'' \<and> \<not> isDigit c) r1
      in if v > 2 ^ 63 \<or> ds = [] \<and> fs = [] \<or> u = [] then None
         else case map_of unitMap u of
                None \<Rightarrow> None
              | Some unit \<Rightarrow>
                  if v > 2 ^ 63 div unit then None
                  else let v1 = v * unit + (if list_all (\<lambda>c. c = CHR ''0'') fs then 0 else frac fs unit)
                       in if v1 > 2 ^ 63 then None else Some (v1, drop (length u) r1))"

lemma durationTerm_shorter:
  assumes "durationTerm frac s = Some (v, r)"
  shows "length r < length s"
proof -
  let ?r = "dropWhile isDigit s" and ?p = "\<lambda>c. c \<noteq> CHR ''.'' \<and> \<not> isDigit c"
  let ?r1 = "if ?r \<noteq> [] \<and> hd ?r = CHR ''.'' then dropWhile isDigit (tl ?r) else ?r"
  have "length ?r1 \<le> length ?r"
    using length_dropWhile_le [of isDigit "tl ?r"] by auto
  then have "length ?r1 \<le> length s" using length_dropWhile_le [of isDigit s] by (rule order_trans)
  moreover have "takeWhile ?p ?r1 \<noteq> []" "r = drop (length (takeWhile ?p ?r1)) ?r1"
    using assms by (auto simp: durationTerm_def Let_def split: if_splits option.splits)
  then have "length r < length ?r1"
    by (cases ?r1) (auto simp del: dropWhile_eq_drop)
  ultimately show ?thesis by simp
qed

function durationTerms :: "(string \<Rightarrow> int \<Rightarrow> int) \<Rightarrow> int \<Rightarrow> string \<Rightarrow> int option" where
  "durationTerms frac d s =
     (if s = [] then Some d
      else case durationTerm frac s of
             None \<Rightarrow> None
           | Some (v, r) \<Rightarrow> if d + v > 2 ^ 63 then None else durationTerms frac (d + v) r)"
  by pat_completeness auto
termination
  by (relation "measure (\<lambda>(frac, d, s). length s)") (auto dest: durationTerm_shorter)

declare durationTerms.simps [simp del]

definition ParseDuration :: "(string \<Rightarrow> int \<Rightarrow> int) \<Rightarrow> string \<Rightarrow> int option" where
  "ParseDuration frac s0 =
     (let neg = (s0 \<noteq> [] \<and> hd s0 = CHR ''-'');
          s = (if s0 \<noteq> [] \<and> (hd s0 = CHR ''-'' \<or> hd s0 = CHR ''+'') then tl s0 else s0)
      in if s = ''0'' then Some 0
         else if s = '''' then None
         else case durationTerms frac 0 s of
                None \<Rightarrow> None
              | Some d \<Rightarrow> if neg then Some (- d) else if d > 2 ^ 63 - 1 then None else Some d)"

definition ParseBool :: "string \<Rightarrow> bool option" where
  "ParseBool s =
     (if s \<in> set [''1'', ''t'', ''T'', ''true'', ''TRUE'', ''True''] then Some True
      else if s \<in> set [''0'', ''f'', ''F'', ''false'', ''FALSE'', ''False''] then Some False
      else None)"

section \<open>Flags\<close>

text \<open>The flags of \<open>run\<close>, each with the field that its value is stored in.\<close>

definition flagTable :: "(string \<Rightarrow> int \<Rightarrow> int) \<Rightarrow> (string \<times> (string \<Rightarrow> config \<Rightarrow> config option)) list" where
  "flagTable frac =
     [(''listen'', \<lambda>v cfg. Some (cfg\<lparr>cfListen := v\<rparr>)),
      (''broker'', \<lambda>v cfg. Some (cfg\<lparr>cfBroker := v\<rparr>)),
      (''bootstrap'', \<lambda>v cfg. Some (cfg\<lparr>cfBootstrap := v\<rparr>)),
      (''admin'', \<lambda>v cfg. Some (cfg\<lparr>cfAdmin := v\<rparr>)),
      (''topology'', \<lambda>v cfg. Some (cfg\<lparr>cfTopologyFlag := v\<rparr>)),
      (''topology-file'', \<lambda>v cfg. Some (cfg\<lparr>cfTopologyFile := v\<rparr>)),
      (''conn-limit'', \<lambda>v cfg. map_option (\<lambda>n. cfg\<lparr>cfConnLimit := n\<rparr>) (ParseInt64 v)),
      (''frame-max'', \<lambda>v cfg. map_option (\<lambda>n. cfg\<lparr>cfFrameMax := n\<rparr>) (ParseInt64 v)),
      (''idle'', \<lambda>v cfg. map_option (\<lambda>d. cfg\<lparr>cfIdleTimeout := d\<rparr>) (ParseDuration frac v)),
      (''plan-timeout'', \<lambda>v cfg. map_option (\<lambda>d. cfg\<lparr>cfPlanTimeout := d\<rparr>) (ParseDuration frac v)),
      (''refresh'', \<lambda>v cfg. map_option (\<lambda>d. cfg\<lparr>cfRefresh := d\<rparr>) (ParseDuration frac v)),
      (''telemetry'', \<lambda>v cfg. map_option (\<lambda>d. cfg\<lparr>cfTelemetryEv := d\<rparr>) (ParseDuration frac v)),
      (''dial-timeout'', \<lambda>v cfg. map_option (\<lambda>d. cfg\<lparr>cfDialTimeout := d\<rparr>) (ParseDuration frac v)),
      (''drain-timeout'', \<lambda>v cfg. map_option (\<lambda>d. cfg\<lparr>cfDrainTimeout := d\<rparr>) (ParseDuration frac v)),
      (''planner-workers'', \<lambda>v cfg. map_option (\<lambda>n. cfg\<lparr>cfPlannerWorker := n\<rparr>) (ParseInt64 v)),
      (''planner-queue'', \<lambda>v cfg. map_option (\<lambda>n. cfg\<lparr>cfPlannerQueue := n\<rparr>) (ParseInt64 v)),
      (''subscription-cap'', \<lambda>v cfg. map_option (\<lambda>n. cfg\<lparr>cfSubMax := n\<rparr>) (ParseInt64 v)),
      (''client-id'', \<lambda>v cfg. Some (cfg\<lparr>cfClientID := v\<rparr>)),
      (''enable-pprof'', \<lambda>v cfg. map_option (\<lambda>b. cfg\<lparr>cfEnablePprof := b\<rparr>) (ParseBool v)),
      (''health-max-metadata-age'', \<lambda>v cfg. map_option (\<lambda>d. cfg\<lparr>cfHealthMaxAge := d\<rparr>) (ParseDuration frac v))]"

datatype argument = Positional | BadSyntax | Flag string "string option"

text \<open>How one argument reads: \<open>-name\<close>, \<open>--name\<close> or either with \<open>=value\<close>; anything else ends the flags.\<close>

definition readArg :: "string \<Rightarrow> argument" where
  "readArg s =
     (if length s < 2 \<or> hd s \<noteq> CHR ''-'' \<or> s = ''--'' then Positional
      else let name = (if s ! 1 = CHR ''-'' then drop 2 s else drop 1 s) in
        if name = [] \<or> hd name = CHR ''-'' \<or> hd name = CHR ''='' then BadSyntax
        else case indexByte name (CHR ''='') of
               None \<Rightarrow> Flag name None
             | Some i \<Rightarrow> Flag (take i name) (Some (drop (i + 1) name)))"

text \<open>\<open>flag.Parse\<close> on the arguments: the configuration, or the status that the process exits with.\<close>

fun parseArgs :: "(string \<Rightarrow> int \<Rightarrow> int) \<Rightarrow> string list \<Rightarrow> config \<Rightarrow> nat + config" where
  "parseArgs frac [] cfg = Inr cfg"
| "parseArgs frac (s # args) cfg =
     (case readArg s of
        Positional \<Rightarrow> Inr cfg
      | BadSyntax \<Rightarrow> Inl 2
      | Flag name value \<Rightarrow>
          (case map_of (flagTable frac) name of
             None \<Rightarrow> Inl (if name = ''help'' \<or> name = ''h'' then 0 else 2)
           | Some setter \<Rightarrow>
               if name = ''enable-pprof'' then
                 (case setter (case value of None \<Rightarrow> ''true'' | Some v \<Rightarrow> v) cfg of
                    None \<Rightarrow> Inl 2
                  | Some cfg' \<Rightarrow> parseArgs frac args cfg')
               else
                 (case value of
                    Some v \<Rightarrow> (case setter v cfg of None \<Rightarrow> Inl 2 | Some cfg' \<Rightarrow> parseArgs frac args cfg')
                  | None \<Rightarrow>
                      (case args of
                         [] \<Rightarrow> Inl 2
                       | v # rest \<Rightarrow> (case setter v cfg of None \<Rightarrow> Inl 2 | Some cfg' \<Rightarrow> parseArgs frac rest cfg')))))"

text \<open>\<open>main\<close> up to the moment the gateway runs, or the status that it exits with.\<close>

definition startProgram :: "(string \<Rightarrow> int \<Rightarrow> int) \<Rightarrow> BootEnv \<Rightarrow> string list \<Rightarrow> nat + System" where
  "startProgram frac be args =
     (case parseArgs frac args flagDefaults of
        Inl code \<Rightarrow> Inl code
      | Inr cfg \<Rightarrow> (case boot be cfg of Inl _ \<Rightarrow> Inl 1 | Inr s \<Rightarrow> Inr s))"

section \<open>Integer flags\<close>

lemma digit_facts:
  assumes "isDigit c"
  shows "lowerDigit c = digitVal c" "c \<noteq> CHR ''_''" "c \<noteq> CHR ''-''" "c \<noteq> CHR ''+''" "\<And>d. digitVal c = Some d \<Longrightarrow> d < 10"
proof -
  have "48 \<le> (of_char c :: int)" "(of_char c :: int) \<le> 57"
    using assms by (auto simp: isDigit_def digitVal_def Let_def split: if_splits)
  then show "lowerDigit c = digitVal c" by (simp add: lowerDigit_def digitVal_def lowerA_def isUpperA_def Let_def)
qed (use assms in \<open>auto simp: isDigit_def digitVal_def Let_def split: if_splits\<close>)

lemma baseDigits_decimal: "list_all isDigit s \<Longrightarrow> baseDigits 10 acc s = parseDigits acc s"
  by (induction s arbitrary: acc) (auto simp: digit_facts dest: digit_facts(5) split: option.splits)

lemma intDigits_hd: "0 < n \<Longrightarrow> hd (intDigits n) \<noteq> CHR ''0''"
proof (induction n rule: intDigits.induct)
  case (1 n)
  show ?case
  proof (cases "n < 10")
    case True
    then have "digitVal (digitChar n) \<noteq> digitVal (CHR ''0'')" using 1 by (simp add: digitVal_digitChar) (simp add: digitVal_def)
    then show ?thesis using True by (subst intDigits.simps) auto
  next
    case False
    then have "intDigits (n div 10) \<noteq> []" "hd (intDigits (n div 10)) \<noteq> CHR ''0''"
      using intDigits_ok [of "n div 10"] 1 by auto
    then show ?thesis using False by (subst intDigits.simps) simp
  qed
qed

text \<open>A printed integer is read back in base 0: it never looks like an octal number.\<close>

lemma ParseInt64_Itoa:
  assumes "- (2 ^ 63) \<le> i" "i < 2 ^ 63"
  shows "ParseInt64 (Itoa i) = Some i"
proof (cases "i = 0")
  case True
  moreover have "ParseInt64 (Itoa 0) = Some 0" by code_simp
  ultimately show ?thesis by simp
next
  case False
  define n where "n = abs i"
  have n: "0 < n" using False by (simp add: n_def)
  note d = intDigits_ok [of n] intDigits_hd [OF n]
  have digits: "list_all isDigit (intDigits n)" "intDigits n \<noteq> []" using d n by auto
  then have "isDigit (hd (intDigits n))" "CHR ''_'' \<notin> set (intDigits n)" using digit_facts(2) by (auto simp: list_all_iff)
  then have "splitBase (intDigits n) = (10, intDigits n)" "hd (intDigits n) \<noteq> CHR ''-''" "hd (intDigits n) \<noteq> CHR ''+''"
    using d(2) digit_facts by (auto simp: splitBase_def)
  then show ?thesis
    using assms digits d(1) n \<open>CHR ''_'' \<notin> set (intDigits n)\<close>
    by (cases "i < 0") (simp_all add: ParseInt64_def Itoa_def n_def baseDigits_decimal)
qed

end
