(* ===== verification/Scenario.thy ===== *)
theory Scenario
  imports DemoClients SystemCorrect Flags
begin

text \<open>
  \<open>example/scenario/main.go\<close>: the demonstration that starts kproxy, runs consumers through it, kills one
  of them and prints what the proxy's metrics endpoint says.  The answers of the operating system, of
  the HTTP client and of the franz-go library are arguments.  The theorems tie it to the proxy: the
  arguments it passes start a gateway with exactly its mapping, and what it prints of the metrics are
  the counters of the running system.
\<close>

section \<open>Starting kproxy\<close>

record ScenarioFlags =
  sfKproxyBin :: string
  sfBroker :: string
  sfListen :: string
  sfAdmin :: string
  sfNodeID :: int
  sfTopic :: string
  sfGroup :: string
  sfConsumers :: int
  sfDuration :: int
  sfKillAfter :: int
  sfSlow :: int
  sfSkipKproxy :: bool

definition scenarioDefaults :: ScenarioFlags where
  "scenarioDefaults = \<lparr>sfKproxyBin = ''../bin/kproxy'', sfBroker = ''localhost:9094'', sfListen = ''127.0.0.1:19094'',
     sfAdmin = ''127.0.0.1:9099'', sfNodeID = 1, sfTopic = ''event-tracking_track-events-approved'',
     sfGroup = ''scenario-group'', sfConsumers = 4, sfDuration = 60 * oneSecond, sfKillAfter = 25 * oneSecond,
     sfSlow = 0, sfSkipKproxy = False\<rparr>"

definition topoArg :: "ScenarioFlags \<Rightarrow> string" where
  "topoArg f = Itoa (sfNodeID f) @ ''='' @ sfBroker f @ ''='' @ sfListen f"

definition kproxyArgs :: "ScenarioFlags \<Rightarrow> string list" where
  "kproxyArgs f =
     [''-broker'', sfBroker f, ''-listen'', sfListen f, ''-admin'', sfAdmin f, ''-topology'', topoArg f,
      ''-telemetry'', ''5s'', ''-refresh'', ''10s'']"

text \<open>The lines of the subprocess, each behind a prefix; empty ones are dropped.\<close>

fun prefixLines :: "string \<Rightarrow> string \<Rightarrow> string list \<Rightarrow> string" where
  "prefixLines prefix w [] = w"
| "prefixLines prefix w (line # lines) =
     (if line = '''' then prefixLines prefix w lines
      else prefixLines prefix (w @ prefix @ line @ [newline]) lines)"

definition Write_prefix :: "string \<Rightarrow> string \<Rightarrow> string \<Rightarrow> nat \<times> string" where
  "Write_prefix prefix b w = (length b, prefixLines prefix w (SplitByte newline b))"

text \<open>One attempt of \<open>waitReady\<close> is the status of the response, if there is one, and whether the deadline
  or the interval of 200 ms ends the wait; no result means that it is still trying.\<close>

fun waitReady :: "(nat option \<times> string option) list \<Rightarrow> string option option" where
  "waitReady [] = None"
| "waitReady ((resp, expired) # attempts) =
     (if resp = Some 200 then Some None
      else case expired of Some e \<Rightarrow> Some (Some e) | None \<Rightarrow> waitReady attempts)"

section \<open>Reading the metrics\<close>

definition HasPrefix :: "string \<Rightarrow> string \<Rightarrow> bool" where
  "HasPrefix s prefix \<longleftrightarrow> take (length prefix) s = prefix"

fun pluckLines :: "string \<Rightarrow> string list \<Rightarrow> string" where
  "pluckLines key [] = ''''"
| "pluckLines key (line # lines) =
     (if \<not> HasPrefix line key then pluckLines key lines else TrimSpace (drop (length key) line))"

definition pluck :: "string \<Rightarrow> string \<Rightarrow> string" where
  "pluck txt key = pluckLines key (SplitByte newline txt)"

definition scrapeKeys :: "string list" where
  "scrapeKeys = [''kproxy_intercepts_total{outcome='' @ [quote] @ ''any'' @ [quote] @ ''}'', ''kproxy_plan_count_total'',
     ''kproxy_unmapped_brokers_total'', ''kproxy_conn_active'']"

text \<open>The response is the status and the body of the GET, if it succeeded.\<close>

definition scrapeMetrics :: "string \<Rightarrow> (nat \<times> string) option \<Rightarrow> string" where
  "scrapeMetrics admin resp =
     (if admin = '''' then ''''
      else case resp of
             None \<Rightarrow> ''''
           | Some (status, body) \<Rightarrow>
               if status \<noteq> 200 then ''''
               else concat (map (\<lambda>k. let v = pluck body k in if v \<noteq> '''' then k @ ''='' @ v @ '' '' else '''') scrapeKeys))"

definition summary :: "int64 list \<Rightarrow> string \<Rightarrow> (nat \<times> string) option \<Rightarrow> string" where
  "summary totals admin resp =
     (let parts = map (\<lambda>(i, n). ''c'' @ Itoa (int i) @ ''='' @ Itoa (sint n)) (enumerate 0 totals)
      in ''totals: '' @ fmtSlice (sort parts) @ '' sum='' @ Itoa (sint (sum_list totals)) @ '' '' @ scrapeMetrics admin resp)"

section \<open>The run\<close>

text \<open>The verb \<open>%v\<close> on a map: sorted by key.\<close>

definition fmtMap :: "(string \<times> int32 list) list \<Rightarrow> string" where
  "fmtMap m =
     ''map['' @ joinWith '' '' (map (\<lambda>(t, ps). t @ '':'' @ fmtSlice (map (\<lambda>p. Itoa (sint p)) ps)) (sort_key fst m)) @ '']''"

definition scenarioOpts :: "ScenarioFlags \<Rightarrow> string \<Rightarrow> kgoOpt list" where
  "scenarioOpts f cid =
     [SeedBrokers [sfListen f], KgoClientID (''scenario-'' @ cid), ConsumerGroup (sfGroup f), ConsumeTopics (sfTopic f),
      CooperativeStickyBalancer, AutoCommitInterval (3 * oneSecond), SessionTimeout (15 * oneSecond),
      OnPartitionsAssigned (\<lambda>m. tagged cid (''+'' @ fmtMap m)), OnPartitionsRevoked (\<lambda>m. tagged cid (''-'' @ fmtMap m))]"

datatype workerPhase = Connecting | Checking | Polling | Counting nat | Ended

record Worker =
  woPhase :: workerPhase
  woCount :: int64
  woSlept :: int
  woConnected :: bool
  woCommits :: nat

record Scenario =
  scRoot :: bool
  scKilled :: bool
  scKillArmed :: bool
  scTimerArmed :: bool
  scTicking :: bool
  scWorkers :: "Worker list"
  scKproxy :: bool
  scDone :: bool
  scLog :: "string list"

datatype scenarioExit = SpawnFailed string | NotReady string | NegativeConsumers

text \<open>
  The start, with the exit and whether kproxy is left running: \<open>Fatalf\<close> does not run the deferred
  function that stops the subprocess, a panic does.
\<close>

definition startScenario ::
  "ScenarioFlags \<Rightarrow> string option \<Rightarrow> string option \<Rightarrow> scenarioExit \<times> bool + Scenario" where
  "startScenario f spawnErr readyErr =
     (case (if sfSkipKproxy f then None else spawnErr) of
        Some e \<Rightarrow> Inl (SpawnFailed e, False)
      | None \<Rightarrow>
          (case (if sfSkipKproxy f then None else readyErr) of
             Some e \<Rightarrow> Inl (NotReady e, True)
           | None \<Rightarrow>
               if sfConsumers f < 0 then Inl (NegativeConsumers, False)
               else Inr \<lparr>scRoot = False, scKilled = False, scKillArmed = (sfKillAfter f > 0 \<and> sfConsumers f > 1),
                      scTimerArmed = True, scTicking = True,
                      scWorkers = replicate (nat (sfConsumers f)) \<lparr>woPhase = Connecting, woCount = 0, woSlept = 0, woConnected = False, woCommits = 0\<rparr>,
                      scKproxy = (\<not> sfSkipKproxy f), scDone = False, scLog = []\<rparr>))"

definition sayS :: "string \<Rightarrow> Scenario \<Rightarrow> Scenario" where
  "sayS msg s = s\<lparr>scLog := scLog s @ [msg]\<rparr>"

definition cancelledW :: "Scenario \<Rightarrow> nat \<Rightarrow> bool" where
  "cancelledW s i \<longleftrightarrow> scRoot s \<or> scKilled s \<and> i = 0"

definition workerName :: "nat \<Rightarrow> string" where
  "workerName i = ''c'' @ Itoa (int i)"

definition setWorker :: "nat \<Rightarrow> Worker \<Rightarrow> Scenario \<Rightarrow> Scenario" where
  "setWorker i w s = s\<lparr>scWorkers := (scWorkers s)[i := w]\<rparr>"

definition workerConnect :: "nat \<Rightarrow> string option \<Rightarrow> Scenario \<Rightarrow> Scenario" where
  "workerConnect i err s =
     (case err of
        Some e \<Rightarrow> sayS (tagged (workerName i) (''new client: '' @ e)) (setWorker i ((scWorkers s ! i)\<lparr>woPhase := Ended\<rparr>) s)
      | None \<Rightarrow> setWorker i ((scWorkers s ! i)\<lparr>woPhase := Checking, woConnected := True\<rparr>) s)"

definition workerLeave :: "nat \<Rightarrow> Scenario \<Rightarrow> Scenario" where
  "workerLeave i s =
     (let w = scWorkers s ! i
      in sayS (tagged (workerName i) (''exit (final n='' @ Itoa (sint (woCount w)) @ '')''))
           (setWorker i (w\<lparr>woPhase := Ended, woCommits := woCommits w + 1\<rparr>) s))"

definition workerRecord :: "int \<Rightarrow> nat \<Rightarrow> Worker \<Rightarrow> Worker" where
  "workerRecord slow n w =
     w\<lparr>woCount := woCount w + 1, woSlept := (if slow > 0 then woSlept w + slow else woSlept w), woPhase := Counting n\<rparr>"

definition finishScenario :: "ScenarioFlags \<Rightarrow> (nat \<times> string) option \<Rightarrow> Scenario \<Rightarrow> Scenario" where
  "finishScenario f resp s =
     (sayS ''scenario complete'' (sayS (summary (map woCount (scWorkers s)) (sfAdmin f) resp) s))
       \<lparr>scDone := True, scRoot := True, scKproxy := False\<rparr>"

inductive scenario_step :: "ScenarioFlags \<Rightarrow> Scenario \<Rightarrow> Scenario \<Rightarrow> bool" for f where
  signal: "\<not> scDone s \<Longrightarrow> scenario_step f s (sayS ''signal received'' s\<lparr>scRoot := True\<rparr>)"
| kill: "\<not> scDone s \<Longrightarrow> scKillArmed s \<Longrightarrow>
    scenario_step f s (sayS (''KILL c0 '' @ byteStr [0xE2, 0x86, 0x92] @ '' expect rebalance'') s\<lparr>scKilled := True, scKillArmed := False\<rparr>)"
| kill_off: "\<not> scDone s \<Longrightarrow> scRoot s \<Longrightarrow> scenario_step f s (s\<lparr>scKillArmed := False\<rparr>)"
| elapsed: "\<not> scDone s \<Longrightarrow> scTimerArmed s \<Longrightarrow>
    scenario_step f s (sayS ''duration elapsed; shutting down'' s\<lparr>scRoot := True, scTimerArmed := False\<rparr>)"
| timer_off: "\<not> scDone s \<Longrightarrow> scRoot s \<Longrightarrow> scenario_step f s (s\<lparr>scTimerArmed := False\<rparr>)"
| tick: "\<not> scDone s \<Longrightarrow> scTicking s \<Longrightarrow>
    scenario_step f s (sayS (summary (map woCount (scWorkers s)) (sfAdmin f) resp) s)"
| tick_off: "\<not> scDone s \<Longrightarrow> scRoot s \<Longrightarrow> scenario_step f s (s\<lparr>scTicking := False\<rparr>)"
| connect: "i < length (scWorkers s) \<Longrightarrow> woPhase (scWorkers s ! i) = Connecting \<Longrightarrow> scenario_step f s (workerConnect i err s)"
| leave: "i < length (scWorkers s) \<Longrightarrow> woPhase (scWorkers s ! i) = Checking \<Longrightarrow> cancelledW s i \<Longrightarrow>
    scenario_step f s (workerLeave i s)"
| poll: "i < length (scWorkers s) \<Longrightarrow> woPhase (scWorkers s ! i) = Checking \<Longrightarrow> \<not> cancelledW s i \<Longrightarrow>
    scenario_step f s (setWorker i ((scWorkers s ! i)\<lparr>woPhase := Polling\<rparr>) s)"
| fetched: "i < length (scWorkers s) \<Longrightarrow> woPhase (scWorkers s ! i) = Polling \<Longrightarrow>
    scenario_step f s (setWorker i ((scWorkers s ! i)\<lparr>woPhase := Counting n\<rparr>) s)"
| count: "i < length (scWorkers s) \<Longrightarrow> woPhase (scWorkers s ! i) = Counting (Suc n) \<Longrightarrow>
    scenario_step f s (setWorker i (workerRecord (sfSlow f) n (scWorkers s ! i)) s)"
| next_check: "i < length (scWorkers s) \<Longrightarrow> woPhase (scWorkers s ! i) = Counting 0 \<Longrightarrow>
    scenario_step f s (setWorker i ((scWorkers s ! i)\<lparr>woPhase := Checking\<rparr>) s)"
| finish: "\<not> scDone s \<Longrightarrow> \<forall>w\<in>set (scWorkers s). woPhase w = Ended \<Longrightarrow> scenario_step f s (finishScenario f resp s)"

section \<open>The end of the run\<close>

definition workerOk :: "Worker \<Rightarrow> bool" where
  "workerOk w \<longleftrightarrow> woCommits w = of_bool (woConnected w \<and> woPhase w = Ended) \<and>
     (woPhase w = Connecting \<longrightarrow> \<not> woConnected w) \<and> (woPhase w \<notin> {Connecting, Ended} \<longrightarrow> woConnected w)"

definition scenarioInv :: "Scenario \<Rightarrow> bool" where
  "scenarioInv s \<longleftrightarrow> list_all workerOk (scWorkers s) \<and>
     (scDone s \<longrightarrow> \<not> scKproxy s \<and> (\<forall>w\<in>set (scWorkers s). woPhase w = Ended))"

lemma sayS_simps [simp]:
  "scWorkers (sayS m s) = scWorkers s" "scDone (sayS m s) = scDone s" "scKproxy (sayS m s) = scKproxy s"
  by (simp_all add: sayS_def)

lemma setWorker_inv:
  assumes "scenarioInv s" "i < length (scWorkers s)" "woPhase (scWorkers s ! i) \<noteq> Ended" "workerOk w"
  shows "scenarioInv (setWorker i w s)"
proof -
  have "\<not> scDone s" using assms(1-3) by (auto simp: scenarioInv_def)
  moreover have "list_all workerOk ((scWorkers s)[i := w])"
    using assms by (auto simp: scenarioInv_def list_all_iff dest!: set_update_subset_insert [THEN subsetD])
  ultimately show ?thesis by (simp add: scenarioInv_def setWorker_def)
qed

lemma scenarioInv_say: "scenarioInv (sayS m s) = scenarioInv s"
  by (simp add: scenarioInv_def)

lemma scenarioInv_step:
  assumes "scenario_step f s s'" "scenarioInv s"
  shows "scenarioInv s'"
proof -
  have ok: "workerOk (scWorkers s ! i)" if "i < length (scWorkers s)" for i
    using assms(2) that by (simp add: scenarioInv_def list_all_length)
  show ?thesis using assms
  proof (cases rule: scenario_step.cases)
    case (connect i err)
    then show ?thesis using assms(2) ok [of i]
      by (auto simp: workerConnect_def scenarioInv_say intro!: setWorker_inv simp: workerOk_def split: option.splits)
  next
    case (leave i)
    then show ?thesis using assms(2) ok [of i]
      by (auto simp: workerLeave_def Let_def scenarioInv_say intro!: setWorker_inv simp: workerOk_def)
  next
    case (poll i)
    then show ?thesis using assms(2) ok [of i] by (auto intro!: setWorker_inv simp: workerOk_def)
  next
    case (fetched i n)
    then show ?thesis using assms(2) ok [of i] by (auto intro!: setWorker_inv simp: workerOk_def)
  next
    case (count i n)
    then show ?thesis using assms(2) ok [of i] by (auto intro!: setWorker_inv simp: workerOk_def workerRecord_def)
  next
    case (next_check i)
    then show ?thesis using assms(2) ok [of i] by (auto intro!: setWorker_inv simp: workerOk_def)
  qed (auto simp: scenarioInv_def finishScenario_def)
qed

lemma startScenario_inv: "startScenario f e1 e2 = Inr s \<Longrightarrow> scenarioInv s"
  by (auto simp: startScenario_def scenarioInv_def workerOk_def list_all_iff split: option.splits if_splits)

text \<open>When the scenario completes, every consumer that got a client has committed once, and kproxy is
  stopped.  A start that fails at the readiness check leaves it running.\<close>

lemma scenario_completes:
  assumes "startScenario f e1 e2 = Inr s0" "(scenario_step f)\<^sup>*\<^sup>* s0 s" "scDone s" "w \<in> set (scWorkers s)"
  shows "\<not> scKproxy s \<and> woPhase w = Ended \<and> woCommits w = of_bool (woConnected w)"
proof -
  have "scenarioInv s"
    using assms(2) by (induction rule: rtranclp_induct) (auto intro: startScenario_inv [OF assms(1)] scenarioInv_step)
  then show ?thesis using assms(3,4) by (auto simp: scenarioInv_def workerOk_def list_all_iff)
qed

lemma unready_kproxy_left_running: "\<not> sfSkipKproxy f \<Longrightarrow> startScenario f None (Some e) = Inl (NotReady e, True)"
  by (simp add: startScenario_def)

section \<open>The metrics of the running gateway\<close>

lemma HasPrefix_simps [simp]:
  "HasPrefix s []" "\<not> HasPrefix [] (y # ys)" "HasPrefix (x # xs) (y # ys) \<longleftrightarrow> x = y \<and> HasPrefix xs ys"
  by (auto simp: HasPrefix_def)

lemma SplitByte_lines:
  "\<forall>l\<in>set ls. c \<notin> set l \<Longrightarrow> SplitByte c (concat (map (\<lambda>l. l @ [c]) ls)) = ls @ [[]]"
  by (induction ls) (auto simp: SplitByte_append)

definition counterLine :: "string \<Rightarrow> string \<Rightarrow> string \<Rightarrow> int64 \<Rightarrow> string" where
  "counterLine name label value v = name @ ''{'' @ label @ ''='' @ [quote] @ value @ [quote] @ ''} '' @ Itoa (sint v)"

definition promLines :: "(int64 \<Rightarrow> string) \<Rightarrow> Metrics \<Rightarrow> string list" where
  "promLines seconds m =
     [counterLine ''kproxy_frames_total'' ''direction'' ''client_to_broker'' (FramesClientToBroker m),
      counterLine ''kproxy_frames_total'' ''direction'' ''broker_to_client'' (FramesBrokerToClient m),
      counterLine ''kproxy_intercepts_total'' ''outcome'' ''any'' (InterceptsTotal m),
      counterLine ''kproxy_intercepts_total'' ''outcome'' ''rewrote'' (InterceptsRewrote m),
      counterLine ''kproxy_intercepts_total'' ''outcome'' ''passthrough'' (InterceptsPassthru m),
      counterLine ''kproxy_intercepts_total'' ''outcome'' ''timeout'' (InterceptsTimeout m),
      counterLine ''kproxy_intercepts_total'' ''outcome'' ''error'' (InterceptsError m),
      ''kproxy_unmapped_brokers_total '' @ Itoa (sint (UnmappedBrokers m)),
      ''kproxy_tracker_dropped_total '' @ Itoa (sint (TrackerDropped m)),
      ''kproxy_plan_count_total '' @ Itoa (sint (PlanCount m)),
      ''kproxy_plan_duration_seconds_sum '' @ seconds (PlanDurationNanosSum m),
      ''kproxy_conn_active '' @ Itoa (sint (ConnActive m)),
      ''kproxy_telemetry_age_seconds '' @ seconds (TelemetryAgeNS m),
      ''kproxy_subscription_len '' @ Itoa (sint (SubscriptionLen m)),
      ''kproxy_panics_total '' @ Itoa (sint (Panics m)),
      ''kproxy_metadata_refresh_errors_total '' @ Itoa (sint (MetadataRefreshErrors m))]"

lemma PromText_lines: "PromText seconds m = concat (map (\<lambda>l. l @ [newline]) (promLines seconds m))"
  by (simp add: PromText_def promLines_def counterLine_def appendCounter_def appendSimple_def appendFloat_def)

lemma newline_char: "newline = CHR 0x0A" "quote = CHR 0x22"
  by code_simp+

lemma newline_free: "newline \<notin> set (Itoa i)"
proof
  assume "newline \<in> set (Itoa i)"
  then have "graphic newline" using Itoa_graphic [of i] by (simp add: list_all_iff)
  then show False by (simp add: graphic_def byteIn_def newline_char)
qed

lemma promLines_newline_free:
  assumes "\<And>v. newline \<notin> set (seconds v)"
  shows "\<forall>l\<in>set (promLines seconds m). newline \<notin> set l"
  using newline_free assms by (simp add: promLines_def counterLine_def newline_char)

lemma pluck_counters:
  assumes "\<And>v. newline \<notin> set (seconds v)"
  shows "map (pluck (PromText seconds m)) scrapeKeys =
    map (\<lambda>v. Itoa (sint v)) [InterceptsTotal m, PlanCount m, UnmappedBrokers m, ConnActive m]"
  unfolding pluck_def PromText_lines SplitByte_lines [OF promLines_newline_free [OF assms]]
  by (simp add: promLines_def scrapeKeys_def counterLine_def TrimSpace_graphic Itoa_graphic)

text \<open>
  C39: what the demonstration prints of the metrics endpoint is the state of the gateway.  In every
  reachable state of a gateway with an admin address, the answer to a GET of \<open>/metrics\<close>, read back by
  \<open>scrapeMetrics\<close>, gives the counters of the running system, and as the number of active connections
  the number of connections that run.
\<close>

theorem scraped_metrics_are_live:
  assumes "(system_step compute)\<^sup>*\<^sup>* (startSystem procs cfg topo side) s" "cfAdmin cfg \<noteq> ''''"
    and "\<And>v. newline \<notin> set (seconds v)"
  shows "\<exists>a r mx. systemAdmin cfg s = Some a \<and> serveAdmin seconds now a ''/metrics'' = Answer r \<and> icMetrics (syIc s) = Some mx \<and>
    scrapeMetrics (cfAdmin cfg) (Some (rsStatus r, rsBody r)) =
      ''kproxy_intercepts_total{outcome='' @ [quote] @ ''any'' @ [quote] @ ''}='' @ Itoa (sint (InterceptsTotal mx)) @
      '' kproxy_plan_count_total='' @ Itoa (sint (PlanCount mx)) @
      '' kproxy_unmapped_brokers_total='' @ Itoa (sint (UnmappedBrokers mx)) @
      '' kproxy_conn_active='' @ Itoa (sint (of_nat (card (dom (syConns s))) :: int64)) @ '' ''"
proof -
  obtain mx where mx: "icMetrics (syIc s) = Some mx" "ConnActive mx = of_nat (card (dom (syConns s)))"
    using running_gauges [OF assms(1)] by auto
  have "Itoa i \<noteq> ''''" for i using intDigits_ok [of i] by (simp add: Itoa_def)
  then show ?thesis
    using assms(2) mx pluck_counters [of seconds mx, OF assms(3)]
    by (simp add: systemAdmin_def serveAdmin_def metricsHandler_def scrapeMetrics_def scrapeKeys_def)
qed

section \<open>The gateway that the scenario starts\<close>

definition plainHost :: "string \<Rightarrow> bool" where
  "plainHost h \<longleftrightarrow> h \<noteq> '''' \<and> list_all (\<lambda>c. graphic c \<and> c \<notin> set '',=:[]'') h"

definition plainEndpoint :: "Endpoint \<Rightarrow> bool" where
  "plainEndpoint e \<longleftrightarrow> plainHost (epHost e) \<and> 1 \<le> sint (epPort e) \<and> sint (epPort e) \<le> 65535"

lemma plainHost_not_IPv6:
  assumes "plainHost h"
  shows "\<not> isIPv6 h"
proof -
  let ?rest = "dropWhile (\<lambda>c. c \<noteq> CHR ''.'' \<and> c \<noteq> CHR '':'' \<and> c \<noteq> CHR ''%'') h"
  have "CHR '':'' \<notin> set ?rest"
    using assms by (auto simp: plainHost_def list_all_iff dest: set_dropWhileD)
  show ?thesis
  proof (cases ?rest)
    case Nil
    have "ParseIP h = None" unfolding ParseIP_def Nil by simp
    then show ?thesis by (simp add: isIPv6_def)
  next
    case (Cons c cs)
    with \<open>CHR '':'' \<notin> set ?rest\<close> have "c \<noteq> CHR '':''" by auto
    with Cons have "ParseIP h = None \<or> (\<exists>v4. ParseIP h = Some (replicate 10 0 @ [255, 255] @ v4))"
      by (cases "parseIPv4 h") (simp_all add: ParseIP_def)
    then show ?thesis by (elim disjE exE) (simp_all add: isIPv6_def)
  qed
qed

lemma digit_not_special: "isDigit c \<Longrightarrow> c \<notin> set '',=:[]''"
  by (auto simp: isDigit_def digitVal_def)

lemma plain_String:
  assumes "plainEndpoint e"
  shows "String e = epHost e @ '':'' @ Itoa (sint (epPort e))" "list_all graphic (String e)"
    "CHR '','' \<notin> set (String e)" "CHR ''='' \<notin> set (String e)" "parseEndpoint (String e) = Inr e"
proof -
  have host: "list_all graphic (epHost e)" "\<forall>c\<in>set '',=:[]''. c \<notin> set (epHost e)"
    using assms by (auto simp: plainEndpoint_def plainHost_def list_all_iff)
  show s: "String e = epHost e @ '':'' @ Itoa (sint (epPort e))"
    using assms plainHost_not_IPv6 by (simp add: String_def plainEndpoint_def)
  have "list_all isDigit (Itoa (sint (epPort e)))" using assms Itoa_digits by (simp add: plainEndpoint_def)
  then have port: "\<forall>c\<in>set '',=:[]''. c \<notin> set (Itoa (sint (epPort e)))" using digit_not_special by (auto simp: list_all_iff)
  show "list_all graphic (String e)" using host(1) Itoa_graphic by (simp add: s graphic_def byteIn_def)
  show "CHR '','' \<notin> set (String e)" "CHR ''='' \<notin> set (String e)" using host(2) port by (simp_all add: s)
  show "parseEndpoint (String e) = Inr e"
    using assms host(2) by (intro endpoint_roundtrip) (auto simp: plainEndpoint_def)
qed

text \<open>One entry of the flag, read back.\<close>

lemma ParseFlag_single:
  assumes "0 \<le> n" "n < 2 ^ 31" "plainEndpoint real" "plainEndpoint adv"
  shows "ParseFlag (Itoa n @ ''='' @ String real @ ''='' @ String adv) =
    Inr \<lparr>byNodeID = [(of_int n, adv)], byHostPt = [(String real, adv)]\<rparr>"
proof -
  let ?spec = "Itoa n @ ''='' @ String real @ ''='' @ String adv"
  note r = plain_String [OF assms(3)] and a = plain_String [OF assms(4)]
  have n: "\<forall>c\<in>set '',=:[]''. c \<notin> set (Itoa n)" "Itoa n \<noteq> ''''"
    using Itoa_digits [OF assms(1)] digit_not_special by (auto simp: list_all_iff)
  have g: "list_all graphic ?spec" using r(2) a(2) Itoa_graphic by (simp add: graphic_def byteIn_def)
  have parts: "SplitByte (CHR '','') ?spec = [?spec]" "SplitByte (CHR ''='') ?spec = [Itoa n, String real, String adv]"
    using n r(3,4) a(3,4) by (auto simp: SplitByte_none SplitByte_append)
  have signed: "sint (of_int n :: int32) = n" 
    using assms(1,2) by (simp add: sint_sbintrunc' signed_take_bit_int_eq_self)
  have valid: "epHost real \<noteq> ''''" "epHost adv \<noteq> ''''" "0 < sint (epPort real)" "0 < sint (epPort adv)"
    using assms(3,4) by (auto simp: plainEndpoint_def plainHost_def)
  have "Add_mapping NewMapping (of_int n) real adv = (None, \<lparr>byNodeID = [(of_int n, adv)], byHostPt = [(String real, adv)]\<rparr>)"
    using valid assms(1) signed by (simp add: Add_mapping_def NewMapping_def mget_def mput_def)
  then have "parseEntry NewMapping ?spec = Inr \<lparr>byNodeID = [(of_int n, adv)], byHostPt = [(String real, adv)]\<rparr>"
    using assms(1,2) r(2,5) a(2,5) parts(2) Itoa_graphic by (simp add: parseEntry_def TrimSpace_graphic ParseInt32_Itoa)
  then show ?thesis using n(2) g parts(1) by (simp add: ParseFlag_def TrimSpace_graphic)
qed

lemma read_names:
  "readArg ''-broker'' = Flag ''broker'' None" "readArg ''-listen'' = Flag ''listen'' None"
  "readArg ''-admin'' = Flag ''admin'' None" "readArg ''-topology'' = Flag ''topology'' None"
  "readArg ''-telemetry'' = Flag ''telemetry'' None" "readArg ''-refresh'' = Flag ''refresh'' None"
  by code_simp+

lemma durations: "ParseDuration frac ''5s'' = Some (5 * oneSecond)" "ParseDuration frac ''10s'' = Some (10 * oneSecond)"
  by (simp_all add: ParseDuration_def durationTerms.simps durationTerm_def isDigit_def digitVal_def unitMap_def oneSecond_def byteStr_def)

lemma kproxyArgs_parsed:
  "parseArgs frac (kproxyArgs f) cfg =
   Inr (cfg\<lparr>cfBroker := sfBroker f, cfListen := sfListen f, cfAdmin := sfAdmin f, cfTopologyFlag := topoArg f,
     cfTelemetryEv := 5 * oneSecond, cfRefresh := 10 * oneSecond\<rparr>)"
  by (simp add: kproxyArgs_def read_names flagTable_def durations)

text \<open>
  C38: the command line that the demonstration builds starts a gateway with exactly its mapping.  For
  plain endpoints (a printable host name without separators and a valid port), a node id that fits its
  field, a cluster that can be dialled and a free listening socket, \<open>main\<close> of kproxy does not exit: it
  runs the gateway over the dialled side channel, with the node id and the broker's endpoint mapped to
  the listening one, the given admin address, and the intervals of the demonstration.
\<close>

theorem scenario_starts_gateway:
  assumes "0 \<le> sfNodeID f" "sfNodeID f < 2 ^ 31" "plainEndpoint real" "plainEndpoint adv"
    and "sfBroker f = String real" "sfListen f = String adv"
    and "beDial be (String real) (5 * oneSecond) = Inr net" "beListen be (String adv) = None"
  shows "startProgram frac be (kproxyArgs f) =
    Inr (startSystem (beProcs be)
      (flagDefaults\<lparr>cfBroker := String real, cfBootstrap := String real, cfListen := String adv, cfAdmin := sfAdmin f,
         cfTopologyFlag := topoArg f, cfTelemetryEv := 5 * oneSecond, cfRefresh := 10 * oneSecond\<rparr>)
      \<lparr>byNodeID = [(of_int (sfNodeID f), adv)], byHostPt = [(String real, adv)]\<rparr>
      (NewKConn net ''kproxy''))"
proof -
  have "ParseFlag (topoArg f) = Inr \<lparr>byNodeID = [(of_int (sfNodeID f), adv)], byHostPt = [(String real, adv)]\<rparr>"
    using ParseFlag_single [OF assms(1-4)] assms(5,6) by (simp add: topoArg_def)
  moreover have "String real \<noteq> ''''" "topoArg f \<noteq> ''''"
    using plain_String(1) [OF assms(3)] by (simp_all add: topoArg_def)
  ultimately show ?thesis
    using assms(5-8)
    by (simp add: startProgram_def kproxyArgs_parsed boot_def checkConfig_def flagDefaults_def chooseTopology_def Dial_def)
qed

definition demoBoot :: BootEnv where
  "demoBoot = \<lparr>beLoad = (\<lambda>path. Inl FileUnreadable),
     beDial = (\<lambda>addr timeout. Inr (\<lparr>pending = [], ending = EOF\<rparr>, \<lparr>written = [], room = 1000, wfault = EOF\<rparr>)),
     beListen = (\<lambda>addr. None), beProcs = 1\<rparr>"

theorem scenario_starts_gateway_witness:
  "\<exists>s. startProgram (\<lambda>ds unit. 0) demoBoot (kproxyArgs scenarioDefaults) = Inr s \<and>
     dTopology (icDeps (syIc s)) = Some \<lparr>byNodeID = [(1, \<lparr>epHost = ''127.0.0.1'', epPort = 19094\<rparr>)],
       byHostPt = [(''localhost:9094'', \<lparr>epHost = ''127.0.0.1'', epPort = 19094\<rparr>)]\<rparr>"
proof -
  let ?real = "\<lparr>epHost = ''localhost'', epPort = 9094\<rparr>" and ?adv = "\<lparr>epHost = ''127.0.0.1'', epPort = 19094\<rparr>"
  have p: "plainEndpoint ?real" "plainEndpoint ?adv" by code_simp+
  have strs: "String ?real = ''localhost:9094''" "String ?adv = ''127.0.0.1:19094''" by code_simp+
  obtain net where "beDial demoBoot (String ?real) (5 * oneSecond) = Inr net" by (simp add: demoBoot_def)
  from scenario_starts_gateway [OF _ _ p _ _ this, of scenarioDefaults "\<lambda>ds unit. 0"] show ?thesis
    by (simp add: scenarioDefaults_def demoBoot_def strs startSystem_def wireInterceptor_def NewInterceptor_def)
qed

end
