(* ===== verification/SystemExamples.thy ===== *)
theory SystemExamples
  imports Scenario
begin

text \<open>
  Concrete runs of the whole gateway, from the start to a state in which a property of
  \<open>SystemCorrect\<close> says something: a client is accepted, the metadata is fetched over the side channel,
  a member joins its group, and the planner pool answers the leader.
\<close>

section \<open>Admitting a client\<close>

definition admit :: "instream \<times> outstream \<Rightarrow> instream \<times> outstream \<Rightarrow> System \<Rightarrow> System" where
  "admit client broker s =
     (let sv = gwServe (syGw s) in
      countInto connStarted
        (s\<lparr>syGw := (syGw s)\<lparr>gwServe := (acquireSem sv)\<lparr>svDelay := 0, svNext := Suc (svNext sv),
              svRunning := insert (svNext sv) (svRunning sv), svPhase := Accepting\<rparr>\<rparr>,
           syConns := (syConns s)(svNext sv \<mapsto> startRun (NewConn (syConnCfg s) client broker newBuffer newBuffer) (syIc s))\<rparr>))"

text \<open>A gateway that accepts, below its limit, can admit a client: accept, acquire, dial, start.\<close>

lemma admit_reachable:
  assumes "svPhase (gwServe (syGw s)) = Accepting" "semFree (gwServe (syGw s))"
    and "syConns s (svNext (gwServe (syGw s))) = None" "syFinished s (svNext (gwServe (syGw s))) = None"
  shows "(system_step compute)\<^sup>*\<^sup>* s (admit client broker s)"
proof -
  let ?sv = "gwServe (syGw s)"
  let ?n = "svNext ?sv"
  define sv1 where "sv1 = ?sv\<lparr>svDelay := 0, svPhase := Acquiring ?n, svNext := Suc ?n\<rparr>"
  define sv2 where "sv2 = acquireSem sv1\<lparr>svPhase := Dialing ?n\<rparr>"
  define sv3 where "sv3 = sv2\<lparr>svRunning := insert ?n (svRunning sv2), svPhase := Accepting\<rparr>"
  define s1 where "s1 = s\<lparr>syGw := (syGw s)\<lparr>gwServe := sv1\<rparr>\<rparr>"
  define s2 where "s2 = s1\<lparr>syGw := (syGw s1)\<lparr>gwServe := sv2\<rparr>\<rparr>"
  define s3 where "s3 = s2\<lparr>syGw := (syGw s2)\<lparr>gwServe := sv3\<rparr>\<rparr>"
  note defs = s1_def s2_def s3_def sv1_def sv2_def sv3_def acquireSem_def hasSem_def semFree_def
  have "gateway_step (syGw s) (syGw s1)"
    using serve_step.accept [OF assms(1)] assms(1) by (auto simp: s1_def sv1_def intro!: gateway_step.serve)
  then have 1: "system_step compute s s1"
    using system_step.gateway [of s "syGw s1" compute] by (simp add: s1_def sv1_def)
  have "serve_step sv1 sv2"
    using serve_step.acquire [of sv1 ?n] assms(2) unfolding sv2_def by (simp add: sv1_def semFree_def hasSem_def)
  then have "gateway_step (syGw s1) (syGw s2)"
    by (auto simp: s2_def intro!: gateway_step.serve) (simp_all add: defs split: if_splits)
  then have 2: "system_step compute s1 s2"
    using system_step.gateway [of s1 "syGw s2" compute] by (simp add: defs)
  have "serve_step sv2 sv3" unfolding sv3_def by (rule serve_step.dial) (simp add: sv2_def)
  then have "gateway_step (syGw s2) (syGw s3)"
    unfolding s3_def by (auto intro!: gateway_step.serve) (simp_all add: defs)
  then have 3: "system_step compute s2 s3"
    using system_step.gateway [of s2 "syGw s3" compute] by (simp add: s3_def sv3_def) (simp add: s2_def subset_insertI)
  have eq: "admit client broker s = countInto connStarted (s3\<lparr>
      syConns := (syConns s3)(?n \<mapsto> startRun (NewConn (syConnCfg s3) client broker newBuffer newBuffer) (syIc s3))\<rparr>)"
    by (cases ?sv) (simp add: admit_def defs Let_def)
  have "system_step compute s3 (admit client broker s)"
    unfolding eq by (rule system_step.conn_start) (use assms(3,4) in \<open>simp_all add: defs\<close>)
  with 1 2 3 show ?thesis by simp
qed

section \<open>Iterations of a pump\<close>

text \<open>A running connection: what its client still has to send, the room towards the broker, the
  pending requests.\<close>

definition standsAt :: "bytes \<Rightarrow> nat \<Rightarrow> RewriteFn Tracker \<Rightarrow> (Interceptor, RewriteFn) Run \<Rightarrow> bool" where
  "standsAt rest rm t r \<longleftrightarrow> rnUp r = Running \<and> coIdleTimeout (rnConn r) = 0 \<and>
     pending (rstream (coClientR (rnConn r))) = rest \<and> maxSize (coClientR (rnConn r)) = MaxFrameSize \<and>
     room (coBrokerW (rnConn r)) = rm \<and> coTracker (rnConn r) = t"

definition sameDown :: "(Interceptor, RewriteFn) Run \<Rightarrow> (Interceptor, RewriteFn) Run \<Rightarrow> bool" where
  "sameDown r r' \<longleftrightarrow> coBrokerR (rnConn r') = coBrokerR (rnConn r) \<and> coClientW (rnConn r') = coClientW (rnConn r) \<and>
     coDownBuf (rnConn r') = coDownBuf (rnConn r)"

lemma standsAt_live: "standsAt rest rm t (liveRun s r) = standsAt rest rm t r" "sameDown (liveRun s r) r' = sameDown r r'"
  by (simp_all add: standsAt_def sameDown_def liveRun_def)

lemma up_iteration:
  assumes "standsAt (encFrame body @ rest) rm t r" "length body < 1000" "DecodeRequestHeader body = Inr h"
    and "hkOnRequest hk h (drop (HeaderSize h) body) (rnIc r) = (po, ic')"
    and "(out, t') = (case po of None \<Rightarrow> (body, t)
       | Some q \<Rightarrow> (spliceRequest h body q, snd (Register 0 t (stampPending h 0 q))))"
    and "\<And>q. po = Some q \<Longrightarrow> fst (Register 0 t (stampPending h 0 q))"
    and "length out < 2 ^ 32" "4 + length out \<le> rm"
  shows "\<exists>c. upstreamPump hk quietPump (rnConn r) (rnIc r) = (None, c, ic') \<and>
    standsAt rest (rm - (4 + length out)) t' (r\<lparr>rnConn := c, rnIc := ic'\<rparr>) \<and> sameDown r (r\<lparr>rnConn := c, rnIc := ic'\<rparr>)"
proof -
  note at = assms(1) [unfolded standsAt_def]
  have "int (length body) \<le> maxSize (coClientR (rnConn r))" "length body < 2 ^ 31"
    using assms(2) at by (simp_all add: MaxFrameSize_def)
  then obtain b where read: "ReadFrame (coClientR (rnConn r)) (coUpBuf (rnConn r)) = Inr (body, b,
      (coClientR (rnConn r))\<lparr>rstream := (rstream (coClientR (rnConn r)))\<lparr>pending := rest\<rparr>\<rparr>)"
    using ReadFrame_encFrame at by blast
  have dl: "setDeadline quietPump (rnConn r) = None" using at by (simp add: setDeadline_def)
  have w: "WriteFrame (coBrokerW (rnConn r)) out = (None, (coBrokerW (rnConn r))\<lparr>written :=
      written (coBrokerW (rnConn r)) @ encFrame out, room := room (coBrokerW (rnConn r)) - (4 + length out)\<rparr>)"
    using assms(7,8) at by (intro WriteFrame_ok) simp_all
  have quiet: "peSent quietPump = 0" "peNow quietPump = 0" by (simp_all add: quietPump_def)
  show ?thesis
  proof (cases po)
    case None
    then show ?thesis
      using assms(3-5) at w
      by (simp add: upstreamPump_def dl read handleRequest_def forwardUp_def countFrames_def standsAt_def sameDown_def)
  next
    case (Some q)
    have splice: "spliceRequest h body (stampPending h 0 q) = spliceRequest h body q"
      by (simp add: spliceRequest_def stampPending_def)
    have reg: "Register 0 t (stampPending h 0 q) = (True, snd (Register 0 t (stampPending h 0 q)))"
      using assms(6) [OF Some] by (metis prod.collapse)
    show ?thesis
      using assms(3-5) at w reg Some assms(6) [OF Some]
      by (simp add: upstreamPump_def dl read handleRequest_def forwardUp_def countFrames_def standsAt_def sameDown_def
          quiet splice Let_def case_prod_unfold)
  qed
qed

text \<open>One iteration of the upstream pump of client 0, as a step of the system.\<close>

definition pumped :: "Env \<Rightarrow> System \<Rightarrow> (Interceptor, RewriteFn) Run \<Rightarrow> System" where
  "pumped env s r = storeRun 0 (upStep (productionHooks env) quietPump (liveRun s r)) s"

lemma pumped_step:
  assumes "syConns s 0 = Some r" "rnUp r = Running" "poolEnv (gwPool (syGw s)) env"
  shows "system_step compute s (pumped env s r)"
  unfolding pumped_def by (rule up_system [OF assms(1,3,2)])

lemma pumped_iteration:
  assumes "syConns s 0 = Some r" "poolEnv (gwPool (syGw s)) env"
    and "standsAt (encFrame body @ rest) rm t r" "length body < 1000" "DecodeRequestHeader body = Inr h"
    and "OnRequest env h (drop (HeaderSize h) body) (liveIc s) = (po, ic')"
    and "(out, t') = (case po of None \<Rightarrow> (body, t)
       | Some q \<Rightarrow> (spliceRequest h body q, snd (Register 0 t (stampPending h 0 q))))"
    and "\<And>q. po = Some q \<Longrightarrow> fst (Register 0 t (stampPending h 0 q))"
    and "length out < 2 ^ 32" "4 + length out \<le> rm"
  shows "\<exists>s' r'. system_step compute s s' \<and> syConns s' 0 = Some r' \<and> standsAt rest (rm - (4 + length out)) t' r' \<and>
    sameDown r r' \<and> syGw s' = syGw s \<and> syCache s' = syCache s \<and> syHolder s' = syHolder s \<and>
    icSubscription (syIc s') = icSubscription ic' \<and> icDeps (syIc s') = icDeps ic' \<and> s' = pumped env s r \<and>
    (\<exists>c. upstreamPump (productionHooks env) quietPump (rnConn (liveRun s r)) (liveIc s) = (None, c, ic'))"
proof -
  let ?r = "liveRun s r"
  obtain c where up: "upstreamPump (productionHooks env) quietPump (rnConn ?r) (rnIc ?r) = (None, c, ic')"
      and at: "standsAt rest (rm - (4 + length out)) t' (?r\<lparr>rnConn := c, rnIc := ic'\<rparr>)" "sameDown ?r (?r\<lparr>rnConn := c, rnIc := ic'\<rparr>)"
    using up_iteration [of body rest rm t ?r h "productionHooks env" po ic' out t'] assms(3-10)
    by (auto simp: standsAt_live productionHooks_def)
  then have "pumped env s r = storeRun 0 (?r\<lparr>rnConn := c, rnIc := ic'\<rparr>) s"
    by (simp add: pumped_def upStep_def)
  then show ?thesis
    using pumped_step [OF assms(1) _ assms(2), of compute] assms(3) at up
    by (intro exI [of _ "pumped env s r"] exI [of _ "?r\<lparr>rnConn := c, rnIc := ic'\<rparr>"]) (auto simp: standsAt_def standsAt_live)
qed

section \<open>A client asks for addresses\<close>

definition demoCfg :: config where
  "demoCfg = flagDefaults\<lparr>cfBroker := ''b:9'', cfConnLimit := 0, cfIdleTimeout := 0\<rparr>"

definition quietEnv :: Env where
  "quietEnv = \<lparr>envNow = 9, envPlan = (\<lambda>input. Inl PlanCtx), envRange = (\<lambda>m. m), envFold = (\<lambda>s. s)\<rparr>"

definition netOf :: "bytes \<Rightarrow> instream \<times> outstream" where
  "netOf bs = (\<lparr>pending = bs, ending = EOF\<rparr>, \<lparr>written = [], room = 1000, wfault = EOF\<rparr>)"

definition demoStart :: "bytes \<Rightarrow> System" where
  "demoStart side = startSystem 1 demoCfg sampleMapping (NewKConn (netOf side) ''k'')"

lemma quiet_pool: "poolEnv p quietEnv"
  by (simp add: poolEnv_def quietEnv_def)

text \<open>What is left of the start when a client has been admitted.\<close>

lemma demo_admitted:
  assumes "(system_step compute)\<^sup>*\<^sup>* (demoStart side) s0" "syGw s0 = syGw (demoStart side)" "syConns s0 = Map.empty" "syFinished s0 = Map.empty"
    and deps: "icDeps (syIc s0) = icDeps (syIc (demoStart side))" "icSubscription (syIc s0) = icSubscription (syIc (demoStart side))"
    and "syConnCfg s0 = syConnCfg (demoStart side)"
  shows "\<exists>s r. (system_step compute)\<^sup>*\<^sup>* (demoStart side) s \<and> syConns s 0 = Some r \<and>
    standsAt client 1000 (NewTracker 0 0) r \<and> mapsTo sampleMapping (syIc s) \<and> icSubscription (syIc s) = Some (wireStore demoCfg) \<and>
    dHasPlanner (icDeps (syIc s)) \<and> gwPool (syGw s) = New 1 0 0 \<and> syCache s = syCache s0 \<and> syHolder s = syHolder s0 \<and>
    coBrokerR (rnConn r) = NewReader (fst (netOf broker)) MaxFrameSize \<and> coClientW (rnConn r) = snd (netOf client) \<and>
    coDownBuf (rnConn r) = newBuffer"
proof -
  note start = demoStart_def startSystem_def startGateway_def newServe_def
  have "svPhase (gwServe (syGw s0)) = Accepting" "semFree (gwServe (syGw s0))" "svNext (gwServe (syGw s0)) = 0"
      "svRunning (gwServe (syGw s0)) = {}"
    unfolding assms(2) by (simp_all add: start semFree_def hasSem_def listenerConfig_def demoCfg_def)
  then have "(system_step compute)\<^sup>*\<^sup>* s0 (admit (netOf client) (netOf broker) s0)"
    and n: "svNext (gwServe (syGw s0)) = 0"
    using admit_reachable [of s0 compute "netOf client" "netOf broker"] assms(3,4) by auto
  with assms(1) have "(system_step compute)\<^sup>*\<^sup>* (demoStart side) (admit (netOf client) (netOf broker) s0)" by simp
  moreover have "mapsTo sampleMapping (syIc s0)" "icSubscription (syIc s0) = Some (wireStore demoCfg)"
      "dHasPlanner (icDeps (syIc s0))" "gwPool (syGw s0) = New 1 0 0"
    unfolding mapsTo_def assms(2) deps(1,2)
    by (simp_all add: start wireInterceptor_def NewInterceptor_def mapsTo_def sampleMapping_def demoCfg_def flagDefaults_def)
  ultimately show ?thesis
    using n assms(7)
    by (intro exI [of _ "admit (netOf client) (netOf broker) s0"])
      (simp add: admit_def Let_def mapsTo_def standsAt_def startRun_def NewConn_def NewReader_def netOf_def, simp add: start connConfig_def demoCfg_def flagDefaults_def MaxFrameSize_def)
qed

text \<open>A request of version 0 with correlation id 4, and no client id.\<close>

definition askFor :: "byte \<Rightarrow> bytes" where
  "askFor key = [0,key, 0,0, 0,0,0,4, 255,255]"

lemma ask_header: "DecodeRequestHeader (askFor 3) = Inr (plainHeader 3)" "DecodeRequestHeader (askFor 10) = Inr (plainHeader 10)"
  by code_simp+

lemma register_first: "fst (Register 0 (NewTracker 0 0) p)" "findPending (snd (Register 0 (NewTracker 0 0) p)) (pCorrelID p) = Some p"
  by (simp_all add: Register_def NewTracker_def Let_def second_def findPending_def)

text \<open>Before and after the iteration that forwards the request.\<close>

lemma asked:
  assumes "DecodeRequestHeader (askFor key) = Inr (plainHeader k)"
    and "\<And>ic. mapsTo sampleMapping ic \<Longrightarrow> fst (OnRequest quietEnv (plainHeader k) [] ic) = Some (newPending (plainHeader k) (Some rw) None)"
  shows "\<exists>s r b rd c0 i0 r' p. (system_step compute)\<^sup>*\<^sup>* (demoStart []) s \<and> syConns s 0 = Some r \<and> rnUp r = Running \<and>
    ReadFrame (coClientR (rnConn r)) (coUpBuf (rnConn r)) = Inr (askFor key, b, rd) \<and>
    upstreamPump (productionHooks quietEnv) quietPump (rnConn (liveRun s r)) (liveIc s) = (None, c0, i0) \<and>
    syConns (pumped quietEnv s r) 0 = Some r' \<and> mapsTo sampleMapping (syIc (pumped quietEnv s r)) \<and>
    findPending (coTracker (rnConn r')) 4 = Some p \<and> pAPIKey p = k \<and> pAPIVersion p = 0 \<and> pCorrelID p = 4 \<and>
    pRewrite p = Some rw \<and> coIdleTimeout (rnConn r') = 0 \<and>
    coBrokerR (rnConn r') = NewReader (fst (netOf broker)) MaxFrameSize \<and> coClientW (rnConn r') = snd (netOf (encFrame (askFor key)))"
proof -
  have 0: "syConns (demoStart []) = Map.empty" "syFinished (demoStart []) = Map.empty" by (simp_all add: demoStart_def startSystem_def)
  obtain s r where s: "(system_step compute)\<^sup>*\<^sup>* (demoStart []) s" "syConns s 0 = Some r"
      "standsAt (encFrame (askFor key)) 1000 (NewTracker 0 0) r" "mapsTo sampleMapping (syIc s)"
      "coBrokerR (rnConn r) = NewReader (fst (netOf broker)) MaxFrameSize" "coClientW (rnConn r) = snd (netOf (encFrame (askFor key)))"
    using demo_admitted [OF rtranclp.rtrancl_refl refl 0 refl refl refl, of compute "encFrame (askFor key)" broker] by blast
  let ?q = "newPending (plainHeader k) (Some rw) None"
  obtain ic' where req: "OnRequest quietEnv (plainHeader k) [] (liveIc s) = (Some ?q, ic')"
    using assms(2) [of "liveIc s"] s(4) by (metis liveIc_simps(4) prod.collapse)
  have deps: "icDeps ic' = icDeps (liveIc s)"
    using OnRequest_deps [of quietEnv "plainHeader k" "[]" "liveIc s"] req by simp
  have ten: "HeaderSize (plainHeader k) = 10" "length (askFor key) = 10" "CorrelID (plainHeader k) = 4"
    by (simp_all add: plainHeader_def askFor_def)
  obtain r' c0 where s': "syConns (pumped quietEnv s r) 0 = Some r'" "sameDown r r'" "icDeps (syIc (pumped quietEnv s r)) = icDeps ic'"
      "standsAt [] (1000 - 14) (snd (Register 0 (NewTracker 0 0) (stampPending (plainHeader k) 0 ?q))) r'"
      "upstreamPump (productionHooks quietEnv) quietPump (rnConn (liveRun s r)) (liveIc s) = (None, c0, ic')"
    using pumped_iteration [OF s(2) quiet_pool, of "askFor key" "[]" 1000 "NewTracker 0 0" "plainHeader k" "Some ?q" ic' _ _ compute]
      s(3) assms(1) req ten register_first(1) by (auto simp: spliceRequest_def newPending_def)
  have "pending (rstream (coClientR (rnConn r))) = encFrame (askFor key) @ []" "int (length (askFor key)) \<le> maxSize (coClientR (rnConn r))"
      "length (askFor key) < 2 ^ 31"
    using s(3) ten(2) by (simp_all add: standsAt_def MaxFrameSize_def)
  from ReadFrame_encFrame [OF this] obtain b rd where "ReadFrame (coClientR (rnConn r)) (coUpBuf (rnConn r)) = Inr (askFor key, b, rd)"
    by blast
  moreover have "findPending (coTracker (rnConn r')) 4 = Some (stampPending (plainHeader k) 0 ?q)"
    using register_first(2) [of "stampPending (plainHeader k) 0 ?q"] s'(4) ten(3) by (simp add: standsAt_def stampPending_def)
  moreover have "mapsTo sampleMapping (syIc (pumped quietEnv s r))" using s(4) s'(3) deps by (simp add: mapsTo_def liveIc_def)
  moreover have "rnUp r = Running" using s(3) by (simp add: standsAt_def)
  ultimately show ?thesis
    using s(1,2,5,6) s'(1,2,4,5)
    by (intro exI [of _ s] exI [of _ r] exI [of _ b] exI [of _ rd] exI [of _ c0] exI [of _ ic'] exI [of _ r']
        exI [of _ "stampPending (plainHeader k) 0 ?q"])
      (simp add: sameDown_def standsAt_def stampPending_def newPending_def plainHeader_def)
qed

lemma down_iteration:
  assumes "coIdleTimeout c = 0" "coBrokerR c = NewReader (fst (netOf (encFrame body))) MaxFrameSize" "length body < 1000"
    and "PeekResponseCorrelID body = Inr 4" "findPending (coTracker c) 4 = Some p" "pRewrite p = Some rw"
    and "DecodeResponseHeader body (pAPIKey p) (pAPIVersion p) = Inr rh"
    and "hkRewrite hk i rw [] (drop (RespHeaderSize rh) body) p = (Inr payload, i')"
    and "length (AppendResponseHeader [] (pAPIKey p) (pAPIVersion p) (pCorrelID p) @ payload) < 900" "room (coClientW c) = 1000"
  shows "\<exists>b rd c'. ReadFrame (coBrokerR c) (coDownBuf c) = Inr (body, b, rd) \<and> downstreamPump hk quietPump c i = (None, c', i')"
proof -
  have "pending (rstream (coBrokerR c)) = encFrame body @ []" "int (length body) \<le> maxSize (coBrokerR c)" "length body < 2 ^ 31"
    using assms(2,3) by (simp_all add: NewReader_def netOf_def MaxFrameSize_def)
  from ReadFrame_encFrame [OF this] obtain b rd where read: "ReadFrame (coBrokerR c) (coDownBuf c) = Inr (body, b, rd)" by blast
  let ?out = "AppendResponseHeader [] (pAPIKey p) (pAPIVersion p) (pCorrelID p) @ payload"
  have w: "WriteFrame (coClientW c) ?out = (None, (coClientW c)\<lparr>written := written (coClientW c) @ encFrame ?out,
      room := room (coClientW c) - (4 + length ?out)\<rparr>)"
    using assms(9,10) by (intro WriteFrame_ok) simp_all
  have "\<exists>c'. downstreamPump hk quietPump c i = (None, c', i')"
    using assms(5) [unfolded findPending_def] w
    by (simp add: downstreamPump_def setDeadline_def assms(1) read assms(4) Take_def assms(6) Let_def handleResponse_def
        assms(7,8) forwardDown_def)
  with read show ?thesis by blast
qed

definition tellBrokers :: bytes where
  "tellBrokers = [0,0,0,4, 0,0,0,1, 0,0,0,7, 0,1,98, 0,0,35,132, 0,0,0,0]"

definition toldBrokers :: MetadataResponse where
  "toldBrokers = \<lparr>mrVersion = 0, mrThrottleTimeMs = 0,
    mrBrokers = [\<lparr>mbNodeID = 7, mbHost = ''b'', mbPort = 9092, mbRack = '''', mbRackNull = False\<rparr>],
    mrClusterID = '''', mrClusterIDNull = False, mrControllerID = -1, mrTopics = [],
    mrClusterAuthorizedOperations = 0\<rparr>"

lemma tell_codec:
  "DecodeMetadataResponse (drop 4 tellBrokers) 0 = Inr toldBrokers"
  "AppendMetadataResponse [] (snd (RewriteMetadataResponse (envFold quietEnv) toldBrokers (Some sampleMapping)))
    = [0,0,0,1, 0,0,0,7, 0,1,112, 0,0,74,148, 0,0,0,0]"
  "PeekResponseCorrelID tellBrokers = Inr 4"
  "DecodeResponseHeader tellBrokers 3 0 = Inr \<lparr>RespCorrelID = 4, RespHeaderSize = 4\<rparr>"
  "AppendResponseHeader [] 3 0 4 = [0,0,0,4]" "length tellBrokers = 23"
  by code_simp+

theorem clients_see_advertised_brokers_witness:
  "\<exists>s r c i sent ck. (system_step (\<lambda>inp. None))\<^sup>*\<^sup>* (demoStart []) s \<and> syConns s 0 = Some r \<and>
     downstreamPump (productionHooks quietEnv) quietPump (rnConn (liveRun s r)) (liveIc s) = (None, c, i) \<and>
     written (coClientW c) = encFrame (AppendResponseHeader [] APIMetadata 0 4 @ sent) \<and>
     DecodeMetadataResponse sent 0 = Inr ck \<and> map (\<lambda>b. (mbHost b, mbPort b)) (mrBrokers ck) = [(''p'', 19092)]"
proof -
  have "fst (OnRequest quietEnv (plainHeader 3) [] ic) = Some (newPending (plainHeader 3) (Some RewriteMetadataResp) None)"
    if "mapsTo sampleMapping ic" for ic
    using OnRequest_metadata [OF that, of "plainHeader 3" quietEnv "[]"] by (simp add: plainHeader_def APIMetadata_def)
  from asked [OF ask_header(1) this, of "\<lambda>inp. None" "encFrame tellBrokers"] obtain s0 r0 b0 rd0 c0 i0 r p where
      s0: "(system_step (\<lambda>inp. None))\<^sup>*\<^sup>* (demoStart []) s0" "syConns s0 0 = Some r0" "rnUp r0 = Running"
        "ReadFrame (coClientR (rnConn r0)) (coUpBuf (rnConn r0)) = Inr (askFor 3, b0, rd0)"
        "upstreamPump (productionHooks quietEnv) quietPump (rnConn (liveRun s0 r0)) (liveIc s0) = (None, c0, i0)"
      and s: "syConns (pumped quietEnv s0 r0) 0 = Some r" "mapsTo sampleMapping (syIc (pumped quietEnv s0 r0))"
      and p: "findPending (coTracker (rnConn r)) 4 = Some p" "pAPIKey p = 3" "pAPIVersion p = 0" "pCorrelID p = 4"
        "pRewrite p = Some RewriteMetadataResp"
      and r: "coIdleTimeout (rnConn r) = 0" "coBrokerR (rnConn r) = NewReader (fst (netOf (encFrame tellBrokers))) MaxFrameSize"
        "coClientW (rnConn r) = snd (netOf (encFrame (askFor 3)))" by blast
  let ?s = "pumped quietEnv s0 r0" and ?h = "plainHeader 3"
  have h: "APIKey ?h = APIMetadata" "CorrelID ?h = 4" "APIVersion ?h = 0" by (simp_all add: plainHeader_def APIMetadata_def)
  obtain i where rw: "applyRewrite quietEnv (liveIc ?s) RewriteMetadataResp [] (drop 4 tellBrokers) p
      = (Inr [0,0,0,1, 0,0,0,7, 0,1,112, 0,0,74,148, 0,0,0,0], i)"
    using s(2) tell_codec(1,2) p(3) by (simp add: applyRewrite_def rewriteMetadataResp_def mapsTo_def liveIc_def Let_def case_prod_unfold)
  obtain b rd c where read: "ReadFrame (coBrokerR (rnConn (liveRun ?s r))) (coDownBuf (rnConn (liveRun ?s r))) = Inr (tellBrokers, b, rd)"
      and down: "downstreamPump (productionHooks quietEnv) quietPump (rnConn (liveRun ?s r)) (liveIc ?s) = (None, c, i)"
    using down_iteration [of "rnConn (liveRun ?s r)" tellBrokers p RewriteMetadataResp "\<lparr>RespCorrelID = 4, RespHeaderSize = 4\<rparr>"
        "productionHooks quietEnv" "liveIc ?s" _ i] r p rw tell_codec
    by (auto simp: liveRun_def productionHooks_def netOf_def)
  have read': "ReadFrame (coBrokerR (rnConn r)) (coDownBuf (rnConn r)) = Inr (tellBrokers, b, rd)" using read by (simp add: liveRun_def)
  have topo: "byNodeID sampleMapping \<noteq> []" by (simp add: sampleMapping_def)
  have fit: "advertisedFit (IsFlexibleResponse APIMetadata (APIVersion ?h)) sampleMapping" by (rule sample_topology)
  have peek: "PeekResponseCorrelID tellBrokers = Inr (CorrelID ?h)" by (simp add: tell_codec h)
  have "\<exists>sent ck. written (coClientW c) = encFrame (AppendResponseHeader [] APIMetadata 0 4 @ sent) \<and>
      DecodeMetadataResponse sent 0 = Inr ck \<and>
      ck = toldBrokers\<lparr>mrBrokers := map (rewriteBroker (envFold quietEnv) sampleMapping) (mrBrokers toldBrokers)\<rparr>"
    using clients_see_advertised_brokers [OF s0(1) [unfolded demoStart_def] topo s0(2,3) quiet_pool s0(4) ask_header(1) h(1) s0(5)
        rtranclp.rtrancl_refl s(1) [unfolded pumped_def] read' peek fit down [unfolded pumped_def]]
      tell_codec(1,4) by (auto simp: h r netOf_def APIMetadata_def)
  moreover have "(system_step (\<lambda>inp. None))\<^sup>*\<^sup>* (demoStart []) ?s"
    using s0(1) pumped_step [OF s0(2,3) quiet_pool] by (rule rtranclp.rtrancl_into_rtrancl)
  ultimately show ?thesis
    using s down by (fastforce simp: toldBrokers_def rewriteBroker_def Lookup_def sampleMapping_def mget_def)
qed

definition tellCoordinator :: bytes where
  "tellCoordinator = [0,0,0,4, 0,0, 0,0,0,7, 0,1,104, 0,0,35,132]"

definition toldCoordinator :: FindCoordinatorResponse where
  "toldCoordinator = \<lparr>fcVersion = 0, fcThrottleTimeMs = 0, fcErrorCode = 0, fcErrorMessage = '''',
     fcErrorMessageNull = False, fcNodeID = 7, fcHost = ''h'', fcPort = 9092, fcCoordinators = []\<rparr>"

lemma coordinator_codec:
  "DecodeFindCoordinatorResponse (drop 4 tellCoordinator) 0 = Inr toldCoordinator"
  "AppendFindCoordinatorResponse [] (snd (RewriteFindCoordinatorResponse (envFold quietEnv) toldCoordinator (Some sampleMapping)))
    = [0,0, 0,0,0,7, 0,1,112, 0,0,74,148]"
  "PeekResponseCorrelID tellCoordinator = Inr 4"
  "DecodeResponseHeader tellCoordinator 10 0 = Inr \<lparr>RespCorrelID = 4, RespHeaderSize = 4\<rparr>"
  "AppendResponseHeader [] 10 0 4 = [0,0,0,4]" "length tellCoordinator = 17"
  "fcHost (snd (RewriteFindCoordinatorResponse (envFold quietEnv) toldCoordinator (Some sampleMapping))) = ''p''"
  by code_simp+

theorem clients_see_advertised_coordinators_witness:
  "\<exists>s r c i sent ck. (system_step (\<lambda>inp. None))\<^sup>*\<^sup>* (demoStart []) s \<and> syConns s 0 = Some r \<and>
     downstreamPump (productionHooks quietEnv) quietPump (rnConn (liveRun s r)) (liveIc s) = (None, c, i) \<and>
     written (coClientW c) = encFrame (AppendResponseHeader [] APIFindCoordinator 0 4 @ sent) \<and>
     DecodeFindCoordinatorResponse sent 0 = Inr ck \<and> fcHost ck = ''p''"
proof -
  have "fst (OnRequest quietEnv (plainHeader 10) [] ic) = Some (newPending (plainHeader 10) (Some RewriteFindCoordResp) None)"
    if "mapsTo sampleMapping ic" for ic
    using OnRequest_findcoord [OF that, of "plainHeader 10" quietEnv "[]"] by (simp add: plainHeader_def APIFindCoordinator_def)
  from asked [OF ask_header(2) this, of "\<lambda>inp. None" "encFrame tellCoordinator"] obtain s0 r0 b0 rd0 c0 i0 r p where
      s0: "(system_step (\<lambda>inp. None))\<^sup>*\<^sup>* (demoStart []) s0" "syConns s0 0 = Some r0" "rnUp r0 = Running"
        "ReadFrame (coClientR (rnConn r0)) (coUpBuf (rnConn r0)) = Inr (askFor 10, b0, rd0)"
        "upstreamPump (productionHooks quietEnv) quietPump (rnConn (liveRun s0 r0)) (liveIc s0) = (None, c0, i0)"
      and s: "syConns (pumped quietEnv s0 r0) 0 = Some r" "mapsTo sampleMapping (syIc (pumped quietEnv s0 r0))"
      and p: "findPending (coTracker (rnConn r)) 4 = Some p" "pAPIKey p = 10" "pAPIVersion p = 0" "pCorrelID p = 4"
        "pRewrite p = Some RewriteFindCoordResp"
      and r: "coIdleTimeout (rnConn r) = 0" "coBrokerR (rnConn r) = NewReader (fst (netOf (encFrame tellCoordinator))) MaxFrameSize"
        "coClientW (rnConn r) = snd (netOf (encFrame (askFor 10)))" by blast
  let ?s = "pumped quietEnv s0 r0" and ?h = "plainHeader 10"
  have h: "APIKey ?h = APIFindCoordinator" "CorrelID ?h = 4" "APIVersion ?h = 0" by (simp_all add: plainHeader_def APIFindCoordinator_def)
  obtain i where rw: "applyRewrite quietEnv (liveIc ?s) RewriteFindCoordResp [] (drop 4 tellCoordinator) p
      = (Inr [0,0, 0,0,0,7, 0,1,112, 0,0,74,148], i)"
    using s(2) coordinator_codec(1,2) p(3) by (simp add: applyRewrite_def rewriteFindCoordResp_def mapsTo_def liveIc_def Let_def)
  obtain b rd c where read: "ReadFrame (coBrokerR (rnConn (liveRun ?s r))) (coDownBuf (rnConn (liveRun ?s r))) = Inr (tellCoordinator, b, rd)"
      and down: "downstreamPump (productionHooks quietEnv) quietPump (rnConn (liveRun ?s r)) (liveIc ?s) = (None, c, i)"
    using down_iteration [of "rnConn (liveRun ?s r)" tellCoordinator p RewriteFindCoordResp "\<lparr>RespCorrelID = 4, RespHeaderSize = 4\<rparr>"
        "productionHooks quietEnv" "liveIc ?s" _ i] r p rw coordinator_codec
    by (auto simp: liveRun_def productionHooks_def netOf_def)
  have read': "ReadFrame (coBrokerR (rnConn r)) (coDownBuf (rnConn r)) = Inr (tellCoordinator, b, rd)" using read by (simp add: liveRun_def)
  have topo: "byNodeID sampleMapping \<noteq> []" by (simp add: sampleMapping_def)
  have fit: "advertisedFit (IsFlexibleResponse APIFindCoordinator (APIVersion ?h)) sampleMapping" by (rule sample_topology)
  have peek: "PeekResponseCorrelID tellCoordinator = Inr (CorrelID ?h)" by (simp add: coordinator_codec h)
  have "\<exists>sent ck. written (coClientW c) = encFrame (AppendResponseHeader [] APIFindCoordinator 0 4 @ sent) \<and>
      DecodeFindCoordinatorResponse sent 0 = Inr ck \<and>
      ck = snd (RewriteFindCoordinatorResponse (envFold quietEnv) toldCoordinator (Some sampleMapping))"
    using clients_see_advertised_coordinators [OF s0(1) [unfolded demoStart_def] topo s0(2,3) quiet_pool s0(4) ask_header(2) h(1) s0(5)
        rtranclp.rtrancl_refl s(1) [unfolded pumped_def] read' peek fit down [unfolded pumped_def]]
      coordinator_codec(1,4) by (auto simp: h r netOf_def APIFindCoordinator_def)
  moreover have "(system_step (\<lambda>inp. None))\<^sup>*\<^sup>* (demoStart []) ?s"
    using s0(1) pumped_step [OF s0(2,3) quiet_pool] by (rule rtranclp.rtrancl_into_rtrancl)
  ultimately show ?thesis
    using s down coordinator_codec(7) by blast
qed

section \<open>A leader shares out its group\<close>

text \<open>The broker's answer on the side channel: topic \<open>t\<close> with partitions 1 and 0.\<close>

definition sidePart :: "int32 \<Rightarrow> MetadataPartition" where
  "sidePart n = \<lparr>mpErrorCode = 0, mpPartitionIndex = n, mpLeaderID = 7, mpLeaderEpoch = 0, mpReplicaNodes = [], mpIsrNodes = [],
     mpOfflineReplicas = []\<rparr>"

definition sideResponse :: MetadataResponse where
  "sideResponse = \<lparr>mrVersion = 9, mrThrottleTimeMs = 0, mrBrokers = [], mrClusterID = '''', mrClusterIDNull = True,
     mrControllerID = 7, mrTopics = [\<lparr>mtErrorCode = 0, mtName = ''t'', mtNameNull = False, mtTopicID = zeroTopicID, mtIsInternal = False,
        mtPartitions = [sidePart 1, sidePart 0], mtAuthorizedOperations = 0\<rparr>],
     mrClusterAuthorizedOperations = 0\<rparr>"

definition sideBytes :: bytes where
  "sideBytes = encFrame (AppendResponseHeader [] APIMetadata 9 1 @ AppendMetadataResponse [] sideResponse)"

definition sideSnapshot :: MetaSnapshot where
  "sideSnapshot = \<lparr>msBuiltAt = 5, msByTopic = [(''t'', [1, 0])], msBrokerByID = []\<rparr>"

lemma side_codec:
  "DecodeMetadataResponse (AppendMetadataResponse [] sideResponse) 9 = Inr sideResponse"
  "length (AppendResponseHeader [] APIMetadata 9 1 @ AppendMetadataResponse [] sideResponse) < 100"
  "length (requestFrame ''k'' 1 APIMetadata 9 (encodeMetadataReqV9 None False)) < 100"
  "buildSnapshot 5 sideResponse = sideSnapshot"
  by code_simp+

lemma side_fetch: "fst (Fetch newBuffer 5 (NewKConn (netOf sideBytes) ''k'')) = Inr sideSnapshot"
proof -
  let ?c = "NewKConn (netOf sideBytes) ''k''"
  have c: "kcClientID ?c = ''k''" "nextCorrelID ?c = 0" "room (kcW ?c) = 1000" "maxSize (kcR ?c) = MaxFrameSize"
      "pending (rstream (kcR ?c)) = encFrame (AppendResponseHeader [] APIMetadata 9 (nextCorrelID ?c + 1) @ AppendMetadataResponse [] sideResponse) @ []"
    by (simp_all add: NewKConn_def netOf_def NewReader_def MaxFrameSize_def sideBytes_def)
  obtain c' where "Do newBuffer ?c APIMetadata 9 (encodeMetadataReqV9 None False) = (Inr (AppendMetadataResponse [] sideResponse), c')"
    using Do_answered [OF _ _ _ c(5), of "encodeMetadataReqV9 None False" newBuffer] side_codec(2,3)
    by (auto simp: c MaxFrameSize_def)
  then show ?thesis
    by (simp add: Fetch_def Metadata_rpc_def rpc_def side_codec(1,4))
qed

text \<open>A refresh that publishes what it fetched: lead, fetch, store.\<close>

lemma refreshed:
  assumes "cPhase (syCache s) 0 = Idle" "cFlight (syCache s) = None" "fst (Fetch fresh now (sySide s)) = Inr snap"
  shows "\<exists>s'. (system_step compute)\<^sup>*\<^sup>* s s' \<and> Get_cache (syCache s') = Some snap \<and> syGw s' = syGw s \<and> syConns s' = syConns s \<and>
    syFinished s' = syFinished s \<and> icDeps (syIc s') = icDeps (syIc s) \<and> icSubscription (syIc s') = icSubscription (syIc s) \<and> syHolder s' = syHolder s \<and>
    syConnCfg s' = syConnCfg s"
proof -

  define c1 where "c1 = (syCache s)\<lparr>cFlight := Some (cNext (syCache s)), cNext := Suc (cNext (syCache s)),
      cPhase := (cPhase (syCache s))(0 := Fetching (cNext (syCache s)))\<rparr>"
  define c2 where "c2 = fetchDone 0 (cNext (syCache s)) (Inr (Some snap)) c1"
  define c3 where "c3 = c2\<lparr>cCur := publish (Inr (Some snap)) (cCur c2), cPhase := (cPhase c2)(0 := Stored (cNext (syCache s)) (Inr (Some snap)))\<rparr>"
  define s1 where "s1 = s\<lparr>syCache := c1\<rparr>"
  obtain side where f: "Fetch fresh now (sySide s) = (Inr snap, side)" using assms(3) by (metis prod.collapse)
  define s2 where "s2 = s1\<lparr>syCache := c2, sySide := side\<rparr>"
  define s3 where "s3 = s2\<lparr>syCache := c3\<rparr>"
  have "refresh_step (syCache s) c1" unfolding c1_def by (rule refresh_step.lead [OF assms(1,2)])
  moreover have "cacheOnly (syCache s) c1" using assms(1) by (auto simp: cacheOnly_def c1_def)
  ultimately have "system_step compute s s1"
    unfolding s1_def by (rule system_step.cache)
  moreover have "sySide s1 = sySide s" "syCache s1 = c1" by (simp_all add: s1_def)
  then have "system_step compute s1 s2"
    using system_step.fetch [of s1 0 "cNext (syCache s)" fresh now "Inr snap" side] f by (simp add: s2_def c2_def c1_def)
  moreover have "refresh_step c2 c3" unfolding c3_def by (rule refresh_step.store) (simp add: c2_def fetchDone_def)
  then have "refresh_step (syCache s2) c3" "cacheOnly (syCache s2) c3"
    by (auto simp: s2_def cacheOnly_def c3_def c2_def fetchDone_def)
  then have "system_step compute s2 s3"
    unfolding s3_def by (rule system_step.cache)
  moreover have "Get_cache (syCache s3) = Some snap" by (simp add: s3_def Get_cache_def c3_def publish_def)
  ultimately show ?thesis
    by (intro exI [of _ s3]) (simp add: s3_def s2_def s1_def)
qed

text \<open>The pool answers a call: enter, open a reply channel, hand the request to a worker, compute, receive.\<close>

lemma pool_serves: "\<exists>p. (planner_step compute)\<^sup>*\<^sup>* (New 1 0 0) p \<and> plCaller p 0 = Returned inp (Inr (compute inp))"
proof -
  define rq where "rq = \<lparr>rqIn = inp, rqReply = 0\<rparr>"
  define p0 where "p0 = New 1 0 0"
  define p1 where "p1 = setCaller 0 (Entered inp) p0"
  define p2 where "p2 = setCaller 0 (Sending (plNext p1) inp) (p1\<lparr>plNext := Suc (plNext p1)\<rparr>)"
  define p3 where "p3 = setCaller 0 (Awaiting 0 inp) (p2\<lparr>plBusy := (plBusy p2)(0 \<mapsto> rq)\<rparr>)"
  define p4 where "p4 = p3\<lparr>plBusy := (plBusy p3)(0 := None), plReplies := (plReplies p3)(rqReply rq \<mapsto> runOne compute rq)\<rparr>"
  define p5 where "p5 = setCaller 0 (Returned inp (Inr (rpPlan (runOne compute rq)))) p4"
  note defs = p0_def p1_def p2_def p3_def p4_def New_def setCaller_def Let_def rq_def
  have 1: "plan_step p0 p1" unfolding p1_def by (rule plan_step.enter) (simp add: p0_def New_def)
  have 2: "plan_step p1 p2" unfolding p2_def by (rule plan_step.open_reply) (simp_all add: defs)
  have 3: "plan_step p2 p3" unfolding p3_def rq_def by (rule plan_step.handoff) (simp_all add: defs idleWorker_def)
  have 4: "worker_step compute p3 p4" unfolding p4_def by (rule worker_step.reply) (simp add: p3_def setCaller_def)
  have 5: "plan_step p4 p5" unfolding p5_def by (rule plan_step.receive) (simp_all add: defs)
  have "planner_step compute p0 p1" "planner_step compute p1 p2" "planner_step compute p2 p3" "planner_step compute p3 p4"
      "planner_step compute p4 p5"
    using 1 2 3 4 5 by (auto simp: planner_step_def)
  then have "(planner_step compute)\<^sup>*\<^sup>* p0 p5" by simp
  moreover have "plCaller p5 0 = Returned inp (Inr (compute inp))"
    by (simp add: p5_def setCaller_def runOne_plan rq_def)
  ultimately show ?thesis unfolding p0_def by blast
qed

lemma pool_lifted:
  "(planner_step compute)\<^sup>*\<^sup>* (gwPool (syGw s)) p \<Longrightarrow> (system_step compute)\<^sup>*\<^sup>* s (s\<lparr>syGw := (syGw s)\<lparr>gwPool := p\<rparr>\<rparr>)"
proof (induction rule: rtranclp_induct)
  case (step y z)
  have "system_step compute (s\<lparr>syGw := (syGw s)\<lparr>gwPool := y\<rparr>\<rparr>) (s\<lparr>syGw := (syGw s)\<lparr>gwPool := z\<rparr>\<rparr>)"
    using system_step.pool [of compute "s\<lparr>syGw := (syGw s)\<lparr>gwPool := y\<rparr>\<rparr>" z] step(2) by simp
  with step show ?case by simp
qed simp

text \<open>Member \<open>m\<close> of group \<open>g\<close> subscribes to \<open>t\<close>; as leader it then lists \<open>m\<close> and \<open>n\<close>.\<close>

definition joinBody :: bytes where
  "joinBody = [0,1,103, 0,0,0,9, 0,1,109, 0,1,99, 0,0,0,1, 0,1,114, 0,0,0,13, 0,0, 0,0,0,1, 0,1,116, 0,0,0,0]"

definition joinedStore :: Store where
  "joinedStore = snd (Put 9 (wireStore demoCfg) \<lparr>sbGroupID = ''g'', sbMemberID = ''m'', sbTopics = [''t''], sbOwnedPartitions = [],
     sbGenerationID = 0, sbUpdatedAt = 0\<rparr>)"

definition demoInputs :: Inputs where
  "demoInputs = \<lparr>inGroupID = ''g'', inMembers = [\<lparr>mMemberID = ''m'', mTopics = [''t''], mLag = 0\<rparr>],
     inPartitions = [(''t'', [1, 0])], inPrevious = None\<rparr>"

definition planEnv :: Env where
  "planEnv = quietEnv\<lparr>envPlan := (\<lambda>inp. if inp = demoInputs then Inr (samplePlan, 3) else Inl PlanCtx)\<rparr>"

definition demoCompute :: "Inputs \<Rightarrow> Plan option" where
  "demoCompute = (\<lambda>inp. Some (Compute ((\<lambda>inp xs. xs) inp) inp))"

lemma demo_planned: "Compute (\<lambda>xs. xs) demoInputs = samplePlan"
  by code_simp

lemma join_codec:
  "DecodeRequestHeader (askFor 11 @ joinBody) = Inr (plainHeader 11)"
  "DecodeRequestHeader (askFor 14 @ sampleSyncBody) = Inr (plainHeader 14)"
  "map_sum id (\<lambda>jg. (jgGroup jg, jgMemberID jg, map jpMetadata (jgProtocols jg))) (DecodeJoinGroupRequest joinBody 0)
    = Inr (''g'', ''m'', [drop 24 joinBody])"
  "map_sum id (\<lambda>sub. (suTopics sub, suOwnedPartitions sub, suGenerationID sub)) (DecodeSubscription (drop 24 joinBody)) = Inr ([''t''], [], 0)"
  "length (askFor 11 @ joinBody) = 47" "length (askFor 14 @ sampleSyncBody) = 38"
  by code_simp+

lemma join_request:
  assumes "icSubscription ic = Some (wireStore demoCfg)"
  shows "\<exists>ic'. OnRequest quietEnv (plainHeader 11) joinBody ic = (None, ic') \<and> icSubscription ic' = Some joinedStore"
proof -
  obtain jg where jg: "DecodeJoinGroupRequest joinBody 0 = Inr jg" "jgGroup jg = ''g''" "jgMemberID jg = ''m''"
      "map jpMetadata (jgProtocols jg) = [drop 24 joinBody]"
    using join_codec(3) by (cases "DecodeJoinGroupRequest joinBody 0") auto
  obtain sub where sub: "DecodeSubscription (drop 24 joinBody) = Inr sub" "suTopics sub = [''t'']" "suOwnedPartitions sub = []"
      "suGenerationID sub = 0"
    using join_codec(4) by (cases "DecodeSubscription (drop 24 joinBody)") auto
  obtain pr where "jgProtocols jg = [pr]" "jpMetadata pr = drop 24 joinBody" using jg(4) by auto
  then show ?thesis
    using assms jg sub
    by (simp add: OnRequest_def onJoinGroup_def plainHeader_def onMetrics_def bumpPassthru_def Let_def joinedStore_def quietEnv_def
        APIMetadata_def APIFindCoordinator_def APIJoinGroup_def)
qed

lemma leader_inputs:
  assumes "dTelemetry (icDeps ic) = Some None" "dMetadata (icDeps ic) = Some (Some sideSnapshot)"
  shows "planInputs ic joinedStore sampleSG = demoInputs"
proof -
  have "planMembers joinedStore (Some None) ''g'' (sgAssignments sampleSG) = inMembers demoInputs"
    "planPartitions (Some (Some sideSnapshot)) (inMembers demoInputs) = inPartitions demoInputs"
    by code_simp+
  then show ?thesis
    by (simp add: planInputs_def assms Let_def) (simp add: demoInputs_def sampleSG_def)
qed

lemma leader_ready:
  "\<exists>s r. (system_step demoCompute)\<^sup>*\<^sup>* (demoStart sideBytes) s \<and> syConns s 0 = Some r \<and>
    standsAt (encFrame (askFor 14 @ sampleSyncBody)) 949 (NewTracker 0 0) r \<and> icSubscription (syIc s) = Some joinedStore \<and>
    Get_cache (syCache s) = Some sideSnapshot \<and> Get_holder (syHolder s) = None \<and> dHasPlanner (icDeps (syIc s)) \<and>
    plCaller (gwPool (syGw s)) 0 = Returned demoInputs (Inr (Some samplePlan))"
proof -
  let ?start = "demoStart sideBytes" and ?sync = "encFrame (askFor 14 @ sampleSyncBody)"
  have start: "cPhase (syCache ?start) 0 = Idle" "cFlight (syCache ?start) = None" "sySide ?start = NewKConn (netOf sideBytes) ''k''"
      "syConns ?start = Map.empty" "syFinished ?start = Map.empty" "syHolder ?start = \<lparr>hCur = None\<rparr>"
    by (simp_all add: demoStart_def startSystem_def NewCache_def)
  obtain s1 where s1: "(system_step demoCompute)\<^sup>*\<^sup>* ?start s1" "Get_cache (syCache s1) = Some sideSnapshot" "syGw s1 = syGw ?start"
      "syConns s1 = Map.empty" "syFinished s1 = Map.empty" "icDeps (syIc s1) = icDeps (syIc ?start)" "icSubscription (syIc s1) = icSubscription (syIc ?start)"
      "syHolder s1 = \<lparr>hCur = None\<rparr>" "syConnCfg s1 = syConnCfg ?start"
    using refreshed [of ?start newBuffer 5 sideSnapshot demoCompute] start side_fetch by auto
  obtain s2 r2 where s2: "(system_step demoCompute)\<^sup>*\<^sup>* ?start s2" "syConns s2 0 = Some r2"
      "standsAt (encFrame (askFor 11 @ joinBody) @ ?sync) 1000 (NewTracker 0 0) r2"
      "icSubscription (syIc s2) = Some (wireStore demoCfg)" "dHasPlanner (icDeps (syIc s2))" "gwPool (syGw s2) = New 1 0 0"
      "syCache s2 = syCache s1" "syHolder s2 = syHolder s1"
    using demo_admitted [OF s1(1,3,4,5,6,7,9), of "encFrame (askFor 11 @ joinBody) @ ?sync" "[]"] by blast
  obtain ic' where join: "OnRequest quietEnv (plainHeader 11) joinBody (liveIc s2) = (None, ic')" "icSubscription ic' = Some joinedStore"
    using join_request [of "liveIc s2"] s2(4) by auto
  have deps: "icDeps ic' = icDeps (liveIc s2)"
    using OnRequest_deps [of quietEnv "plainHeader 11" joinBody "liveIc s2"] join by simp
  have body: "drop (HeaderSize (plainHeader 11)) (askFor 11 @ joinBody) = joinBody" by (simp add: plainHeader_def askFor_def)
  obtain s3 r3 where s3: "system_step demoCompute s2 s3" "syConns s3 0 = Some r3" "standsAt ?sync 949 (NewTracker 0 0) r3"
      "syGw s3 = syGw s2" "syCache s3 = syCache s2" "syHolder s3 = syHolder s2" "icSubscription (syIc s3) = Some joinedStore"
      "icDeps (syIc s3) = icDeps (liveIc s2)"
    using pumped_iteration [OF s2(2) quiet_pool s2(3), of "plainHeader 11" None ic' "askFor 11 @ joinBody" "NewTracker 0 0" demoCompute]
      join_codec(1,5) join body deps by auto
  obtain p where p: "(planner_step demoCompute)\<^sup>*\<^sup>* (gwPool (syGw s3)) p" "plCaller p 0 = Returned demoInputs (Inr (demoCompute demoInputs))"
    using pool_serves [of demoCompute demoInputs] s3(4) s2(6) by auto
  let ?fin = "s3\<lparr>syGw := (syGw s3)\<lparr>gwPool := p\<rparr>\<rparr>"
  have "(system_step demoCompute)\<^sup>*\<^sup>* ?start ?fin"
    using s2(1) s3(1) pool_lifted [OF p(1)] by (meson rtranclp.rtrancl_into_rtrancl rtranclp_trans)
  then show ?thesis
    using s3 p(2) s1(2,8) s2(5,7,8) demo_planned
    by (intro exI [of _ ?fin] exI [of _ r3]) (simp add: Get_holder_def demoCompute_def liveIc_def)
qed

lemma leader_fits: "planFits planEnv sampleSG samplePlan"
  "length (AppendSyncGroupRequest [] (plannedRequest planEnv sampleSG samplePlan)) = 63"
proof -
  have blobs: "encodeAssignment planEnv [(''t'', [0, 1])] = [0,0, 0,0,0,1, 0,1,116, 0,0,0,2, 0,0,0,0, 0,0,0,1, 255,255,255,255]"
    "encodeAssignment planEnv [] = [0,0, 0,0,0,0, 255,255,255,255]" by code_simp+
  show "planFits planEnv sampleSG samplePlan"
    by (simp add: planFits_def sampleSG_def samplePlan_def mgetOr_def mget_def blobs fitsAssignment_def
      plannedAssignment_def wfTopicPartitions_def fits_defs flexible_defs Let_def)
      (simp add: planEnv_def quietEnv_def wfTopicPartitions_def fits_defs)
  show "length (AppendSyncGroupRequest [] (plannedRequest planEnv sampleSG samplePlan)) = 63" by code_simp
qed

theorem broker_gets_every_partition_once_witness:
  "\<exists>s r c i req sg'. (system_step demoCompute)\<^sup>*\<^sup>* (demoStart sideBytes) s \<and> syConns s 0 = Some r \<and>
     upstreamPump (productionHooks planEnv) quietPump (rnConn (liveRun s r)) (liveIc s) = (None, c, i) \<and>
     written (coBrokerW c) = written (coBrokerW (rnConn r)) @ encFrame (askFor 14 @ req) \<and>
     DecodeRequestHeader (askFor 14 @ req) = Inr (plainHeader 14) \<and> DecodeSyncGroupRequest req 0 = Inr sg' \<and>
     map saMemberID (sgAssignments sg') = [''m'', ''n''] \<and>
     (\<exists>!j. j < length (sgAssignments sg') \<and> (''t'', 1) \<in> set (blobPairs (saMemberAssignment (sgAssignments sg' ! j))))"
proof -
  obtain s r where s: "(system_step demoCompute)\<^sup>*\<^sup>* (demoStart sideBytes) s" "syConns s 0 = Some r"
      "standsAt (encFrame (askFor 14 @ sampleSyncBody)) 949 (NewTracker 0 0) r" "icSubscription (syIc s) = Some joinedStore"
      "Get_cache (syCache s) = Some sideSnapshot" "Get_holder (syHolder s) = None" "dHasPlanner (icDeps (syIc s))"
      "plCaller (gwPool (syGw s)) 0 = Returned demoInputs (Inr (Some samplePlan))"
    using leader_ready by blast
  let ?body = "askFor 14 @ sampleSyncBody" and ?h = "plainHeader 14" and ?a = "\<lparr>saMemberID = ''m'', saMemberAssignment = [], saMAIsNull = False\<rparr>"
  let ?sub = "\<lparr>sbGroupID = ''g'', sbMemberID = ''m'', sbTopics = [''t''], sbOwnedPartitions = [], sbGenerationID = 0, sbUpdatedAt = 9\<rparr>"
  have pool: "poolEnv (gwPool (syGw s)) planEnv"
    using s(8) by (auto simp: poolEnv_def planEnv_def quietEnv_def poolAnswer_def intro!: exI [of _ "0::nat"] exI [of _ "Inr (Some samplePlan)"])
  have head: "HeaderSize ?h = 10" "take 10 ?body = askFor 14" "drop 10 ?body = sampleSyncBody" "APIVersion ?h = 0"
    by (simp_all add: plainHeader_def askFor_def)
  have inputs: "planInputs (liveIc s) joinedStore sampleSG = demoInputs"
    using s(5,6) by (intro leader_inputs) (simp_all add: liveIc_def)
  have plan: "envPlan planEnv (planInputs (liveIc s) joinedStore sampleSG) = Inr (samplePlan, 3)"
    by (simp add: inputs planEnv_def)
  have planner: "dHasPlanner (icDeps (liveIc s))" and store: "icSubscription (liveIc s) = Some joinedStore"
    using s(4,7) by (simp_all add: liveIc_def)
  have dec: "DecodeSyncGroupRequest (drop (HeaderSize ?h) ?body) (APIVersion ?h) = Inr sampleSG"
    using sample_decodes head by (simp add: plainHeader_def)
  let ?req = "AppendSyncGroupRequest [] (plannedRequest planEnv sampleSG samplePlan)"
  let ?q = "newPending ?h None (Some ?req)"
  have "fst (OnRequest planEnv ?h (drop (HeaderSize ?h) ?body) (liveIc s)) = Some ?q"
    by (rule OnRequest_syncgroup [OF sample_syncgroup(1) planner store dec _ _ plan]) (simp_all add: inputs demoInputs_def)
  then obtain ic' where req: "OnRequest planEnv ?h (drop (HeaderSize ?h) ?body) (liveIc s) = (Some ?q, ic')"
    by (metis prod.collapse)
  have out: "spliceRequest ?h ?body ?q = askFor 14 @ ?req" "length (askFor 14 @ ?req) = 73"
    using leader_fits(2) head by (simp_all add: spliceRequest_def newPending_def askFor_def)
  obtain c where up: "upstreamPump (productionHooks planEnv) quietPump (rnConn (liveRun s r)) (liveIc s) = (None, c, ic')"
    using up_iteration [of ?body "[]" 949 "NewTracker 0 0" "liveRun s r" ?h "productionHooks planEnv" "Some ?q" ic' "askFor 14 @ ?req"]
      s(3) join_codec(2,6) req out register_first(1) by (auto simp: standsAt_live productionHooks_def)
  have at: "pending (rstream (coClientR (rnConn r))) = encFrame ?body @ []" "int (length ?body) \<le> maxSize (coClientR (rnConn r))"
      "length ?body < 2 ^ 31"
    using s(3) join_codec(6) by (simp_all add: standsAt_def MaxFrameSize_def)
  from ReadFrame_encFrame [OF this] obtain b rd where read: "ReadFrame (coClientR (rnConn r)) (coUpBuf (rnConn r)) = Inr (?body, b, rd)"
    by blast
  have "distinct (map saMemberID (sgAssignments sampleSG))" "?a \<in> set (sgAssignments sampleSG)"
      "''t'' \<in> set (sbTopics ?sub)" "1 \<in> set (mgetOr [] (msByTopic sideSnapshot) ''t'')"
    by (simp_all add: sampleSG_def sideSnapshot_def mgetOr_def mget_def)
  moreover have "Get_sub joinedStore (sgGroup sampleSG) (saMemberID ?a) = Some ?sub" by code_simp
  moreover have "take (HeaderSize ?h) ?body = askFor 14" "map saMemberID (sgAssignments sampleSG) = [''m'', ''n'']"
    using head by (simp_all add: sampleSG_def askFor_def)
  ultimately show ?thesis
    using broker_gets_every_partition_once [OF s(1) [unfolded demoCompute_def demoStart_def] pool s(2) read join_codec(2) sample_syncgroup(1)
        dec _ s(4,5) _ _ _ _ up, of ?a ?sub "''t''" 1, unfolded plan sum.case prod.case] leader_fits(1) s(1,2) up head(4) by metis
qed

section \<open>Operating the gateway\<close>

theorem subscribed_groups_polled_witness:
  "\<exists>s. (system_step demoCompute)\<^sup>*\<^sup>* (demoStart sideBytes) s \<and> ''g'' \<in> set (polledGroups s)"
proof -
  obtain s where s: "(system_step demoCompute)\<^sup>*\<^sup>* (demoStart sideBytes) s" "icSubscription (syIc s) = Some joinedStore"
    using leader_ready by blast
  have "map_option sbMemberID (Get_sub joinedStore ''g'' ''m'') = Some ''m''" by code_simp
  then have "Get_sub joinedStore ''g'' ''m'' \<noteq> None" by auto
  from subscribed_groups_polled [OF s(1) [unfolded demoStart_def] s(2) this] s(1) show ?thesis by blast
qed

lemma demo_accepts:
  "svPhase (gwServe (syGw (demoStart side))) = Accepting" "semFree (gwServe (syGw (demoStart side)))"
  "syConns (demoStart side) = Map.empty" "syFinished (demoStart side) = Map.empty" "svNext (gwServe (syGw (demoStart side))) = 0"
  "svRunning (gwServe (syGw (demoStart side))) = {}" "gwPhase (syGw (demoStart side)) = Serving"
  by (simp_all add: demoStart_def startSystem_def startGateway_def newServe_def semFree_def hasSem_def listenerConfig_def demoCfg_def)

lemma demo_admit: "(system_step compute)\<^sup>*\<^sup>* (demoStart side) (admit client broker (demoStart side))"
  by (rule admit_reachable) (simp_all add: demo_accepts)

lemma one_client:
  "\<exists>s. (system_step compute)\<^sup>*\<^sup>* (demoStart []) s \<and> card (dom (syConns s)) = 1"
  using demo_admit [of compute "[]" "netOf []" "netOf []"] by (intro exI [of _ "admit (netOf []) (netOf []) (demoStart [])"]) (simp add: admit_def Let_def demo_accepts)

text \<open>A broker that says nothing makes a fetch fail.\<close>

lemma silent_fetch: "pending (rstream (kcR c)) = [] \<Longrightarrow> isl (fst (Fetch fresh now c))"
proof -
  assume "pending (rstream (kcR c)) = []"
  then obtain e where "ReadFrame (kcR c) b = Inl e" for b using ReadFrame_empty by (simp add: ReadFrame_def ReadFull_def)
  then show ?thesis
    by (auto simp: Fetch_def Metadata_rpc_def rpc_def Do_def Let_def split: prod.split option.split sum.split)
qed

text \<open>A refresh of \<open>Run\<close> that fails: lead, fetch, store, finish, count, report.\<close>

lemma refresh_fails:
  assumes "cPhase (syCache s) runThread = Idle" "cFlight (syCache s) = None" "Fetch fresh now (sySide s) = (Inl e, side)"
  shows "\<exists>s'. (system_step compute)\<^sup>*\<^sup>* s s' \<and> syConns s' = syConns s \<and> cPhase (syCache s') runThread = Idle \<and>
    runFailures (syCache s') = Suc (runFailures (syCache s))"
proof -
  let ?c = "syCache s"
  let ?k = "cNext ?c" and ?res = "Inl (FetchFailed e) :: fetchResult"
  define c1 where "c1 = ?c\<lparr>cFlight := Some ?k, cNext := Suc ?k, cPhase := (cPhase ?c)(runThread := Fetching ?k)\<rparr>"
  define c2 where "c2 = fetchDone runThread ?k ?res c1"
  define c3 where "c3 = c2\<lparr>cCur := publish ?res (cCur c2), cPhase := (cPhase c2)(runThread := Stored ?k ?res)\<rparr>"
  define c4 where "c4 = refreshReturns runThread ?res (c3\<lparr>cResult := (cResult c3)(?k \<mapsto> ?res)\<rparr>)"
  define c5 where "c5 = c4\<lparr>cErrors := cErrors c4 + 1, cPhase := (cPhase c4)(runThread := Reporting (FetchFailed e))\<rparr>"
  define run where "run c = s\<lparr>syCache := c, sySide := side\<rparr>" for c
  have upd: "(run c)\<lparr>syCache := d\<rparr> = run d" "syCache (run c) = c" for c d
    by (cases s, simp add: run_def)+
  have cacheOnlyI: "cacheOnly c d" if "\<And>t. t \<noteq> runThread \<Longrightarrow> cPhase d t = cPhase c t"
      "\<And>k. cPhase c runThread \<noteq> Fetching k" "\<And>e. cPhase c runThread \<noteq> Reporting e" for c d
    unfolding cacheOnly_def by (metis that)
  have "refresh_step ?c c1" unfolding c1_def by (rule refresh_step.lead [OF assms(1,2)])
  then have 1: "system_step compute s (s\<lparr>syCache := c1\<rparr>)"
    by (rule system_step.cache) (rule cacheOnlyI, auto simp: c1_def assms(1))
  have 2: "system_step compute (s\<lparr>syCache := c1\<rparr>) (run c2)"
    using system_step.fetch [of "s\<lparr>syCache := c1\<rparr>" runThread ?k fresh now "Inl e" side compute] assms(3)
    by (simp add: run_def c2_def c1_def)
  have "refresh_step c2 c3" unfolding c3_def by (rule refresh_step.store) (simp add: c2_def fetchDone_def)
  moreover have "cacheOnly c2 c3" by (rule cacheOnlyI) (simp_all add: c3_def c2_def fetchDone_def)
  ultimately have 3: "system_step compute (run c2) (run c3)"
    using system_step.cache [of "run c2" c3 compute] by (simp add: upd)
  have "refresh_step c3 c4" unfolding c4_def by (rule refresh_step.finish) (simp add: c3_def)
  moreover have "cacheOnly c3 c4" by (rule cacheOnlyI) (simp_all add: c4_def c3_def refreshReturns_def)
  ultimately have 4: "system_step compute (run c3) (run c4)"
    using system_step.cache [of "run c3" c4 compute] by (simp add: upd)
  have "refresh_step c4 c5" unfolding c5_def by (rule refresh_step.count) (simp add: c4_def refreshReturns_def)
  moreover have "cacheOnly c4 c5" by (rule cacheOnlyI) (simp_all add: c5_def c4_def refreshReturns_def)
  ultimately have 5: "system_step compute (run c4) (run c5)"
    using system_step.cache [of "run c4" c5 compute] by (simp add: upd)
  let ?s6 = "countInto refreshFailed ((run c5)\<lparr>syCache := errorReported runThread (syCache (run c5))\<rparr>)"
  have 6: "system_step compute (run c5) ?s6"
    by (rule system_step.on_error [of _ _ "FetchFailed e"]) (simp add: run_def c5_def)
  have "(system_step compute)\<^sup>*\<^sup>* s ?s6"
    using 1 2 3 4 5 6 by (meson converse_rtranclp_into_rtranclp rtranclp.rtrancl_refl)
  moreover have "runFailures (syCache ?s6) = Suc (runFailures ?c)"
    by (simp add: runFailures_def errorReported_def run_def c5_def c4_def c3_def c2_def c1_def refreshReturns_def fetchDone_def)
  ultimately show ?thesis
    by (intro exI [of _ ?s6]) (simp add: run_def errorReported_def)
qed

theorem gauges_tell_the_truth_witness:
  "\<exists>s mx. (system_step (\<lambda>inp. None))\<^sup>*\<^sup>* (demoStart []) s \<and> icMetrics (syIc s) = Some mx \<and> ConnActive mx = 1 \<and>
     MetadataRefreshErrors mx = 1 \<and> ErrorsTotal (syCache s) = 1"
proof -
  let ?s = "admit (netOf []) (netOf []) (demoStart [])"
  have "isl (fst (Fetch newBuffer 5 (NewKConn (netOf []) ''k'')))"
    by (rule silent_fetch) (simp add: NewKConn_def NewReader_def netOf_def)
  moreover have side: "sySide ?s = NewKConn (netOf []) ''k''" "syCache ?s = NewCache (cfRefresh demoCfg)"
    by (simp_all add: admit_def Let_def countInto_def demoStart_def startSystem_def)
  ultimately obtain e sd where "Fetch newBuffer 5 (sySide ?s) = (Inl e, sd)" by (metis isl_def prod.collapse)
  moreover have "cPhase (syCache ?s) runThread = Idle" "cFlight (syCache ?s) = None" "runFailures (syCache ?s) = 0"
    by (simp_all add: side NewCache_def runFailures_def)
  ultimately obtain s' where s': "(system_step (\<lambda>inp. None))\<^sup>*\<^sup>* ?s s'" "syConns s' = syConns ?s"
      "cPhase (syCache s') runThread = Idle" "runFailures (syCache s') = 1"
    using refresh_fails [of ?s newBuffer 5 e sd "\<lambda>inp. None"] by auto
  have reach: "(system_step (\<lambda>inp. None))\<^sup>*\<^sup>* (demoStart []) s'"
    using demo_admit [of "\<lambda>inp. None" "[]" "netOf []" "netOf []"] s'(1) by simp
  have "\<not> uncounted (syCache s')" "\<not> reporting (syCache s')" "card (dom (syConns s')) = 1"
    using s'(3) by (simp_all add: uncounted_def reporting_def s'(2) admit_def Let_def demo_accepts)
  with gauges_tell_the_truth [OF reach [unfolded demoStart_def]] s'(4) reach show ?thesis by auto
qed

theorem scraped_metrics_are_live_witness:
  "\<exists>s a r (mx :: Metrics). (system_step (\<lambda>inp. None))\<^sup>*\<^sup>* (demoStart []) s \<and> systemAdmin demoCfg s = Some a \<and>
     serveAdmin (\<lambda>v. ''0'') 5 a ''/metrics'' = Answer r \<and>
     scrapeMetrics (cfAdmin demoCfg) (Some (rsStatus r, rsBody r)) =
       ''kproxy_intercepts_total{outcome='' @ [quote] @ ''any'' @ [quote] @ ''}='' @ Itoa (sint (InterceptsTotal mx)) @
       '' kproxy_plan_count_total='' @ Itoa (sint (PlanCount mx)) @
       '' kproxy_unmapped_brokers_total='' @ Itoa (sint (UnmappedBrokers mx)) @ '' kproxy_conn_active=1 ''"
proof -
  obtain s where s: "(system_step (\<lambda>inp. None))\<^sup>*\<^sup>* (demoStart []) s" and card: "card (dom (syConns s)) = 1"
    using one_client by blast
  have one: "Itoa (sint (of_nat 1 :: int64)) = ''1''" by code_simp
  have "cfAdmin demoCfg \<noteq> ''''" "\<And>v :: int64. newline \<notin> set ''0''"
    by (simp_all add: demoCfg_def flagDefaults_def newline_char)
  from scraped_metrics_are_live [OF s [unfolded demoStart_def] this, of 5]
  obtain a r and mx :: Metrics where "systemAdmin demoCfg s = Some a" "serveAdmin (\<lambda>v. ''0'') 5 a ''/metrics'' = Answer r"
    and out: "scrapeMetrics (cfAdmin demoCfg) (Some (rsStatus r, rsBody r)) =
       ''kproxy_intercepts_total{outcome='' @ [quote] @ ''any'' @ [quote] @ ''}='' @ Itoa (sint (InterceptsTotal mx)) @
       '' kproxy_plan_count_total='' @ Itoa (sint (PlanCount mx)) @
       '' kproxy_unmapped_brokers_total='' @ Itoa (sint (UnmappedBrokers mx)) @
       '' kproxy_conn_active='' @ Itoa (sint (of_nat (card (dom (syConns s))) :: int64)) @ '' ''"
    by blast
  moreover from out have "scrapeMetrics (cfAdmin demoCfg) (Some (rsStatus r, rsBody r)) =
       ''kproxy_intercepts_total{outcome='' @ [quote] @ ''any'' @ [quote] @ ''}='' @ Itoa (sint (InterceptsTotal mx)) @
       '' kproxy_plan_count_total='' @ Itoa (sint (PlanCount mx)) @
       '' kproxy_unmapped_brokers_total='' @ Itoa (sint (UnmappedBrokers mx)) @ '' kproxy_conn_active=1 ''"
    by (simp only: card one append.simps)
  ultimately show ?thesis using s by blast
qed

text \<open>A client hangs up: its upstream pump reads the end of the stream, \<open>Run\<close> closes both sockets, the other
  pump stops, \<open>OnConnEnd\<close> is called and the goroutine ends.\<close>

lemma hangs_up:
  assumes "syConns s 0 = Some r" "rnUp r = Running" "rnDown r = Running" "rnErrCh r = []" "\<not> rnClosed r"
    and "pending (rstream (coClientR (rnConn r))) = []" "ending (rstream (coClientR (rnConn r))) = EOF" "coIdleTimeout (rnConn r) = 0"
  shows "\<exists>s' r'. (system_step compute)\<^sup>*\<^sup>* s s' \<and> syConns s' = (syConns s)(0 \<mapsto> r') \<and> returned r' \<and> rnCloseErr r' = None \<and>
    syGw s' = syGw s \<and> syFinished s' = syFinished s"
proof -
  let ?hk = "productionHooks quietEnv" and ?e = "IOErr EOF"
  define r1 where "r1 = upStep ?hk quietPump (liveRun s r)"
  define s1 where "s1 = storeRun 0 r1 s"
  define r2 where "r2 = closeBoth (Some ?e) (liveRun s1 r1)"
  define s2 where "s2 = storeRun 0 r2 s1"
  define r3 where "r3 = downStep ?hk quietPump (liveRun s2 r2)"
  define s3 where "s3 = storeRun 0 r3 s2"
  have "ReadFrame (coClientR (rnConn r)) (coUpBuf (rnConn r)) = Inl EOF"
    using assms(6,7) by (simp add: ReadFrame_def ReadFull_def)
  then have "upstreamPump ?hk quietPump (rnConn (liveRun s r)) (rnIc (liveRun s r)) = (Some ?e, rnConn (liveRun s r), liveIc s)"
    using assms(8) by (simp add: upstreamPump_def setDeadline_def liveRun_def)
  then have r1: "rnUp r1 = Exited ?e" "rnDown r1 = Running" "rnErrCh r1 = [?e]" "\<not> rnClosed r1"
    using assms(3-5) by (simp_all add: r1_def upStep_def) (simp_all add: liveRun_def)
  have 1: "system_step compute s s1" unfolding s1_def r1_def by (rule up_system [OF assms(1) quiet_pool assms(2)])
  have step: "run_step (\<lambda>n. ?hk) (liveRun s1 r1) r2" unfolding r2_def by (rule run_step.collect) (simp add: r1)
  have 2: "system_step compute s1 s2" unfolding s2_def
    by (rule system_step.conn [OF _ quiet_pool step]) (simp_all add: s1_def r2_def close_simps)
  have r2: "rnUp r2 = Exited ?e" "rnDown r2 = Running" "rnClosed r2" "rnCloseErr r2 = None" "pending (rstream (coBrokerR (rnConn r2))) = []"
    using r1 by (simp_all add: r2_def closeBoth_def closeIn_def liveRun_def)
  have 3: "system_step compute s2 s3" unfolding s3_def r3_def
    by (rule down_system [OF _ quiet_pool r2(2)]) (simp add: s2_def)
  obtain e' c' i' where "downstreamPump ?hk quietPump (rnConn (liveRun s2 r2)) (rnIc (liveRun s2 r2)) = (e', c', i')" by (metis prod_cases3)
  moreover from closed_down [OF _ this] have "e' \<noteq> None" using r2(5) by (simp add: liveRun_def)
  ultimately have "returned r3" "rnCloseErr r3 = None"
    using r2 by (auto simp: r3_def downStep_def returned_def liveRun_def)
  then show ?thesis
    using 1 2 3 by (intro exI [of _ s3] exI [of _ r3]) (simp add: s3_def s2_def s1_def)
qed

lemma goes_away:
  assumes "syConns s cl = Some r" "returned r" "rnCloseErr r = None" "cl \<in> svRunning (gwServe (syGw s))"
  shows "\<exists>s'. (system_step compute)\<^sup>*\<^sup>* s s' \<and> syConns s' = (syConns s)(cl := None) \<and> syFinished s' = (syFinished s)(cl := None) \<and>
    gwPhase (syGw s') = gwPhase (syGw s) \<and> svPhase (gwServe (syGw s')) = svPhase (gwServe (syGw s)) \<and>
    svRunning (gwServe (syGw s')) = svRunning (gwServe (syGw s)) - {cl} \<and> svEnded (gwServe (syGw s')) = insert cl (svEnded (gwServe (syGw s)))"
proof -
  let ?sv = "gwServe (syGw s)"
  define s1 where "s1 = countInto connEnded (s\<lparr>syConns := (syConns s)(cl := None), syFinished := (syFinished s)(cl \<mapsto> rnCloseErr r)\<rparr>)"
  define sv where "sv = releaseSem ?sv\<lparr>svRunning := svRunning ?sv - {cl}, svEnded := insert cl (svEnded ?sv)\<rparr>"
  define s2 where "s2 = s1\<lparr>syGw := (syGw s1)\<lparr>gwServe := sv\<rparr>, syFinished := (syFinished s1)(cl := None)\<rparr>"
  have 1: "system_step compute s s1" unfolding s1_def by (rule system_step.conn_end [OF assms(1,2)])
  have sv: "svRunning sv = svRunning ?sv - {cl}" "svErrors sv = svErrors ?sv" "svPhase sv = svPhase ?sv" "svCancelled sv = svCancelled ?sv"
      "svEnded sv = insert cl (svEnded ?sv)"
    by (simp_all add: sv_def releaseSem_def)
  have "serve_step ?sv sv" unfolding sv_def by (rule serve_step.conn_end [OF assms(4)])
  then have "gateway_step (syGw s) ((syGw s)\<lparr>gwServe := sv\<rparr>)" by (rule gateway_step.serve) (auto simp: sv)
  then have 2: "system_step compute s1 s2" unfolding s2_def
    by (intro system_step.stop [where err = None]) (simp_all add: s1_def sv assms(3))
  show ?thesis using 1 2 by (intro exI [of _ s2]) (simp add: s2_def sv, simp add: s1_def)
qed

lemma gateway_lifted:
  "gateway_step (syGw s) g \<Longrightarrow> svRunning (gwServe g) = svRunning (gwServe (syGw s)) \<Longrightarrow>
   (system_step compute)\<^sup>*\<^sup>* s0 s \<Longrightarrow> (system_step compute)\<^sup>*\<^sup>* s0 (s\<lparr>syGw := g\<rparr>)"
  using system_step.gateway [of s g compute] by (simp add: rtranclp.rtrancl_into_rtrancl)

text \<open>A signal when no client is connected any more: the socket closes, the accept loop returns, the drain
  ends at once, the pool is closed, the program returns.\<close>

lemma shuts_down:
  assumes "gwPhase (syGw s) = Serving" "svPhase (gwServe (syGw s)) = Accepting" "svRunning (gwServe (syGw s)) = {}"
  shows "\<exists>g. (system_step compute)\<^sup>*\<^sup>* s (s\<lparr>syGw := g\<rparr>) \<and> gwPhase g = Returned_main \<and> svEnded (gwServe g) = svEnded (gwServe (syGw s))"
proof -
  define g0 where "g0 = syGw s"
  define g1 where "g1 = g0\<lparr>gwPhase := Draining, gwListenClosed := True\<rparr>"
  define g2 where "g2 = g1\<lparr>gwServe := (gwServe g1)\<lparr>svPhase := Stopped None\<rparr>\<rparr>"
  define g3 where "g3 = g2\<lparr>gwServe := (gwServe g2)\<lparr>svPhase := ServeDone None\<rparr>\<rparr>"
  define g4 where "g4 = g3\<lparr>gwPhase := Forcing\<rparr>"
  define g5 where "g5 = g4\<lparr>gwPhase := WaitingAll, gwServe := (gwServe g4)\<lparr>svCancelled := True\<rparr>,
      gwPool := (gwPool g4)\<lparr>plClosed := True\<rparr>\<rparr>"
  define g6 where "g6 = g5\<lparr>gwPhase := Returned_main\<rparr>"
  note defs = g0_def g1_def g2_def g3_def g4_def g5_def g6_def assms
  have signal: "gateway_step g0 g1" unfolding g1_def by (rule gateway_step.signal) (simp add: defs)
  have stop: "gateway_step g1 g2" unfolding g2_def
    by (rule gateway_step.serve, rule serve_step.accept_closed) (simp_all add: defs)
  have served: "gateway_step g2 g3" unfolding g3_def
    by (rule gateway_step.serve, rule serve_step.finish) (simp_all add: defs)
  have drained: "gateway_step g3 g4" unfolding g4_def by (rule gateway_step.served) (simp add: defs)+
  have forced: "gateway_step g4 g5" unfolding g5_def by (rule gateway_step.force) (simp add: defs)
  have returns: "gateway_step g5 g6" unfolding g6_def by (rule gateway_step.finish) (simp add: defs)+
  define run where "run g = s\<lparr>syGw := g\<rparr>" for g
  have go: "(system_step compute)\<^sup>*\<^sup>* s (run g')"
    if "(system_step compute)\<^sup>*\<^sup>* s (run g)" "gateway_step g g'" "svRunning (gwServe g') = svRunning (gwServe g)" for g g'
    using gateway_lifted [of "run g" g' compute s] that by (simp add: run_def)
  have "(system_step compute)\<^sup>*\<^sup>* s (run g0)" by (simp add: run_def g0_def)
  from go [OF go [OF go [OF go [OF go [OF go [OF this signal] stop] served] drained] forced] returns]
  have "(system_step compute)\<^sup>*\<^sup>* s (run g6)" by (simp add: defs)
  then show ?thesis unfolding run_def by (rule exI [of _ g6, OF conjI]) (simp add: defs)
qed

text \<open>A whole life: a client is admitted and hangs up, its connection ends, and the gateway is shut down.\<close>

theorem shutdown_is_orderly_witness:
  "\<exists>s1 r s2. (system_step (\<lambda>inp. None))\<^sup>*\<^sup>* (demoStart []) s1 \<and> syConns s1 0 = Some r \<and> rnClosed r \<and>
     ((\<exists>e. rnUp r = Exited e \<or> rnDown r = Exited e) \<or> gwFailed (syGw s1) \<or> gwPhase (syGw s1) \<in> {WaitingAll, Returned_main}) \<and>
     (system_step (\<lambda>inp. None))\<^sup>*\<^sup>* s1 s2 \<and> gwPhase (syGw s2) = Returned_main \<and> plClosed (gwPool (syGw s2)) \<and>
     syConns s2 = Map.empty \<and> 0 \<in> svEnded (gwServe (syGw s2))"
proof -
  let ?s = "admit (netOf []) (netOf []) (demoStart [])" and ?none = "\<lambda>inp. None"
  have adm: "svPhase (gwServe (syGw ?s)) = Accepting" "gwPhase (syGw ?s) = Serving" "svRunning (gwServe (syGw ?s)) = {0}"
    by (simp_all add: admit_def Let_def demo_accepts acquireSem_def)
  obtain r where r: "syConns ?s = [0 \<mapsto> r]" "rnUp r = Running" "rnDown r = Running" "rnErrCh r = []" "\<not> rnClosed r"
      "pending (rstream (coClientR (rnConn r))) = []" "ending (rstream (coClientR (rnConn r))) = EOF" "coIdleTimeout (rnConn r) = 0"
    by (simp add: admit_def Let_def demo_accepts startRun_def NewConn_def NewReader_def netOf_def)
      (simp add: demoStart_def startSystem_def connConfig_def demoCfg_def)
  have fin: "syFinished ?s = Map.empty" by (simp add: admit_def Let_def demo_accepts)
  obtain s1 r1 where s1: "(system_step ?none)\<^sup>*\<^sup>* ?s s1" "syConns s1 = [0 \<mapsto> r1]" "returned r1" "rnCloseErr r1 = None" "syGw s1 = syGw ?s"
      "syFinished s1 = Map.empty"
    using hangs_up [of ?s r ?none] r fin by auto
  have reach1: "(system_step ?none)\<^sup>*\<^sup>* (demoStart []) s1"
    using demo_admit [of ?none "[]" "netOf []" "netOf []"] s1(1) by simp
  obtain s2 where s2: "(system_step ?none)\<^sup>*\<^sup>* s1 s2" "gwPhase (syGw s2) = Serving" "svPhase (gwServe (syGw s2)) = Accepting"
      "svRunning (gwServe (syGw s2)) = {}" "svEnded (gwServe (syGw s2)) = insert 0 (svEnded (gwServe (syGw s1)))"
    using goes_away [of s1 0 r1 ?none] s1(2-5) adm by auto
  obtain g where g: "(system_step ?none)\<^sup>*\<^sup>* s2 (s2\<lparr>syGw := g\<rparr>)" "gwPhase g = Returned_main" "svEnded (gwServe g) = svEnded (gwServe (syGw s2))"
    using shuts_down [OF s2(2-4), of ?none] by blast
  have to: "(system_step ?none)\<^sup>*\<^sup>* s1 (s2\<lparr>syGw := g\<rparr>)" using s2(1) g(1) by simp
  then have reach2: "(system_step ?none)\<^sup>*\<^sup>* (demoStart []) (s2\<lparr>syGw := g\<rparr>)" using reach1 by simp
  have closed: "syConns s1 0 = Some r1" "rnClosed r1" using s1(2,3) by (simp_all add: returned_def)
  note before = shutdown_is_orderly [OF reach1 [unfolded demoStart_def]] and after = shutdown_is_orderly [OF reach2 [unfolded demoStart_def]]
  have "0 \<in> svEnded (gwServe (syGw (s2\<lparr>syGw := g\<rparr>)))" "gwPhase (syGw (s2\<lparr>syGw := g\<rparr>)) = Returned_main" using g(2,3) s2(5) by simp_all
  then show ?thesis using reach1 closed to before after by blast
qed

end
