(* ===== verification/Spec2Isabelle.thy ===== *)
theory Spec2Isabelle
  imports MetadataCodec FindCoordinatorCodec GroupCodecs ConsumerProtocol TelemetryCodecs Frame
    PlanCorrect PlanOrder PlanFair SubscriptionStore Tracker Topology EndToEnd Shutdown SystemExamples
begin

text \<open>
  kproxy is a proxy for the Kafka wire protocol.  It sits between the clients and the brokers of a
  cluster, forwards frames in both directions, replaces the broker addresses in the responses that
  carry them by addresses that clients can reach, and replaces the partition assignment that the
  leader of a consumer group computes by a plan of its own that weighs members by their lag.  This
  development models the Go packages under \<open>src/internal\<close>, the program \<open>src/cmd/kproxy\<close> that wires them
  together, and the demonstration programs under \<open>src/example\<close>.

  \<^bold>\<open>The parts and how they interact.\<close>  The listener accepts a client, dials the broker and runs a
  connection.  The connection has two pumps: the upstream pump reads a request, asks the interceptor
  about it, registers the answer in the connection's tracker and forwards the request; the downstream
  pump reads a response, takes its entry from the tracker and forwards the response, rewritten when
  the entry says so.  The interceptor decodes requests with package kwire, records subscriptions in a
  store, asks the planner pool for a plan and rewrites addresses with the topology.  In the background
  one client connection to the cluster feeds the metadata cache and the telemetry poller; the store
  tells the poller's registry which groups exist.

  \<^bold>\<open>Theories and sources.\<close>
  \<^item> \<open>Prelude\<close>: words as the integer types of the program, shared lemmas, and the locale
    \<open>step_system\<close> of a transition system with an invariant.  \<open>GoMap\<close>: Go maps as association lists
    with distinct keys, behind the locale \<open>go_map\<close>.  \<open>GoStd\<close>: the functions of the standard library
    that parse and print numbers and addresses.
  \<^item> \<open>Cursors\<close>, \<open>Primitives\<close>: \<open>kwire/primitives.go\<close> in an error monad of readers, and the locales
    \<open>append_only\<close>, \<open>safe_reader\<close> and \<open>wire_codec\<close>, the contract of an encoder and decoder.
    \<open>Headers\<close>: \<open>apikey.go\<close>, \<open>header.go\<close>.  \<open>MetadataCodec\<close>, \<open>FindCoordinatorCodec\<close>, \<open>GroupCodecs\<close>,
    \<open>ConsumerProtocol\<close>, \<open>TelemetryCodecs\<close>: one codec file of kwire each (\<open>joingroup.go\<close> and
    \<open>syncgroup.go\<close> in \<open>GroupCodecs\<close>; \<open>listoffsets.go\<close>, \<open>offsetfetch.go\<close>, \<open>describegroups.go\<close> in
    \<open>TelemetryCodecs\<close>).  Every pair is interpreted as a \<open>wire_codec\<close>.
  \<^item> \<open>Frame\<close>: \<open>frame/*.go\<close> over byte streams that may end or fail at any point.
  \<^item> \<open>Plan\<close>: \<open>plan/plan.go\<close>, one definition per loop of \<open>Compute\<close>; \<open>PlanCorrect\<close>, \<open>PlanOrder\<close>,
    \<open>PlanFair\<close> are its theorems.
  \<^item> \<open>SubscriptionStore\<close>: \<open>subscription/store.go\<close>, refining the locale \<open>bounded_kv\<close>.  \<open>Tracker\<close>:
    \<open>proxy/correlation.go\<close>, refining \<open>pending_table\<close>.  \<open>Topology\<close>: \<open>topology/*.go\<close>.  \<open>Metrics\<close>:
    \<open>obs/metrics.go\<close>.  \<open>Snapshots\<close>: the snapshots of \<open>metadata\<close> and \<open>telemetry\<close>.
  \<^item> \<open>Interceptor\<close>, \<open>InterceptorCorrect\<close>: \<open>interceptor/interceptor.go\<close>, handler by handler.
  \<^item> \<open>ProxyConn\<close>, \<open>ProxyCorrect\<close>: \<open>proxy/conn.go\<close>, \<open>proxy/intercept.go\<close>; \<open>run_step\<close> interleaves the two
    pumps, cancellation and the goroutine that collects their results.  The locale
    \<open>interceptor_contract\<close> says what a connection needs of an interceptor; it is interpreted by the
    transparent one there and by the production one in \<open>EndToEnd\<close>.
  \<^item> \<open>Planner\<close>: \<open>planner/planner.go\<close>, with \<open>planner_step\<close>.  \<open>Listener\<close>: \<open>proxy/listener.go\<close>, with
    \<open>serve_step\<close>.  \<open>Shutdown\<close>: \<open>shutdown/deadline.go\<close>, with \<open>group_step\<close>.
  \<^item> \<open>KClient\<close>: \<open>kclient/*.go\<close>.  \<open>MetadataCache\<close>: \<open>metadata/cache.go\<close>, with \<open>refresh_step\<close>; the goroutine of
    \<open>Run\<close> is number 0, and a history variable keeps what every call of \<open>Refresh\<close> returned.
    \<open>Telemetry\<close>: \<open>telemetry/kafka_native.go\<close>, stage by stage.
  \<^item> \<open>Gateway\<close>: the pieces of \<open>cmd/kproxy/main.go\<close>, and \<open>obs/admin.go\<close>; \<open>gateway_step\<close> is the shutdown
    sequence over the accept loop and the pool.  \<open>System\<close>: the whole program; \<open>boot\<close> starts it, and
    \<open>system_step\<close> interleaves the gateway, the start (\<open>OnConnStart\<close>), the pumps and the end (\<open>OnConnEnd\<close>, then
    the release of the slot) of every connection, the pool, the refreshes and their \<open>OnError\<close>, the
    polls and the gauges over one shared state.  \<open>SystemCorrect\<close> has its invariants and theorems, with
    \<open>waiting\<close>, the steps between a request and its response; \<open>SystemExamples\<close> has concrete runs.
    \<open>Flags\<close>: the command line of \<open>main\<close>.
  \<^item> \<open>DemoClients\<close>: \<open>example/consumer\<close>, \<open>example/producer\<close>, \<open>example/probe\<close>.  \<open>Scenario\<close>:
    \<open>example/scenario\<close>, and how it drives the gateway.

  \<^bold>\<open>What the theorems show.\<close>  For the wire: what is appended decodes to itself at every version, no
  decoder panics on any input, a decoder never allocates more than the frame could hold, frames are
  delimited exactly.  For a plan: every partition of a subscribed topic has exactly one owner, who
  subscribes to it; the plan does not depend on the order of its inputs; it keeps previous owners,
  balances equal members and starves nobody within stated conditions.  For a connection: a request
  whose response must be rewritten is never forwarded unregistered, a response is rewritten exactly
  when its own request asked for it and is still pending, the transparent interceptor changes no
  byte, the first failure winds down both directions and is what \<open>Run\<close> returns.  For the interceptor:
  the rewritten SyncGroup request carries the plan and nothing else changes, and every outcome is
  counted by its own counter.  For the
  stores: refinement of bounded tables.  For the concurrent components: answers reach the callers
  that asked, at most one fetch is in flight, nobody who waits is stranded, slots are never lost, a
  drain cancels everyone and at its deadline closes what is left, in every interleaving.  For telemetry:
  the published lag is the exact sum over what the brokers' responses give.
  For the whole program, in every reachable state: a client whose Metadata or FindCoordinator request is
  answered within \<open>PendingMaxAge\<close> sees the advertised address of every mapped broker and coordinator,
  the broker gets an assignment that shares out every partition of the group exactly once, or the
  leader's own request when the planner gave no plan, every subscribed group is polled, the gauges and
  what a scrape of the metrics endpoint reads agree with the state, and a shutdown is orderly.  For its
  start: the command line of the scenario yields a gateway with exactly its mapping.
  The lemmas outside the listed properties include counterexamples to what comments promise
  (\<open>plan_depends_on_donor_order\<close>, \<open>plan_can_starve\<close>, \<open>uppercase_host_never_matches\<close>,
  \<open>older_overwrites_newer\<close>, \<open>drain_returns_early\<close>, \<open>concurrent_close_panics\<close>,
  \<open>panic_empties_assignments\<close>, \<open>zero_refresh_never_healthy\<close>, \<open>next_call_overwrites_response\<close>,
  \<open>unknown_member_emptied\<close>, \<open>members_are_never_forgotten\<close>, \<open>unready_kproxy_left_running\<close>,
  \<open>late_response_forwarded_raw\<close>, \<open>initial_failure_uncounted\<close>).

  \<^bold>\<open>Conventions.\<close>  Sized integers are words and wrap; Go's \<open>int\<close> (64 bits wide on the platforms the
  program is built for), durations and times are unbounded.
  Strings are byte sequences.  An error is the left side of a sum or a present option; a slice
  expression out of range is the error \<open>SlicePanic\<close>, which is proved never to occur.  All loops are
  structural or have a measure, so there is no fuel; goroutines are step relations, in which one
  rule is one atomic action, and every claim about them ranges over all reachable states.  In
  \<open>system_step\<close> an iteration of a pump, with the handler it calls (which reads a published snapshot once,
  and whose \<open>Put\<close> runs the change callback), and a fetch or a poll over the side channel are such actions; that the buffer of the side channel is shared while a response is decoded
  is the subject of \<open>next_call_overwrites_response\<close> in \<open>KClient\<close>.  Parameters stand for what the
  sources do not contain: the clock, the order in which Go iterates over a map where it matters, the
  network, the contents of a file and its JSON decoder, the Unicode tables beyond ASCII, the
  computations in floating point (printed seconds, fractions of a duration), the franz-go library and
  the HTTP client of the demonstrations.

  \<^bold>\<open>Not modelled.\<close>  Logging of the proxy, the delivery of signals, the sockets themselves, the HTTP
  server and pprof are calls of libraries without logic of the program's own.  The command lines of
  the demonstration programs are taken after parsing.  Elapsed times of computations appear only
  where they are added to a counter.
\<close>

text \<open>
  C24: no decoder of package kwire panics: on every input, every version and every API key, it
  returns a value or one of its two errors, never a slice expression out of range.
\<close>

theorem kwire_no_panic:
  "DecodeRequestHeader body \<noteq> Inl SlicePanic \<and>
   DecodeResponseHeader body key ver \<noteq> Inl SlicePanic \<and>
   DecodeMetadataResponse body ver \<noteq> Inl SlicePanic \<and>
   DecodeFindCoordinatorResponse body ver \<noteq> Inl SlicePanic \<and>
   DecodeJoinGroupRequest body ver \<noteq> Inl SlicePanic \<and>
   DecodeSyncGroupRequest body ver \<noteq> Inl SlicePanic \<and>
   DecodeSyncGroupResponse body ver \<noteq> Inl SlicePanic \<and>
   DecodeSubscription body \<noteq> Inl SlicePanic \<and>
   DecodeAssignment body \<noteq> Inl SlicePanic \<and>
   DecodeListOffsetsResponse body \<noteq> Inl SlicePanic \<and>
   DecodeOffsetFetchResponse body \<noteq> Inl SlicePanic \<and>
   DecodeDescribeGroupsResponse body \<noteq> Inl SlicePanic"
  unfolding DecodeMetadataResponse_def DecodeFindCoordinatorResponse_def DecodeJoinGroupRequest_def
    DecodeSyncGroupRequest_def DecodeSyncGroupResponse_def DecodeSubscription_def DecodeAssignment_def
    DecodeListOffsetsResponse_def DecodeOffsetFetchResponse_def DecodeDescribeGroupsResponse_def
  by (intro conjI DecodeRequestHeader_no_panic DecodeResponseHeader_no_panic mresponse.no_panic
      fcresponse.no_panic jgrequest.no_panic sgrequest.no_panic sgresponse.no_panic subscr.no_panic
      assignm.no_panic listoffsets.no_panic offsetfetch.no_panic describegroups.no_panic)

end
